(* ===== verification/Prelude.thy ===== *)
theory Prelude
  imports Complex_Main "HOL-Library.Word" "HOL-Library.Multiset" "HOL-Library.AList"
begin

text \<open>
  Shared vocabulary of the development: the types that stand for Rust's identifiers,
  clocks and machine integers, the standard-library string operations the sources use,
  JSON values, and the interface locales that several components implement.

  Strings are lists of 8-bit characters (the UTF-8 bytes of a Rust \<open>str\<close>). The
  Unicode-aware operations \<open>to_lowercase\<close>, \<open>to_uppercase\<close>, \<open>trim\<close> and
  \<open>split_whitespace\<close> are written out for ASCII, which they agree with on every ASCII
  text; bytes from 128 up are left as they are.
\<close>

section \<open>Types\<close>

type_synonym uuid = nat
type_synonym datetime = int     \<comment> \<open>chrono's UTC time stamps, in milliseconds\<close>
type_synonym instant = nat      \<comment> \<open>monotonic clock readings, in nanoseconds\<close>
type_synonym duration = nat     \<comment> \<open>\<open>std::time::Duration\<close>, in nanoseconds\<close>
type_synonym u32 = "32 word"
type_synonym u64 = "64 word"

abbreviation secs :: "nat \<Rightarrow> duration" where
  "secs n \<equiv> n * 1000000000"

datatype json =
    JNull
  | JBool bool
  | JNumber string                       \<comment> \<open>the number's literal\<close>
  | JString string
  | JArray "json list"
  | JObject "(string \<times> json) list"     \<comment> \<open>members in the map's iteration order\<close>

named_theorems str_simps \<open>evaluation rules of the string operations\<close>
named_theorems word_facts \<open>counters that stay below their width\<close>

section \<open>Strings\<close>

definition lower_char :: "char \<Rightarrow> char" where
  "lower_char c = (let n = of_char c :: nat in if 65 \<le> n \<and> n \<le> 90 then char_of (n + 32) else c)"

definition upper_char :: "char \<Rightarrow> char" where
  "upper_char c = (let n = of_char c :: nat in if 97 \<le> n \<and> n \<le> 122 then char_of (n - 32) else c)"

definition to_lowercase :: "string \<Rightarrow> string" where
  "to_lowercase s = map lower_char s"

definition to_uppercase :: "string \<Rightarrow> string" where
  "to_uppercase s = map upper_char s"

definition is_ws :: "char \<Rightarrow> bool" where
  "is_ws c = (let n = of_char c :: nat in (9 \<le> n \<and> n \<le> 13) \<or> n = 32)"

definition is_alnum :: "char \<Rightarrow> bool" where
  "is_alnum c = (let n = of_char c :: nat in
     (48 \<le> n \<and> n \<le> 57) \<or> (65 \<le> n \<and> n \<le> 90) \<or> (97 \<le> n \<and> n \<le> 122))"

definition is_hexdigit :: "char \<Rightarrow> bool" where
  "is_hexdigit c = (let n = of_char c :: nat in
     (48 \<le> n \<and> n \<le> 57) \<or> (65 \<le> n \<and> n \<le> 70) \<or> (97 \<le> n \<and> n \<le> 102))"

definition starts_with :: "string \<Rightarrow> string \<Rightarrow> bool" where
  "starts_with s p = (take (length p) s = p)"

definition ends_with :: "string \<Rightarrow> string \<Rightarrow> bool" where
  "ends_with s p = (length p \<le> length s \<and> drop (length s - length p) s = p)"

definition strip_prefix :: "string \<Rightarrow> string \<Rightarrow> string option" where
  "strip_prefix s p = (if starts_with s p then Some (drop (length p) s) else None)"

definition strip_suffix :: "string \<Rightarrow> string \<Rightarrow> string option" where
  "strip_suffix s p = (if ends_with s p then Some (take (length s - length p) s) else None)"

fun contains_str :: "string \<Rightarrow> string \<Rightarrow> bool" where
  "contains_str [] p = (p = [])"
| "contains_str (c # cs) p = (starts_with (c # cs) p \<or> contains_str cs p)"

definition trim_start :: "string \<Rightarrow> string" where
  "trim_start s = dropWhile is_ws s"

definition trim_end :: "string \<Rightarrow> string" where
  "trim_end s = rev (dropWhile is_ws (rev s))"

definition trim :: "string \<Rightarrow> string" where
  "trim s = trim_end (trim_start s)"

fun split_ws_from :: "string \<Rightarrow> string \<Rightarrow> string list" where
  "split_ws_from acc [] = (if acc = [] then [] else [rev acc])"
| "split_ws_from acc (c # cs) =
     (if is_ws c then (if acc = [] then [] else [rev acc]) @ split_ws_from [] cs
      else split_ws_from (c # acc) cs)"

definition split_whitespace :: "string \<Rightarrow> string list" where
  "split_whitespace s = split_ws_from [] s"

fun split_on :: "char \<Rightarrow> string \<Rightarrow> string list" where
  "split_on d [] = [[]]"
| "split_on d (c # cs) =
     (if c = d then [] # split_on d cs
      else (case split_on d cs of [] \<Rightarrow> [[c]] | x # xs \<Rightarrow> (c # x) # xs))"

fun join :: "string \<Rightarrow> string list \<Rightarrow> string" where
  "join sep [] = []"
| "join sep [x] = x"
| "join sep (x # y # ys) = x @ sep @ join sep (y # ys)"

definition replace_char :: "char \<Rightarrow> string \<Rightarrow> string \<Rightarrow> string" where
  "replace_char c r s = concat (map (\<lambda>d. if d = c then r else [d]) s)"

text \<open>\<open>str::replace\<close> with a non-empty pattern: the occurrences are found from left to right.\<close>

fun replace_str :: "string \<Rightarrow> string \<Rightarrow> string \<Rightarrow> string" where
  "replace_str p q [] = []"
| "replace_str p q (c # cs) =
     (if p \<noteq> [] \<and> starts_with (c # cs) p then q @ replace_str p q (drop (length p) (c # cs))
      else c # replace_str p q cs)"

text \<open>\<open>str::lines\<close>: a carriage return goes with the line feed after it, and there is no empty last line.\<close>

definition strip_cr :: "string \<Rightarrow> string" where
  "strip_cr l = (case strip_suffix l [CHR 0x0D] of Some r \<Rightarrow> r | None \<Rightarrow> l)"

definition str_lines :: "string \<Rightarrow> string list" where
  "str_lines s =
     (let ps = split_on (CHR 0x0A) s
      in map strip_cr (butlast ps) @ (if last ps = [] then [] else [last ps]))"

text \<open>
  Slicing a Rust string at a position inside a multi-byte character panics: \<open>None\<close>. A byte is
  a continuation of a character if its value is from 128 to 191.
\<close>

definition is_continuation :: "char \<Rightarrow> bool" where
  "is_continuation c = (let n = of_char c :: nat in 128 \<le> n \<and> n < 192)"

definition is_char_boundary :: "string \<Rightarrow> nat \<Rightarrow> bool" where
  "is_char_boundary s i = (i = 0 \<or> i = length s \<or> (i < length s \<and> \<not> is_continuation (s ! i)))"

definition slice_to :: "string \<Rightarrow> nat \<Rightarrow> string option" where
  "slice_to s i = (if is_char_boundary s i then Some (take i s) else None)"

text \<open>The nearest boundary at or before a position, by stepping back.\<close>

fun boundary_before :: "string \<Rightarrow> nat \<Rightarrow> nat" where
  "boundary_before s pos = (if pos > 0 \<and> \<not> is_char_boundary s pos then boundary_before s (pos - 1) else pos)"

declare boundary_before.simps [simp del]

fun show_nat :: "nat \<Rightarrow> string" where
  "show_nat n = (if n < 10 then [char_of (48 + n)]
                 else show_nat (n div 10) @ [char_of (48 + n mod 10)])"

declare show_nat.simps [simp del]

text \<open>\<open>if let Some(x) = xs.last_mut() { f(x) }\<close>: update the last element, if there is one.\<close>

definition map_last :: "('a \<Rightarrow> 'a) \<Rightarrow> 'a list \<Rightarrow> 'a list" where
  "map_last f xs = (if xs = [] then [] else butlast xs @ [f (last xs)])"

text \<open>\<open>Iterator::min_by_key\<close> returns the first of several minimal elements.\<close>

fun min_by_key :: "('a \<Rightarrow> 'b::linorder) \<Rightarrow> 'a list \<Rightarrow> 'a option" where
  "min_by_key key [] = None"
| "min_by_key key (x # xs) =
     (case min_by_key key xs of
        None \<Rightarrow> Some x
      | Some y \<Rightarrow> Some (if key x \<le> key y then x else y))"

section \<open>Hash maps\<close>

text \<open>
  A \<open>HashMap\<close> that the code iterates over is an association list with distinct keys: its
  order stands for the map's unspecified iteration order, and the operations are executable.
\<close>

type_synonym ('k, 'v) hashmap = "('k \<times> 'v) list"

definition hm_get :: "('k, 'v) hashmap \<Rightarrow> 'k \<Rightarrow> 'v option" where
  "hm_get m k = map_of m k"

definition hm_insert :: "'k \<Rightarrow> 'v \<Rightarrow> ('k, 'v) hashmap \<Rightarrow> ('k, 'v) hashmap" where
  "hm_insert k v m = AList.update k v m"

definition hm_remove :: "'k \<Rightarrow> ('k, 'v) hashmap \<Rightarrow> ('k, 'v) hashmap" where
  "hm_remove k m = filter (\<lambda>(k', _). k' \<noteq> k) m"

definition hm_update :: "'k \<Rightarrow> ('v \<Rightarrow> 'v) \<Rightarrow> ('k, 'v) hashmap \<Rightarrow> ('k, 'v) hashmap" where
  "hm_update k f m = map (\<lambda>(k', v). (k', if k' = k then f v else v)) m"

definition hm_keys :: "('k, 'v) hashmap \<Rightarrow> 'k list" where
  "hm_keys m = map fst m"

definition hm_wf :: "('k, 'v) hashmap \<Rightarrow> bool" where
  "hm_wf m \<longleftrightarrow> distinct (map fst m)"

section \<open>JSON accessors\<close>

fun json_get :: "json \<Rightarrow> string \<Rightarrow> json option" where
  "json_get (JObject kvs) k = map_of kvs k"
| "json_get _ k = None"

fun as_str :: "json \<Rightarrow> string option" where
  "as_str (JString s) = Some s"
| "as_str _ = None"

fun as_array :: "json \<Rightarrow> json list option" where
  "as_array (JArray xs) = Some xs"
| "as_array _ = None"

fun as_object :: "json \<Rightarrow> (string \<times> json) list option" where
  "as_object (JObject kvs) = Some kvs"
| "as_object _ = None"

section \<open>Facts about strings\<close>

lemma to_lowercase_Nil [simp]: "to_lowercase [] = []"
  by (simp add: to_lowercase_def)

lemma to_lowercase_append: "to_lowercase (s @ t) = to_lowercase s @ to_lowercase t"
  by (simp add: to_lowercase_def)

lemma length_to_lowercase [simp]: "length (to_lowercase s) = length s"
  by (simp add: to_lowercase_def)

lemma lower_char_idem [simp]: "lower_char (lower_char c) = lower_char c"
  by (auto simp: lower_char_def Let_def)

lemma to_lowercase_idem [simp]: "to_lowercase (to_lowercase s) = to_lowercase s"
  by (simp add: to_lowercase_def)

lemma starts_with_iff: "starts_with s p \<longleftrightarrow> (\<exists>r. s = p @ r)"
  by (auto simp: starts_with_def) (metis append_take_drop_id)

lemma ends_with_iff: "ends_with s p \<longleftrightarrow> (\<exists>r. s = r @ p)"
  by (auto simp: ends_with_def) (metis append_take_drop_id)

lemma starts_with_Nil [simp]: "starts_with s []"
  by (simp add: starts_with_def)

lemma strip_prefix_Some: "strip_prefix s p = Some r \<longleftrightarrow> s = p @ r"
  by (auto simp: strip_prefix_def starts_with_iff)

lemma strip_prefix_None: "strip_prefix s p = None \<longleftrightarrow> \<not> starts_with s p"
  by (simp add: strip_prefix_def)

lemma strip_suffix_Some: "strip_suffix s p = Some r \<longleftrightarrow> s = r @ p"
  by (auto simp: strip_suffix_def ends_with_iff)

lemma contains_str_iff: "contains_str s p \<longleftrightarrow> (\<exists>a b. s = a @ p @ b)"
proof (induction s)
  case Nil
  then show ?case by auto
next
  case (Cons c cs)
  have "(\<exists>a b. c # cs = a @ p @ b) \<longleftrightarrow> starts_with (c # cs) p \<or> (\<exists>a b. cs = a @ p @ b)"
    by (auto simp: starts_with_iff Cons_eq_append_conv)
  then show ?case using Cons by simp
qed

lemma set_replace_str: "set (replace_str p q s) \<subseteq> set s \<union> set q"
proof (induction p q s rule: replace_str.induct)
  case (2 p q c cs)
  have "set (drop (length p) (c # cs)) \<subseteq> set (c # cs)"
    by (rule set_drop_subset)
  with 2 show ?case by (cases "p \<noteq> [] \<and> starts_with (c # cs) p") auto
qed simp

lemma split_on_not_Nil [simp]: "split_on d s \<noteq> []"
  by (induction s) (auto split: list.splits)

lemma join_Cons: "xs \<noteq> [] \<Longrightarrow> join sep (x # xs) = x @ sep @ join sep xs"
  by (cases xs) auto

lemma set_join: "set (join sep xs) \<subseteq> set sep \<union> \<Union> (set ` set xs)"
  by (induction sep xs rule: join.induct) auto

lemma join_split_on: "join [d] (split_on d s) = s"
proof (induction s)
  case Nil
  then show ?case by simp
next
  case (Cons c s)
  obtain x xs where x: "split_on d s = x # xs"
    by (cases "split_on d s") auto
  with Cons show ?case by (cases xs) auto
qed

lemma split_on_pieces: "x \<in> set (split_on d s) \<Longrightarrow> d \<notin> set x"
  by (induction s arbitrary: x) (force split: list.splits if_splits)+

lemma split_on_subset: "x \<in> set (split_on d s) \<Longrightarrow> set x \<subseteq> set s"
  by (induction s arbitrary: x) (force split: list.splits if_splits)+

lemma split_on_join:
  "xs \<noteq> [] \<Longrightarrow> \<forall>x \<in> set xs. d \<notin> set x \<Longrightarrow> split_on d (join [d] xs) = xs"
proof (induction "[d]" xs rule: join.induct)
  case (2 x)
  have "d \<notin> set x \<Longrightarrow> split_on d x = [x]" for x
    by (induction x) auto
  with 2 show ?case by simp
next
  case (3 x y ys)
  have "d \<notin> set x \<Longrightarrow> split_on d (x @ d # r) = x # split_on d r" for x r
    by (induction x) auto
  with 3 show ?case by simp
qed auto

lemma trim_pad:
  assumes "\<forall>c \<in> set a. is_ws c" and "\<forall>c \<in> set b. is_ws c"
  shows "trim (a @ s @ b) = trim s"
proof -
  have a: "trim_start (a @ s @ b) = trim_start (s @ b)"
    using assms(1) by (simp add: trim_start_def)
  have b: "trim_end (x @ b) = trim_end x" for x
    unfolding trim_end_def rev_append using assms(2) by (subst dropWhile_append2) auto
  show ?thesis
  proof (cases "\<forall>c \<in> set s. is_ws c")
    case True
    then have "trim_start s = []" "trim_start (s @ b) = []"
      using assms(2) by (auto simp: trim_start_def dropWhile_eq_Nil_conv)
    then show ?thesis
      using a by (simp add: trim_def)
  next
    case False
    then have "trim_start (s @ b) = trim_start s @ b"
      by (auto simp: trim_start_def dropWhile_append)
    then show ?thesis using a b by (simp add: trim_def)
  qed
qed

section \<open>Facts about machine integers and lists\<close>

lemma unat_Suc_less [word_facts]:
  fixes c t :: "'a::len word"
  shows "c < t \<Longrightarrow> unat (c + 1) = Suc (unat c)"
proof -
  assume "c < t"
  then have "unat c < unat t"
    by (simp add: word_less_nat_alt)
  moreover have "unat t < 2 ^ LENGTH('a)"
    by (rule unsigned_less)
  ultimately have "unat c + 1 < 2 ^ LENGTH('a)"
    by linarith
  then show ?thesis
    by (simp add: unat_word_ariths)
qed

lemma word_inc_le [word_facts]:
  fixes c t :: "'a::len word"
  shows "c < t \<Longrightarrow> c + 1 \<le> t"
  by (rule inc_le)

lemma length_map_last [simp]: "length (map_last f xs) = length xs"
  by (cases xs) (auto simp: map_last_def)

lemma map_last_Nil [simp]: "map_last f [] = []"
  by (simp add: map_last_def)

lemma map_last_snoc [simp]: "map_last f (xs @ [x]) = xs @ [f x]"
  by (simp add: map_last_def)

lemma map_last_empty_iff [simp]: "map_last f xs = [] \<longleftrightarrow> xs = []"
  by (cases xs rule: rev_cases) auto

lemma nth_map_last:
  "i < length xs \<Longrightarrow> map_last f xs ! i = (if Suc i = length xs then f (xs ! i) else xs ! i)"
  by (cases xs rule: rev_cases) (auto simp: nth_append)

lemma set_map_last: "x \<in> set (map_last f xs) \<Longrightarrow> x \<in> set xs \<or> (\<exists>y \<in> set xs. x = f y)"
  by (cases xs rule: rev_cases) auto

lemma min_by_key_None [simp]: "min_by_key key xs = None \<longleftrightarrow> xs = []"
  by (cases xs) (auto split: option.splits)

lemma min_by_key_Some:
  "min_by_key key xs = Some x \<Longrightarrow> x \<in> set xs \<and> (\<forall>y \<in> set xs. key x \<le> key y)"
  by (induction xs arbitrary: x) (fastforce split: option.splits if_splits)+

section \<open>Interfaces\<close>

text \<open>
  A component whose operations keep an invariant: the law is one step, and what its
  clients rely on is that every sequence of operations keeps it.
\<close>

locale invariant_machine =
  fixes step :: "'s \<Rightarrow> 'op \<Rightarrow> 's"
    and inv :: "'s \<Rightarrow> bool"
  assumes step_inv: "inv s \<Longrightarrow> inv (step s x)"
begin

lemma run_inv: "inv s \<Longrightarrow> inv (foldl step s xs)"
  by (induction xs arbitrary: s) (auto intro: step_inv)

end

text \<open>
  A keyed store: what a lookup returns after a write or a removal of any key.
\<close>

locale keyed_store =
  fixes lookup :: "'m \<Rightarrow> 'k \<Rightarrow> 'v option"
    and put :: "'k \<Rightarrow> 'v \<Rightarrow> 'm \<Rightarrow> 'm"
    and remove :: "'k \<Rightarrow> 'm \<Rightarrow> 'm"
  assumes lookup_put: "lookup (put k v m) k' = (if k' = k then Some v else lookup m k')"
    and lookup_remove: "lookup (remove k m) k' = (if k' = k then None else lookup m k')"
begin

lemma put_other: "k' \<noteq> k \<Longrightarrow> lookup (put k v m) k' = lookup m k'"
  by (simp add: lookup_put)

lemma remove_other: "k' \<noteq> k \<Longrightarrow> lookup (remove k m) k' = lookup m k'"
  by (simp add: lookup_remove)

lemma put_then_remove: "lookup m k = None \<Longrightarrow> lookup (remove k (put k v m)) = lookup m"
  by (auto simp: lookup_put lookup_remove)

lemma last_put_wins: "lookup (put k w (put k v m)) = lookup (put k w m)"
  by (auto simp: lookup_put)

end

text \<open>
  An allowlist: a request is let through exactly when one of the configured patterns
  matches it.
\<close>

locale allowlist =
  fixes permits :: "'p list \<Rightarrow> 'r \<Rightarrow> bool"
    and matches :: "'p \<Rightarrow> 'r \<Rightarrow> bool"
  assumes permits_iff: "permits ps r \<longleftrightarrow> (\<exists>p \<in> set ps. matches p r)"
begin

lemma empty_denies: "\<not> permits [] r"
  by (simp add: permits_iff)

lemma permits_mono: "set ps \<subseteq> set qs \<Longrightarrow> permits ps r \<Longrightarrow> permits qs r"
  by (auto simp: permits_iff)

lemma permits_append: "permits (ps @ qs) r \<longleftrightarrow> permits ps r \<or> permits qs r"
  by (auto simp: permits_iff)

lemma permits_perm: "mset ps = mset qs \<Longrightarrow> permits ps r = permits qs r"
  by (metis permits_iff set_mset_mset)

end

section \<open>Hash maps as keyed stores\<close>

lemma hm_get_remove: "hm_get (hm_remove k m) k' = (if k' = k then None else hm_get m k')"
  by (induction m) (auto simp: hm_get_def hm_remove_def)

lemma hm_get_insert: "hm_get (hm_insert k v m) k' = (if k' = k then Some v else hm_get m k')"
  by (simp add: hm_get_def hm_insert_def update_conv')

interpretation hm: keyed_store hm_get hm_insert hm_remove
  by unfold_locales (simp_all add: hm_get_insert hm_get_remove)

lemma hm_get_update: "hm_get (hm_update k f m) k' = (if k' = k then map_option f (hm_get m k) else hm_get m k')"
  by (induction m) (auto simp: hm_get_def hm_update_def)

lemma hm_get_Nil [simp]: "hm_get [] k = None"
  by (simp add: hm_get_def)

lemma hm_wf_Nil [simp]: "hm_wf []"
  by (simp add: hm_wf_def)

lemma hm_wf_insert [simp]: "hm_wf m \<Longrightarrow> hm_wf (hm_insert k v m)"
  by (simp add: hm_wf_def hm_insert_def distinct_update)

lemma hm_wf_filter [simp]: "hm_wf m \<Longrightarrow> hm_wf (filter p m)"
  by (simp add: hm_wf_def distinct_map_filter)

lemma hm_wf_remove [simp]: "hm_wf m \<Longrightarrow> hm_wf (hm_remove k m)"
  by (simp add: hm_remove_def)

lemma hm_keys_update [simp]: "map fst (hm_update k f m) = map fst m"
  by (induction m) (auto simp: hm_update_def)

lemma hm_wf_update [simp]: "hm_wf (hm_update k f m) = hm_wf m"
  by (simp add: hm_wf_def)

lemma hm_get_in_set: "hm_wf m \<Longrightarrow> hm_get m k = Some v \<longleftrightarrow> (k, v) \<in> set m"
  by (simp add: hm_get_def hm_wf_def)

lemma hm_get_None: "hm_get m k = None \<longleftrightarrow> k \<notin> fst ` set m"
  by (simp add: hm_get_def map_of_eq_None_iff)

lemma hm_get_filter:
  "hm_wf m \<Longrightarrow> hm_get (filter p m) k =
     (case hm_get m k of None \<Rightarrow> None | Some v \<Rightarrow> if p (k, v) then Some v else None)"
  by (induction m) (auto simp: hm_get_def hm_wf_def map_of_eq_None_iff split: option.splits)

lemma hm_insert_new: "hm_get m k = None \<Longrightarrow> hm_insert k v m = m @ [(k, v)]"
  by (induction m) (auto simp: hm_get_def hm_insert_def split: if_splits)

lemma length_hm_remove: "hm_wf m \<Longrightarrow> hm_get m k \<noteq> None \<Longrightarrow> Suc (length (hm_remove k m)) = length m"
proof (induction m)
  case (Cons x m)
  have "k \<notin> fst ` set m \<Longrightarrow> hm_remove k m = m"
    by (force simp: hm_remove_def filter_id_conv)
  with Cons show ?case
    by (cases x) (auto simp: hm_get_def hm_wf_def hm_remove_def split: if_splits)
qed simp

lemma length_hm_remove_less: "kv \<in> set m \<Longrightarrow> length (hm_remove (fst kv) m) < length m"
  unfolding hm_remove_def by (rule length_filter_less [of kv]) auto

lemma length_hm_insert: "length (hm_insert k v m) = (if k \<in> fst ` set m then length m else Suc (length m))"
  by (induction m) (auto simp: hm_insert_def)

lemma set_hm_insert: "hm_wf m \<Longrightarrow> set (hm_insert k v m) = insert (k, v) {kv \<in> set m. fst kv \<noteq> k}"
  by (induction m) (auto simp: hm_insert_def hm_wf_def rev_image_eqI)

lemma set_hm_remove: "set (hm_remove k m) = {kv \<in> set m. fst kv \<noteq> k}"
  by (auto simp: hm_remove_def)

section \<open>Facts about character boundaries\<close>

lemma boundary_before_le: "boundary_before s n \<le> n"
  by (induction s n rule: boundary_before.induct) (subst boundary_before.simps, auto)

lemma boundary_before_boundary: "is_char_boundary s (boundary_before s n)"
proof (induction s n rule: boundary_before.induct)
  case (1 s pos)
  then show ?case
    by (subst boundary_before.simps) (auto simp: is_char_boundary_def)
qed

lemma boundary_before_last: "boundary_before s n < i \<Longrightarrow> i \<le> n \<Longrightarrow> \<not> is_char_boundary s i"
proof (induction s n rule: boundary_before.induct)
  case (1 s pos)
  then show ?case
    by (cases "i = pos") (auto simp: boundary_before.simps [of s pos] split: if_splits)
qed

lemma lower_char_not_upper: "of_char (lower_char c) < (65::nat) \<or> 90 < (of_char (lower_char c) :: nat)"
  by (auto simp: lower_char_def Let_def)

end
