(* ===== verification/Llm_Types.thy ===== *)
theory Llm_Types
  imports Prelude
begin

text \<open>
  The message, request and error types of \<open>src/llm/provider.rs\<close> and \<open>src/error.rs\<close>, and
  the message sanitizer that every request passes through before it is sent.
\<close>

section \<open>Messages\<close>

datatype role = System | User | Assistant | Tool

record tool_call =
  tc_id :: string
  tc_name :: string
  tc_arguments :: json

record chat_message =
  cm_role :: role
  cm_content :: string
  cm_tool_call_id :: "string option"
  cm_name :: "string option"
  cm_tool_calls :: "tool_call list option"

definition msg_system :: "string \<Rightarrow> chat_message" where
  "msg_system content = \<lparr>cm_role = System, cm_content = content, cm_tool_call_id = None,
     cm_name = None, cm_tool_calls = None\<rparr>"

definition msg_user :: "string \<Rightarrow> chat_message" where
  "msg_user content = \<lparr>cm_role = User, cm_content = content, cm_tool_call_id = None,
     cm_name = None, cm_tool_calls = None\<rparr>"

definition msg_assistant :: "string \<Rightarrow> chat_message" where
  "msg_assistant content = \<lparr>cm_role = Assistant, cm_content = content, cm_tool_call_id = None,
     cm_name = None, cm_tool_calls = None\<rparr>"

definition msg_assistant_with_tool_calls :: "string option \<Rightarrow> tool_call list \<Rightarrow> chat_message" where
  "msg_assistant_with_tool_calls content calls =
     \<lparr>cm_role = Assistant,
      cm_content = (case content of None \<Rightarrow> [] | Some c \<Rightarrow> c),
      cm_tool_call_id = None, cm_name = None,
      cm_tool_calls = (if calls = [] then None else Some calls)\<rparr>"

definition msg_tool_result :: "string \<Rightarrow> string \<Rightarrow> string \<Rightarrow> chat_message" where
  "msg_tool_result call_id name content =
     \<lparr>cm_role = Tool, cm_content = content, cm_tool_call_id = Some call_id,
      cm_name = Some name, cm_tool_calls = None\<rparr>"

section \<open>Requests and responses\<close>

record completion_request =
  rq_messages :: "chat_message list"
  rq_model :: "string option"
  rq_max_tokens :: "u32 option"
  rq_temperature :: "u32 option"       \<comment> \<open>the bit pattern of the \<open>f32\<close>\<close>
  rq_stop_sequences :: "string list option"
  rq_metadata :: "string \<rightharpoonup> string"

definition completion_request_new :: "chat_message list \<Rightarrow> completion_request" where
  "completion_request_new msgs = \<lparr>rq_messages = msgs, rq_model = None, rq_max_tokens = None,
     rq_temperature = None, rq_stop_sequences = None, rq_metadata = Map.empty\<rparr>"

definition completion_request_with_model :: "completion_request \<Rightarrow> string \<Rightarrow> completion_request" where
  "completion_request_with_model r m = r\<lparr>rq_model := Some m\<rparr>"

datatype finish_reason = Stop | Length | ToolUse | ContentFilter | Unknown

record completion_response =
  rs_content :: string
  rs_input_tokens :: u32
  rs_output_tokens :: u32
  rs_finish_reason :: finish_reason
  rs_cache_read_input_tokens :: u32
  rs_cache_creation_input_tokens :: u32

record tool_definition =
  td_name :: string
  td_description :: string
  td_parameters :: json

section \<open>Errors\<close>

text \<open>
  The payloads of \<open>Http\<close>, \<open>Json\<close> and \<open>Io\<close> are errors of other crates; only their
  display text is kept.
\<close>

datatype llm_error =
    RequestFailed string string
  | RateLimited string "duration option"
  | InvalidResponse string string
  | ContextLengthExceeded nat nat
  | ModelNotAvailable string string
  | AuthFailed string
  | SessionExpired string
  | SessionRenewalFailed string string
  | Http string
  | Json string
  | Io string

section \<open>Tool message sanitizer\<close>

definition announced_ids :: "chat_message \<Rightarrow> string set" where
  "announced_ids m =
     (if cm_role m = Assistant
      then (case cm_tool_calls m of None \<Rightarrow> {} | Some calls \<Rightarrow> tc_id ` set calls)
      else {})"

definition known_ids :: "chat_message list \<Rightarrow> string set" where
  "known_ids msgs = \<Union> (announced_ids ` set msgs)"

definition is_orphaned :: "string set \<Rightarrow> chat_message \<Rightarrow> bool" where
  "is_orphaned ids m = (case cm_tool_call_id m of Some i \<Rightarrow> i \<notin> ids | None \<Rightarrow> True)"

definition rewrite_orphan :: "chat_message \<Rightarrow> chat_message" where
  "rewrite_orphan m =
     (let tool_name = (case cm_name m of Some n \<Rightarrow> n | None \<Rightarrow> ''unknown'')
      in m\<lparr>cm_role := User,
           cm_content := ''[Tool '' @ [CHR 0x60] @ tool_name @ [CHR 0x60] @ '' returned: '' @ cm_content m @ '']'',
           cm_tool_call_id := None, cm_name := None\<rparr>)"

definition sanitize_tool_messages :: "chat_message list \<Rightarrow> chat_message list" where
  "sanitize_tool_messages msgs =
     (let ids = known_ids msgs in
      map (\<lambda>m. if cm_role m \<noteq> Tool then m
               else if is_orphaned ids m then rewrite_orphan m else m) msgs)"

lemma rewrite_orphan_role [simp]: "cm_role (rewrite_orphan m) = User"
  by (simp add: rewrite_orphan_def Let_def)

lemma known_ids_rewrite:
  assumes "\<And>m. m \<in> set msgs \<Longrightarrow> cm_role m = Assistant \<Longrightarrow> f m = m"
    and "\<And>m. m \<in> set msgs \<Longrightarrow> cm_role m \<noteq> Assistant \<Longrightarrow> cm_role (f m) \<noteq> Assistant"
  shows "known_ids (map f msgs) = known_ids msgs"
proof -
  have "announced_ids (f m) = announced_ids m" if "m \<in> set msgs" for m
    using assms that by (cases "cm_role m = Assistant") (auto simp: announced_ids_def)
  then show ?thesis
    by (simp add: known_ids_def)
qed

lemma known_ids_sanitize: "known_ids (sanitize_tool_messages msgs) = known_ids msgs"
  unfolding sanitize_tool_messages_def Let_def by (rule known_ids_rewrite) auto

text \<open>What the provider APIs require: each tool result answers a call of some assistant message.\<close>

definition tool_results_answered :: "chat_message list \<Rightarrow> bool" where
  "tool_results_answered msgs \<longleftrightarrow>
     (\<forall>m \<in> set msgs. cm_role m = Tool \<longrightarrow>
        (\<exists>i. cm_tool_call_id m = Some i \<and> i \<in> known_ids msgs))"

lemma sanitize_answered: "tool_results_answered (sanitize_tool_messages msgs)"
  unfolding tool_results_answered_def known_ids_sanitize
  by (auto simp: sanitize_tool_messages_def Let_def is_orphaned_def split: option.splits if_splits)

lemma sanitize_id:
  assumes "tool_results_answered msgs"
  shows "sanitize_tool_messages msgs = msgs"
  unfolding sanitize_tool_messages_def Let_def
  using assms by (intro map_idI) (auto simp: is_orphaned_def tool_results_answered_def split: option.splits)

end
