(* ===== verification/Session.thy ===== *)
theory Session
  imports Llm_Types
begin

text \<open>
  \<open>src/agent/session.rs\<close>: turns, threads and sessions. Each method that writes is a function
  from the record to the record; a clock reading (\<open>Utc::now()\<close>) and a fresh identifier
  (\<open>Uuid::new_v4()\<close>) are arguments. A method that reads the clock more than once is given
  one reading for all of them.
\<close>

section \<open>Turns\<close>

datatype turn_state = Turn_Processing | Turn_Completed | Turn_Failed | Turn_Interrupted

record turn_tool_call =
  ttc_name :: string
  ttc_parameters :: json
  ttc_result :: "json option"
  ttc_error :: "string option"

record turn =
  turn_no :: nat
  user_input :: string
  response :: "string option"
  tool_calls :: "turn_tool_call list"
  turn_state :: turn_state
  started_at :: datetime
  turn_completed_at :: "datetime option"
  turn_error :: "string option"

definition turn_new :: "nat \<Rightarrow> string \<Rightarrow> datetime \<Rightarrow> turn" where
  "turn_new n inp now = \<lparr>turn_no = n, user_input = inp, response = None, tool_calls = [],
     turn_state = Turn_Processing, started_at = now, turn_completed_at = None, turn_error = None\<rparr>"

definition turn_complete :: "string \<Rightarrow> datetime \<Rightarrow> turn \<Rightarrow> turn" where
  "turn_complete resp now t = t\<lparr>response := Some resp, turn_state := Turn_Completed,
     turn_completed_at := Some now\<rparr>"

definition turn_fail :: "string \<Rightarrow> datetime \<Rightarrow> turn \<Rightarrow> turn" where
  "turn_fail err now t = t\<lparr>turn_error := Some err, turn_state := Turn_Failed,
     turn_completed_at := Some now\<rparr>"

definition turn_interrupt :: "datetime \<Rightarrow> turn \<Rightarrow> turn" where
  "turn_interrupt now t = t\<lparr>turn_state := Turn_Interrupted, turn_completed_at := Some now\<rparr>"

definition record_tool_call :: "string \<Rightarrow> json \<Rightarrow> turn \<Rightarrow> turn" where
  "record_tool_call name params t = t\<lparr>tool_calls := tool_calls t @
     [\<lparr>ttc_name = name, ttc_parameters = params, ttc_result = None, ttc_error = None\<rparr>]\<rparr>"

definition record_tool_result :: "json \<Rightarrow> turn \<Rightarrow> turn" where
  "record_tool_result r t = t\<lparr>tool_calls := map_last (\<lambda>c. c\<lparr>ttc_result := Some r\<rparr>) (tool_calls t)\<rparr>"

definition record_tool_error :: "string \<Rightarrow> turn \<Rightarrow> turn" where
  "record_tool_error e t = t\<lparr>tool_calls := map_last (\<lambda>c. c\<lparr>ttc_error := Some e\<rparr>) (tool_calls t)\<rparr>"

section \<open>Threads\<close>

datatype thread_state =
  Thread_Idle | Thread_Processing | Thread_AwaitingApproval | Thread_Completed | Thread_Interrupted

record pending_auth =
  extension_name :: string

record pending_approval =
  pa_request_id :: uuid
  pa_tool_name :: string
  pa_parameters :: json
  pa_display_parameters :: json
  pa_description :: string
  pa_tool_call_id :: string
  pa_context_messages :: "chat_message list"
  pa_deferred_tool_calls :: "tool_call list"

record thread =
  thread_id :: uuid
  thread_session_id :: uuid
  thread_state :: thread_state
  turns :: "turn list"
  thread_created_at :: datetime
  updated_at :: datetime
  thread_metadata :: json
  pending_approval :: "pending_approval option"
  pending_auth :: "pending_auth option"

definition thread_with_id :: "uuid \<Rightarrow> uuid \<Rightarrow> datetime \<Rightarrow> thread" where
  "thread_with_id tid sid now = \<lparr>thread_id = tid, thread_session_id = sid,
     thread_state = Thread_Idle, turns = [], thread_created_at = now, updated_at = now,
     thread_metadata = JNull, pending_approval = None, pending_auth = None\<rparr>"

definition thread_new :: "uuid \<Rightarrow> uuid \<Rightarrow> datetime \<Rightarrow> thread" where
  "thread_new fresh_id sid now = \<lparr>thread_id = fresh_id, thread_session_id = sid,
     thread_state = Thread_Idle, turns = [], thread_created_at = now, updated_at = now,
     thread_metadata = JNull, pending_approval = None, pending_auth = None\<rparr>"

definition turn_number :: "thread \<Rightarrow> nat" where
  "turn_number th = length (turns th) + 1"

definition last_turn :: "thread \<Rightarrow> turn option" where
  "last_turn th = (if turns th = [] then None else Some (last (turns th)))"

definition start_turn :: "string \<Rightarrow> datetime \<Rightarrow> thread \<Rightarrow> thread" where
  "start_turn inp now th =
     (let n = length (turns th)
      in th\<lparr>turns := turns th @ [turn_new n inp now], thread_state := Thread_Processing,
            updated_at := now\<rparr>)"

definition complete_turn :: "string \<Rightarrow> datetime \<Rightarrow> thread \<Rightarrow> thread" where
  "complete_turn resp now th = th\<lparr>turns := map_last (turn_complete resp now) (turns th),
     thread_state := Thread_Idle, updated_at := now\<rparr>"

definition fail_turn :: "string \<Rightarrow> datetime \<Rightarrow> thread \<Rightarrow> thread" where
  "fail_turn err now th = th\<lparr>turns := map_last (turn_fail err now) (turns th),
     thread_state := Thread_Idle, updated_at := now\<rparr>"

definition await_approval :: "pending_approval \<Rightarrow> datetime \<Rightarrow> thread \<Rightarrow> thread" where
  "await_approval p now th = th\<lparr>thread_state := Thread_AwaitingApproval,
     pending_approval := Some p, updated_at := now\<rparr>"

definition take_pending_approval :: "thread \<Rightarrow> pending_approval option \<times> thread" where
  "take_pending_approval th = (pending_approval th, th\<lparr>pending_approval := None\<rparr>)"

definition clear_pending_approval :: "datetime \<Rightarrow> thread \<Rightarrow> thread" where
  "clear_pending_approval now th = th\<lparr>pending_approval := None, thread_state := Thread_Idle,
     updated_at := now\<rparr>"

definition enter_auth_mode :: "string \<Rightarrow> datetime \<Rightarrow> thread \<Rightarrow> thread" where
  "enter_auth_mode ext now th = th\<lparr>pending_auth := Some \<lparr>extension_name = ext\<rparr>, updated_at := now\<rparr>"

definition take_pending_auth :: "thread \<Rightarrow> pending_auth option \<times> thread" where
  "take_pending_auth th = (pending_auth th, th\<lparr>pending_auth := None\<rparr>)"

definition thread_interrupt :: "datetime \<Rightarrow> thread \<Rightarrow> thread" where
  "thread_interrupt now th = th\<lparr>turns := map_last (turn_interrupt now) (turns th),
     thread_state := Thread_Interrupted, updated_at := now\<rparr>"

definition thread_resume :: "datetime \<Rightarrow> thread \<Rightarrow> thread" where
  "thread_resume now th =
     (if thread_state th = Thread_Interrupted
      then th\<lparr>thread_state := Thread_Idle, updated_at := now\<rparr> else th)"

fun turn_messages :: "turn list \<Rightarrow> chat_message list" where
  "turn_messages [] = []"
| "turn_messages (t # ts) =
     msg_user (user_input t)
     # (case response t of Some r \<Rightarrow> [msg_assistant r] | None \<Rightarrow> []) @ turn_messages ts"

definition messages :: "thread \<Rightarrow> chat_message list" where
  "messages th = turn_messages (turns th)"

definition truncate_turns :: "nat \<Rightarrow> thread \<Rightarrow> thread" where
  "truncate_turns keep th =
     (if length (turns th) > keep
      then (let rest = drop (length (turns th) - keep) (turns th)
            in th\<lparr>turns := map (\<lambda>(i, t). t\<lparr>turn_no := i\<rparr>) (enumerate 0 rest)\<rparr>)
      else th)"

fun rebuild_turns :: "chat_message list \<Rightarrow> nat \<Rightarrow> datetime \<Rightarrow> turn list" where
  "rebuild_turns [] n now = []"
| "rebuild_turns [m] n now =
     (if cm_role m = User then [turn_new n (cm_content m) now] else [])"
| "rebuild_turns (m # m' # ms) n now =
     (if cm_role m = User
      then (if cm_role m' = Assistant
            then turn_complete (cm_content m') now (turn_new n (cm_content m) now)
                 # rebuild_turns ms (n + 1) now
            else turn_new n (cm_content m) now # rebuild_turns (m' # ms) (n + 1) now)
      else rebuild_turns (m' # ms) n now)"

definition restore_from_messages :: "chat_message list \<Rightarrow> datetime \<Rightarrow> thread \<Rightarrow> thread" where
  "restore_from_messages msgs now th = th\<lparr>turns := rebuild_turns msgs 0 now,
     thread_state := Thread_Idle, updated_at := now\<rparr>"

section \<open>Sessions\<close>

record session =
  session_id :: uuid
  session_user_id :: string
  active_thread :: "uuid option"
  threads :: "uuid \<rightharpoonup> thread"
  session_created_at :: datetime
  last_active_at :: datetime
  session_metadata :: json
  auto_approved_tools :: "string set"

definition session_new :: "uuid \<Rightarrow> string \<Rightarrow> datetime \<Rightarrow> session" where
  "session_new fresh_id uid now = \<lparr>session_id = fresh_id, session_user_id = uid,
     active_thread = None, threads = Map.empty, session_created_at = now, last_active_at = now,
     session_metadata = JNull, auto_approved_tools = {}\<rparr>"

definition is_tool_auto_approved :: "session \<Rightarrow> string \<Rightarrow> bool" where
  "is_tool_auto_approved s tool \<longleftrightarrow> tool \<in> auto_approved_tools s"

definition auto_approve_tool :: "string \<Rightarrow> session \<Rightarrow> session" where
  "auto_approve_tool tool s = s\<lparr>auto_approved_tools := insert tool (auto_approved_tools s)\<rparr>"

text \<open>\<open>entry(id).or_insert(thread)\<close>: a thread that is already there is kept.\<close>

definition create_thread :: "uuid \<Rightarrow> datetime \<Rightarrow> session \<Rightarrow> uuid \<times> session" where
  "create_thread fresh_id now s =
     (fresh_id,
      s\<lparr>active_thread := Some fresh_id, last_active_at := now,
        threads := (case threads s fresh_id of
                      Some _ \<Rightarrow> threads s
                    | None \<Rightarrow> (threads s)(fresh_id \<mapsto> thread_new fresh_id (session_id s) now))\<rparr>)"

definition session_active_thread :: "session \<Rightarrow> thread option" where
  "session_active_thread s = (case active_thread s of None \<Rightarrow> None | Some i \<Rightarrow> threads s i)"

definition get_or_create_thread :: "uuid \<Rightarrow> datetime \<Rightarrow> session \<Rightarrow> uuid \<times> session" where
  "get_or_create_thread fresh_id now s =
     (case active_thread s of
        None \<Rightarrow> create_thread fresh_id now s
      | Some i \<Rightarrow> (if threads s i \<noteq> None then (i, s) else create_thread fresh_id now s))"

definition switch_thread :: "uuid \<Rightarrow> datetime \<Rightarrow> session \<Rightarrow> bool \<times> session" where
  "switch_thread tid now s =
     (if threads s tid \<noteq> None
      then (True, s\<lparr>active_thread := Some tid, last_active_at := now\<rparr>)
      else (False, s))"

section \<open>Invariants of turns and threads\<close>

lemmas turn_op_defs = turn_new_def turn_complete_def turn_fail_def turn_interrupt_def
  record_tool_call_def record_tool_result_def record_tool_error_def

lemmas thread_op_defs = start_turn_def complete_turn_def fail_turn_def await_approval_def
  take_pending_approval_def clear_pending_approval_def enter_auth_mode_def take_pending_auth_def
  thread_interrupt_def thread_resume_def truncate_turns_def restore_from_messages_def

text \<open>A turn's outcome fields agree with its state.\<close>

definition turn_wf :: "turn \<Rightarrow> bool" where
  "turn_wf t \<longleftrightarrow> (turn_state t = Turn_Completed \<longrightarrow> response t \<noteq> None)
     \<and> (turn_state t = Turn_Failed \<longrightarrow> turn_error t \<noteq> None)
     \<and> (turn_state t = Turn_Processing \<longleftrightarrow> turn_completed_at t = None)"

lemma turn_wf_ops [simp]:
  "turn_wf (turn_new n i now)" "turn_wf (turn_complete r now t)"
  "turn_wf (turn_fail e now t)" "turn_wf (turn_interrupt now t)"
  "turn_wf t \<Longrightarrow> turn_wf (record_tool_call nm p t)"
  "turn_wf t \<Longrightarrow> turn_wf (record_tool_result r' t)"
  "turn_wf t \<Longrightarrow> turn_wf (record_tool_error e t)"
  "turn_wf t \<Longrightarrow> turn_wf (t\<lparr>turn_no := k\<rparr>)"
  by (auto simp: turn_wf_def turn_op_defs)

lemma turn_no_ops [simp]:
  "turn_no (turn_new n i now) = n" "turn_no (turn_complete r now t) = turn_no t"
  "turn_no (turn_fail e now t) = turn_no t" "turn_no (turn_interrupt now t) = turn_no t"
  by (auto simp: turn_op_defs)

text \<open>A thread's turns are numbered by their position, and each is well-formed.\<close>

definition turns_wf :: "turn list \<Rightarrow> bool" where
  "turns_wf ts \<longleftrightarrow> map turn_no ts = [0..<length ts] \<and> (\<forall>t \<in> set ts. turn_wf t)"

definition thread_wf :: "thread \<Rightarrow> bool" where
  "thread_wf th \<longleftrightarrow> turns_wf (turns th)"

lemma map_turn_no_last:
  assumes "\<And>t. turn_no (f t) = turn_no t"
  shows "map turn_no (map_last f ts) = map turn_no ts"
  using assms by (cases ts rule: rev_cases) auto

lemma turns_wf_map_last:
  assumes "turns_wf ts" and "\<And>t. turn_no (f t) = turn_no t" and "\<And>t. turn_wf (f t)"
  shows "turns_wf (map_last f ts)"
  using assms by (auto simp: turns_wf_def map_turn_no_last dest!: set_map_last)

lemma turns_wf_snoc: "turns_wf ts \<Longrightarrow> turns_wf (ts @ [turn_new (length ts) i now])"
  by (simp add: turns_wf_def)

lemma map_turn_no_enumerate:
  "map turn_no (map (\<lambda>(i, t). t\<lparr>turn_no := i\<rparr>) (enumerate n ts)) = [n..<n + length ts]"
  by (rule nth_equalityI) (auto simp: nth_enumerate_eq)

lemma turns_wf_renumber:
  assumes "turns_wf ts"
  shows "turns_wf (map (\<lambda>(i, t). t\<lparr>turn_no := i\<rparr>) (enumerate 0 (drop k ts)))" (is "turns_wf ?ts")
proof -
  have "map turn_no ?ts = [0..<length ?ts]"
    using map_turn_no_enumerate [of 0 "drop k ts"] by simp
  moreover have "turn_wf t" if "t \<in> set ?ts" for t
    using assms that
    by (auto simp: turns_wf_def enumerate_eq_zip dest!: set_zip_rightD in_set_dropD)
  ultimately show ?thesis by (simp add: turns_wf_def)
qed

lemma rebuild_turns_no: "map turn_no (rebuild_turns ms n now) = [n..<n + length (rebuild_turns ms n now)]"
  by (induction ms n now rule: rebuild_turns.induct) (auto simp: upt_conv_Cons)

lemma rebuild_turns_wf: "t \<in> set (rebuild_turns ms n now) \<Longrightarrow> turn_wf t"
  by (induction ms n now rule: rebuild_turns.induct) (auto split: if_splits)

lemma turns_wf_rebuild: "turns_wf (rebuild_turns ms 0 now)"
  using rebuild_turns_no [of ms 0 now] by (auto simp: turns_wf_def intro: rebuild_turns_wf)

text \<open>
  Every method of \<open>Thread\<close> that writes, as an operation of one machine. The agent reaches
  the tool-call records of the running turn through \<open>last_turn_mut\<close>.
\<close>

datatype thread_op =
    Op_StartTurn string datetime
  | Op_CompleteTurn string datetime
  | Op_FailTurn string datetime
  | Op_AwaitApproval pending_approval datetime
  | Op_TakePendingApproval
  | Op_ClearPendingApproval datetime
  | Op_EnterAuthMode string datetime
  | Op_TakePendingAuth
  | Op_ThreadInterrupt datetime
  | Op_ThreadResume datetime
  | Op_TruncateTurns nat
  | Op_RestoreFromMessages "chat_message list" datetime
  | Op_LastTurnRecordCall string json
  | Op_LastTurnRecordResult json
  | Op_LastTurnRecordError string

fun thread_step :: "thread \<Rightarrow> thread_op \<Rightarrow> thread" where
  "thread_step th (Op_StartTurn i now) = start_turn i now th"
| "thread_step th (Op_CompleteTurn r now) = complete_turn r now th"
| "thread_step th (Op_FailTurn e now) = fail_turn e now th"
| "thread_step th (Op_AwaitApproval p now) = await_approval p now th"
| "thread_step th Op_TakePendingApproval = snd (take_pending_approval th)"
| "thread_step th (Op_ClearPendingApproval now) = clear_pending_approval now th"
| "thread_step th (Op_EnterAuthMode x now) = enter_auth_mode x now th"
| "thread_step th Op_TakePendingAuth = snd (take_pending_auth th)"
| "thread_step th (Op_ThreadInterrupt now) = thread_interrupt now th"
| "thread_step th (Op_ThreadResume now) = thread_resume now th"
| "thread_step th (Op_TruncateTurns k) = truncate_turns k th"
| "thread_step th (Op_RestoreFromMessages ms now) = restore_from_messages ms now th"
| "thread_step th (Op_LastTurnRecordCall n p) = th\<lparr>turns := map_last (record_tool_call n p) (turns th)\<rparr>"
| "thread_step th (Op_LastTurnRecordResult r) = th\<lparr>turns := map_last (record_tool_result r) (turns th)\<rparr>"
| "thread_step th (Op_LastTurnRecordError e) = th\<lparr>turns := map_last (record_tool_error e) (turns th)\<rparr>"

lemma turns_wf_map_last_rec:
  assumes "turns_wf ts" and "\<And>t. turn_no (f t) = turn_no t" and "\<And>t. turn_wf t \<Longrightarrow> turn_wf (f t)"
  shows "turns_wf (map_last f ts)"
  using assms by (auto simp: turns_wf_def map_turn_no_last dest!: set_map_last)

lemma turn_no_records [simp]:
  "turn_no (record_tool_call n p t) = turn_no t" "turn_no (record_tool_result r t) = turn_no t"
  "turn_no (record_tool_error e t) = turn_no t"
  by (auto simp: turn_op_defs)

lemma thread_step_wf: "thread_wf th \<Longrightarrow> thread_wf (thread_step th x)"
  by (cases x)
    (auto simp: thread_wf_def thread_op_defs Let_def
       intro: turns_wf_map_last turns_wf_map_last_rec turns_wf_snoc turns_wf_renumber turns_wf_rebuild)

interpretation thread_machine: invariant_machine thread_step thread_wf
  by unfold_locales (rule thread_step_wf)

lemma thread_new_wf: "thread_wf (thread_new tid sid now)"
  by (simp add: thread_wf_def thread_new_def turns_wf_def)

section \<open>Checkpoint round trip\<close>

lemma turn_messages_append: "turn_messages (xs @ ys) = turn_messages xs @ turn_messages ys"
  by (induction xs) auto

lemma turn_messages_Cons_user:
  "turn_messages ts = [] \<or> (\<exists>m ms. turn_messages ts = m # ms \<and> cm_role m = User)"
  by (cases ts) (auto simp: msg_user_def)

lemma msg_role_content [simp]:
  "cm_role (msg_user c) = User" "cm_role (msg_assistant c) = Assistant"
  "cm_content (msg_user c) = c" "cm_content (msg_assistant c) = c"
  by (simp_all add: msg_user_def msg_assistant_def)

lemma turn_fields [simp]:
  "user_input (turn_new n i now) = i" "response (turn_new n i now) = None"
  "user_input (turn_complete r now t) = user_input t" "response (turn_complete r now t) = Some r"
  by (simp_all add: turn_new_def turn_complete_def)

lemma rebuild_user_first:
  assumes "ms = [] \<or> (\<exists>m ms'. ms = m # ms' \<and> cm_role m = User)" and "cm_role u = User"
  shows "rebuild_turns (u # ms) n now = turn_new n (cm_content u) now # rebuild_turns ms (n + 1) now"
  using assms by (cases ms) auto

lemma turn_messages_rebuild: "turn_messages (rebuild_turns (turn_messages ts) n now) = turn_messages ts"
proof (induction ts arbitrary: n)
  case Nil
  then show ?case by simp
next
  case (Cons t ts)
  show ?case
  proof (cases "response t")
    case None
    then show ?thesis
      using Cons rebuild_user_first [OF turn_messages_Cons_user [of ts], of "msg_user (user_input t)" n now]
      by simp
  next
    case (Some r)
    then show ?thesis using Cons by simp
  qed
qed

section \<open>Session invariant\<close>

text \<open>Threads are filed under their own identifier, and the active thread exists.\<close>

definition session_wf :: "session \<Rightarrow> bool" where
  "session_wf s \<longleftrightarrow>
     (\<forall>i th. threads s i = Some th \<longrightarrow> thread_id th = i \<and> thread_session_id th = session_id s)
     \<and> (\<forall>i. active_thread s = Some i \<longrightarrow> threads s i \<noteq> None)"

lemma session_new_wf: "session_wf (session_new i u now)"
  by (simp add: session_wf_def session_new_def)

lemma create_thread_wf: "session_wf s \<Longrightarrow> session_wf (snd (create_thread i now s))"
  by (auto simp: session_wf_def create_thread_def thread_new_def split: option.splits)

lemma get_or_create_thread_wf: "session_wf s \<Longrightarrow> session_wf (snd (get_or_create_thread i now s))"
  by (auto simp: get_or_create_thread_def create_thread_wf split: option.splits)

lemma switch_thread_wf: "session_wf s \<Longrightarrow> session_wf (snd (switch_thread i now s))"
  by (auto simp: session_wf_def switch_thread_def)

lemma auto_approve_tool_wf: "session_wf s \<Longrightarrow> session_wf (auto_approve_tool t s)"
  by (simp add: session_wf_def auto_approve_tool_def)

datatype session_op =
  Op_CreateThread uuid datetime | Op_GetOrCreateThread uuid datetime | Op_SwitchThread uuid datetime
  | Op_AutoApproveTool string

fun session_step :: "session \<Rightarrow> session_op \<Rightarrow> session" where
  "session_step s (Op_CreateThread i now) = snd (create_thread i now s)"
| "session_step s (Op_GetOrCreateThread i now) = snd (get_or_create_thread i now s)"
| "session_step s (Op_SwitchThread i now) = snd (switch_thread i now s)"
| "session_step s (Op_AutoApproveTool t) = auto_approve_tool t s"

lemmas session_op_wf = create_thread_wf get_or_create_thread_wf switch_thread_wf auto_approve_tool_wf

lemma session_step_wf: "session_wf s \<Longrightarrow> session_wf (session_step s x)"
  by (cases x) (auto intro: session_op_wf)

interpretation session_machine: invariant_machine session_step session_wf
  by unfold_locales (rule session_step_wf)

section \<open>Theorems\<close>

text \<open>
  Whatever methods the agent calls on a new thread, and in whatever order (turns started,
  completed, failed or interrupted, history truncated or restored, tool calls recorded), its
  turns stay numbered by their position, and every turn's outcome fields agree with its state:
  a completed turn has a response, a failed one an error, and exactly the running ones have no
  completion time.
\<close>

theorem thread_reachable_wf: "thread_wf (foldl thread_step (thread_new tid sid now) xs)"
  by (rule thread_machine.run_inv) (rule thread_new_wf)

text \<open>
  Restoring a thread from the messages of another one (what undo, redo and resume do with
  a checkpoint) rebuilds turns whose messages are exactly the ones it was given, and leaves
  the thread idle.
\<close>

theorem restore_messages_roundtrip:
  "messages (restore_from_messages (messages th) now th') = messages th
   \<and> thread_state (restore_from_messages (messages th) now th') = Thread_Idle"
  by (simp add: messages_def restore_from_messages_def turn_messages_rebuild)

text \<open>
  In every session reached from a new one, each thread is filed under its own identifier
  and belongs to the session, the active thread exists, and asking for the active thread
  (creating it when it is missing or stale) returns one that exists and is active.
\<close>

theorem session_reachable_active:
  "let s = foldl session_step (session_new sid uid now) xs;
       (tid, s') = get_or_create_thread i t s
   in session_wf s \<and> threads s' tid \<noteq> None \<and> active_thread s' = Some tid"
proof -
  have "session_wf (foldl session_step (session_new sid uid now) xs)"
    by (rule session_machine.run_inv) (rule session_new_wf)
  then show ?thesis
    by (auto simp: Let_def get_or_create_thread_def create_thread_def split: option.splits prod.splits)
qed

end
