(* ===== verification/Undo.thy ===== *)
theory Undo
  imports Llm_Types
begin

text \<open>
  \<open>src/agent/undo.rs\<close>: checkpoints and the undo manager. The back of the \<open>VecDeque\<close> and the
  top of the \<open>Vec\<close> are the last elements of the two lists. The identifier of a new
  checkpoint (\<open>Uuid::new_v4()\<close>) is an argument.
\<close>

record checkpoint =
  cp_id :: uuid
  cp_turn_number :: nat
  cp_messages :: "chat_message list"
  cp_description :: string

definition checkpoint_new :: "uuid \<Rightarrow> nat \<Rightarrow> chat_message list \<Rightarrow> string \<Rightarrow> checkpoint" where
  "checkpoint_new fresh_id n msgs d =
     \<lparr>cp_id = fresh_id, cp_turn_number = n, cp_messages = msgs, cp_description = d\<rparr>"

record undo_manager =
  undo_stack :: "checkpoint list"
  redo_stack :: "checkpoint list"
  max_checkpoints :: nat

definition DEFAULT_MAX_CHECKPOINTS :: nat where
  "DEFAULT_MAX_CHECKPOINTS = 20"

definition undo_manager_new :: undo_manager where
  "undo_manager_new = \<lparr>undo_stack = [], redo_stack = [], max_checkpoints = DEFAULT_MAX_CHECKPOINTS\<rparr>"

text \<open>The loop that pops the front while the stack is longer than the limit.\<close>

fun trim_front :: "nat \<Rightarrow> 'a list \<Rightarrow> 'a list" where
  "trim_front k [] = []"
| "trim_front k (x # xs) = (if length (x # xs) > k then trim_front k xs else x # xs)"

definition push_undo :: "checkpoint \<Rightarrow> undo_manager \<Rightarrow> undo_manager" where
  "push_undo c m = m\<lparr>undo_stack := trim_front (max_checkpoints m) (undo_stack m @ [c])\<rparr>"

definition um_checkpoint :: "uuid \<Rightarrow> nat \<Rightarrow> chat_message list \<Rightarrow> string \<Rightarrow> undo_manager \<Rightarrow> undo_manager" where
  "um_checkpoint fresh_id n msgs d m =
     (let m = m\<lparr>redo_stack := []\<rparr>; c = checkpoint_new fresh_id n msgs d in push_undo c m)"

definition undo :: "uuid \<Rightarrow> nat \<Rightarrow> chat_message list \<Rightarrow> undo_manager \<Rightarrow> checkpoint option \<times> undo_manager" where
  "undo fresh_id n msgs m =
     (if undo_stack m = [] then (None, m)
      else (let current = checkpoint_new fresh_id n msgs (''Turn '' @ show_nat n)
            in (Some (last (undo_stack m)),
                m\<lparr>redo_stack := redo_stack m @ [current], undo_stack := butlast (undo_stack m)\<rparr>)))"

definition redo :: "uuid \<Rightarrow> nat \<Rightarrow> chat_message list \<Rightarrow> undo_manager \<Rightarrow> checkpoint option \<times> undo_manager" where
  "redo fresh_id n msgs m =
     (if redo_stack m = [] then (None, m)
      else (let current = checkpoint_new fresh_id n msgs (''Turn '' @ show_nat n);
                m' = push_undo current m
            in (Some (last (redo_stack m')), m'\<lparr>redo_stack := butlast (redo_stack m')\<rparr>)))"

definition can_undo :: "undo_manager \<Rightarrow> bool" where
  "can_undo m \<longleftrightarrow> undo_stack m \<noteq> []"

definition can_redo :: "undo_manager \<Rightarrow> bool" where
  "can_redo m \<longleftrightarrow> redo_stack m \<noteq> []"

definition undo_count :: "undo_manager \<Rightarrow> nat" where
  "undo_count m = length (undo_stack m)"

definition redo_count :: "undo_manager \<Rightarrow> nat" where
  "redo_count m = length (redo_stack m)"

definition um_clear :: "undo_manager \<Rightarrow> undo_manager" where
  "um_clear m = m\<lparr>undo_stack := [], redo_stack := []\<rparr>"

fun position :: "('a \<Rightarrow> bool) \<Rightarrow> 'a list \<Rightarrow> nat option" where
  "position p [] = None"
| "position p (x # xs) = (if p x then Some 0 else map_option Suc (position p xs))"

text \<open>
  The loop of \<open>restore\<close> pops the back until \<open>pos + 1\<close> checkpoints are left, then the target
  itself is popped.
\<close>

definition restore :: "uuid \<Rightarrow> undo_manager \<Rightarrow> checkpoint option \<times> undo_manager" where
  "restore cid m =
     (case position (\<lambda>c. cp_id c = cid) (undo_stack m) of
        None \<Rightarrow> (None, m)
      | Some pos \<Rightarrow>
          (let stack = take (pos + 1) (undo_stack m)
           in (Some (last stack), m\<lparr>redo_stack := [], undo_stack := butlast stack\<rparr>)))"

section \<open>Bounds\<close>

lemmas undo_defs = push_undo_def um_checkpoint_def undo_def redo_def um_clear_def restore_def
  undo_count_def redo_count_def checkpoint_new_def

lemma trim_front_drop: "trim_front k xs = drop (length xs - k) xs"
  by (induction xs) (auto simp: Suc_diff_le)

lemma length_trim_front [simp]: "length (trim_front k xs) = min k (length xs)"
  by (simp add: trim_front_drop)

lemma trim_front_id: "length xs \<le> k \<Longrightarrow> trim_front k xs = xs"
  by (simp add: trim_front_drop)

text \<open>The two stacks together never hold more than the limit.\<close>

definition undo_inv :: "undo_manager \<Rightarrow> bool" where
  "undo_inv m \<longleftrightarrow> undo_count m + redo_count m \<le> max_checkpoints m"

lemma position_Some: "position p xs = Some i \<Longrightarrow> i < length xs \<and> p (xs ! i)"
  by (induction xs arbitrary: i) (auto split: if_splits)

lemma position_first: "position p xs = Some i \<Longrightarrow> j < i \<Longrightarrow> \<not> p (xs ! j)"
proof (induction xs arbitrary: i j)
  case (Cons x xs)
  then show ?case by (cases j) (auto split: if_splits)
qed simp

lemma position_None: "position p xs = None \<longleftrightarrow> (\<forall>x \<in> set xs. \<not> p x)"
  by (induction xs) auto

datatype undo_op =
    Op_Checkpoint uuid nat "chat_message list" string
  | Op_Undo uuid nat "chat_message list"
  | Op_Redo uuid nat "chat_message list"
  | Op_Restore uuid
  | Op_Clear

fun undo_step :: "undo_manager \<Rightarrow> undo_op \<Rightarrow> undo_manager" where
  "undo_step m (Op_Checkpoint i n ms d) = um_checkpoint i n ms d m"
| "undo_step m (Op_Undo i n ms) = snd (undo i n ms m)"
| "undo_step m (Op_Redo i n ms) = snd (redo i n ms m)"
| "undo_step m (Op_Restore i) = snd (restore i m)"
| "undo_step m Op_Clear = um_clear m"

lemma undo_step_inv: "undo_inv m \<Longrightarrow> undo_inv (undo_step m x)"
  by (cases x)
    (auto simp: undo_inv_def undo_defs Let_def neq_Nil_conv split: option.splits dest: position_Some)

interpretation undo_machine: invariant_machine undo_step undo_inv
  by unfold_locales (rule undo_step_inv)

lemma undo_inv_new: "undo_inv undo_manager_new"
  by (simp add: undo_inv_def undo_defs undo_manager_new_def)

lemma undo_step_max [simp]: "max_checkpoints (undo_step m x) = max_checkpoints m"
  by (cases x) (auto simp: undo_defs Let_def split: option.splits)

section \<open>Refinement: a cursor on a timeline\<close>

text \<open>
  The specification: a list of conversation snapshots and a cursor. The snapshots left of the
  cursor are the undo stack, the one under it is the current conversation, those right of it
  are the redo stack.
\<close>

type_synonym snapshot = "nat \<times> chat_message list"

definition snap :: "checkpoint \<Rightarrow> snapshot" where
  "snap c = (cp_turn_number c, cp_messages c)"

definition timeline :: "undo_manager \<Rightarrow> snapshot \<Rightarrow> snapshot list" where
  "timeline m cur = map snap (undo_stack m) @ cur # rev (map snap (redo_stack m))"

definition cursor :: "undo_manager \<Rightarrow> nat" where
  "cursor m = length (undo_stack m)"

lemma timeline_cursor: "timeline m cur ! cursor m = cur"
  by (simp add: timeline_def cursor_def nth_append)

lemma undo_Some:
  assumes "undo i n ms m = (Some c, m')"
  obtains us where "undo_stack m = us @ [c]" "undo_stack m' = us"
    "redo_stack m' = redo_stack m @ [checkpoint_new i n ms (''Turn '' @ show_nat n)]"
    "max_checkpoints m' = max_checkpoints m"
  using assms by (cases "undo_stack m" rule: rev_cases) (auto simp: undo_def Let_def)

lemma redo_Some:
  assumes "redo i n ms m = (Some c, m')"
  obtains rs where "redo_stack m = rs @ [c]" "redo_stack m' = rs"
    "undo_stack m' = trim_front (max_checkpoints m)
       (undo_stack m @ [checkpoint_new i n ms (''Turn '' @ show_nat n)])"
    "max_checkpoints m' = max_checkpoints m"
  using assms by (cases "redo_stack m" rule: rev_cases) (auto simp: redo_def push_undo_def Let_def)

lemma snap_new [simp]: "snap (checkpoint_new i n ms d) = (n, ms)"
  by (simp add: snap_def checkpoint_new_def)

lemma undo_moves_left:
  assumes "undo i n ms m = (Some c, m')"
  shows "timeline m' (snap c) = timeline m (n, ms) \<and> Suc (cursor m') = cursor m"
  using assms by (rule undo_Some) (auto simp: timeline_def cursor_def)

lemma redo_moves_right:
  assumes "redo i n ms m = (Some c, m')" and "undo_inv m"
  shows "timeline m' (snap c) = timeline m (n, ms) \<and> cursor m' = Suc (cursor m)"
  using assms(1)
proof (rule redo_Some)
  fix rs
  let ?new = "checkpoint_new i n ms (''Turn '' @ show_nat n)"
  assume h: "redo_stack m = rs @ [c]" "redo_stack m' = rs"
    "undo_stack m' = trim_front (max_checkpoints m) (undo_stack m @ [?new])"
  have "length (undo_stack m @ [?new]) \<le> max_checkpoints m"
    using assms(2) h(1) by (simp add: undo_inv_def undo_count_def redo_count_def)
  then have "undo_stack m' = undo_stack m @ [?new]"
    using h(3) by (simp add: trim_front_id)
  with h show ?thesis by (simp add: timeline_def cursor_def)
qed

section \<open>Theorems\<close>

text \<open>
  However checkpoints, undos, redos, restores and clears are interleaved, the undo and the
  redo stack of a manager together never hold more than \<open>DEFAULT_MAX_CHECKPOINTS\<close> (20)
  checkpoints; and an undo or a redo never changes that total, as the type's documentation
  promises: no checkpoint is trimmed away by a redo.
\<close>

theorem undo_redo_total:
  "let m = foldl undo_step undo_manager_new xs; m1 = snd (undo i n ms m); m2 = snd (redo i n ms m)
   in undo_count m + redo_count m \<le> DEFAULT_MAX_CHECKPOINTS
    \<and> undo_count m1 + redo_count m1 = undo_count m + redo_count m
    \<and> undo_count m2 + redo_count m2 = undo_count m + redo_count m"
proof -
  let ?m = "foldl undo_step undo_manager_new xs"
  have inv: "undo_inv ?m"
    by (rule undo_machine.run_inv) (rule undo_inv_new)
  have "max_checkpoints (foldl undo_step m0 xs) = max_checkpoints m0" for m0
    by (induction xs arbitrary: m0) auto
  then have "max_checkpoints ?m = DEFAULT_MAX_CHECKPOINTS"
    by (simp add: undo_manager_new_def)
  with inv show ?thesis
    by (auto simp: undo_inv_def undo_defs Let_def neq_Nil_conv)
qed

text \<open>
  C27. Undo and redo move a cursor on one timeline of conversation snapshots. After an undo
  from the current conversation and a redo from the one it restored, the current conversation
  is back, the undo stack holds the same snapshots and the redo stack is what it was.
\<close>

theorem undo_then_redo:
  assumes "undo_inv m" and "undo i n ms m = (Some c, m1)"
    and "redo j (cp_turn_number c) (cp_messages c) m1 = (Some c', m2)"
  shows "timeline m1 (snap c) = timeline m (n, ms) \<and> snap c' = (n, ms)
    \<and> map snap (undo_stack m2) = map snap (undo_stack m) \<and> redo_stack m2 = redo_stack m"
proof -
  have c: "(cp_turn_number c, cp_messages c) = snap c"
    by (simp add: snap_def)
  have left: "timeline m1 (snap c) = timeline m (n, ms)" "Suc (cursor m1) = cursor m"
    using undo_moves_left [OF assms(2)] by auto
  have "undo_inv (undo_step m (Op_Undo i n ms))"
    by (rule undo_step_inv) (rule assms(1))
  then have "undo_inv m1" using assms(2) by simp
  then have right: "timeline m2 (snap c') = timeline m1 (snap c)" "cursor m2 = Suc (cursor m1)"
    using redo_moves_right [OF assms(3)] c by auto
  have len: "length (undo_stack m2) = length (undo_stack m)"
    using left right by (simp add: cursor_def)
  have tl: "timeline m2 (snap c') = timeline m (n, ms)"
    using left right by simp
  have "redo_stack m2 = redo_stack m"
    using assms(2,3) by (auto elim!: undo_Some redo_Some)
  with tl len show ?thesis
    using left by (auto simp: timeline_def)
qed

theorem undo_then_redo_witness:
  "\<exists>m c m1 c' m2. undo 7 4 [msg_user ''b''] m = (Some c, m1)
     \<and> redo 8 (cp_turn_number c) (cp_messages c) m1 = (Some c', m2)
     \<and> timeline m1 (snap c) = timeline m (4, [msg_user ''b'']) \<and> snap c' = (4, [msg_user ''b''])"
proof -
  define m where "m = um_checkpoint 1 3 [msg_user ''a''] ''d'' undo_manager_new"
  have inv: "undo_inv m"
    using undo_step_inv [OF undo_inv_new, of "Op_Checkpoint 1 3 [msg_user ''a''] ''d''"]
    by (simp add: m_def)
  have u: "undo 7 4 [msg_user ''b''] m =
      (Some (checkpoint_new 1 3 [msg_user ''a''] ''d''),
       m\<lparr>undo_stack := [], redo_stack := [checkpoint_new 7 4 [msg_user ''b''] (''Turn '' @ show_nat 4)]\<rparr>)"
    by (simp add: m_def undo_def um_checkpoint_def push_undo_def undo_manager_new_def
        DEFAULT_MAX_CHECKPOINTS_def)
  obtain c m1 where 1: "undo 7 4 [msg_user ''b''] m = (Some c, m1)"
    using u by blast
  obtain c' m2 where 2: "redo 8 (cp_turn_number c) (cp_messages c) m1 = (Some c', m2)"
    using 1 u by (auto simp: redo_def Let_def)
  show ?thesis using 1 2 undo_then_redo [OF inv 1 2] by blast
qed

text \<open>
  Restoring a checkpoint by identifier returns the oldest checkpoint with that identifier,
  keeps exactly the checkpoints before it and empties the redo stack; an unknown identifier
  changes nothing.
\<close>

theorem restore_exact:
  "restore cid m =
     (case position (\<lambda>c. cp_id c = cid) (undo_stack m) of
        None \<Rightarrow> (None, m)
      | Some pos \<Rightarrow> (Some (undo_stack m ! pos), m\<lparr>redo_stack := [], undo_stack := take pos (undo_stack m)\<rparr>))
   \<and> (fst (restore cid m) = None \<longleftrightarrow> cid \<notin> cp_id ` set (undo_stack m))"
proof -
  have take: "last (take (pos + 1) xs) = xs ! pos \<and> butlast (take (pos + 1) xs) = take pos xs"
    if "pos < length xs" for pos and xs :: "checkpoint list"
    using that by (simp add: take_Suc_conv_app_nth)
  then show ?thesis
    by (auto simp: restore_def Let_def position_None split: option.splits dest!: position_Some)
qed

end
