(* ===== verification/Submission.thy ===== *)
theory Submission
  imports Prelude
begin

text \<open>
  \<open>src/agent/submission.rs\<close>: the kinds of input the agent loop takes and the parser that
  turns a message into one of them. \<open>SubmissionParser::parse\<close> is one long function; the
  model splits it, in the source's order, into groups of commands that each either return a
  submission or fall through. \<open>Uuid::parse_str\<close> and the JSON deserializer of
  \<open>Submission\<close> belong to other crates and are the arguments \<open>parse_uuid\<close> and
  \<open>from_json\<close>.
\<close>

datatype submission =
    UserInput string
  | ExecApproval uuid bool bool          \<comment> \<open>request id, approved, always\<close>
  | ApprovalResponse bool bool           \<comment> \<open>approved, always\<close>
  | Interrupt
  | Compact
  | Undo
  | Redo
  | Resume uuid
  | Clear
  | SwitchThread uuid
  | NewThread
  | Heartbeat
  | Summarize
  | Suggest
  | JobStatus "string option"
  | JobCancel string
  | Quit
  | SystemCommand string "string list"

definition is_control :: "submission \<Rightarrow> bool" where
  "is_control s = (case s of
     Interrupt \<Rightarrow> True | Compact \<Rightarrow> True | Undo \<Rightarrow> True | Redo \<Rightarrow> True | Clear \<Rightarrow> True
   | NewThread \<Rightarrow> True | Heartbeat \<Rightarrow> True | Summarize \<Rightarrow> True | Suggest \<Rightarrow> True
   | JobStatus _ \<Rightarrow> True | JobCancel _ \<Rightarrow> True | SystemCommand _ _ \<Rightarrow> True
   | _ \<Rightarrow> False)"

datatype submission_result =
    Response string
  | NeedApproval uuid string string json
  | Ok "string option"
  | Error string
  | Interrupted

definition result_response :: "string \<Rightarrow> submission_result" where
  "result_response c = Response c"

definition ok_with_message :: "string \<Rightarrow> submission_result" where
  "ok_with_message m = Ok (Some m)"

definition result_error :: "string \<Rightarrow> submission_result" where
  "result_error m = Error m"

section \<open>The parser\<close>

definition parse_control :: "string \<Rightarrow> submission option" where
  "parse_control lower =
     (if lower = ''/undo'' then Some Undo
      else if lower = ''/redo'' then Some Redo
      else if lower = ''/interrupt'' \<or> lower = ''/stop'' then Some Interrupt
      else if lower = ''/compact'' then Some Compact
      else if lower = ''/clear'' then Some Clear
      else if lower = ''/heartbeat'' then Some Heartbeat
      else if lower = ''/summarize'' \<or> lower = ''/summary'' then Some Summarize
      else if lower = ''/suggest'' then Some Suggest
      else if lower = ''/thread new'' \<or> lower = ''/new'' then Some NewThread
      else None)"

definition command_args :: "string \<Rightarrow> string list" where
  "command_args trimmed = drop 1 (split_whitespace trimmed)"

definition parse_system :: "string \<Rightarrow> string \<Rightarrow> submission option" where
  "parse_system trimmed lower =
     (if lower = ''/help'' \<or> lower = ''/?'' then Some (SystemCommand ''help'' [])
      else if lower = ''/version'' then Some (SystemCommand ''version'' [])
      else if lower = ''/tools'' then Some (SystemCommand ''tools'' [])
      else if lower = ''/skills'' then Some (SystemCommand ''skills'' [])
      else if starts_with lower ''/skills '' then Some (SystemCommand ''skills'' (command_args trimmed))
      else if lower = ''/ping'' then Some (SystemCommand ''ping'' [])
      else if lower = ''/debug'' then Some (SystemCommand ''debug'' [])
      else if lower = ''/restart'' then Some (SystemCommand ''restart'' [])
      else if starts_with lower ''/model'' then Some (SystemCommand ''model'' (command_args trimmed))
      else if lower = ''/quit'' \<or> lower = ''/exit'' \<or> lower = ''/shutdown'' then Some Quit
      else None)"

text \<open>\<open>if let Some(rest) = ... { let id = rest.trim(); if !id.is_empty() { return ... } }\<close>\<close>

definition nonempty_arg :: "string option \<Rightarrow> string option" where
  "nonempty_arg rest = (case rest of None \<Rightarrow> None
     | Some r \<Rightarrow> (let i = trim r in if i \<noteq> [] then Some i else None))"

definition parse_job :: "string \<Rightarrow> submission option" where
  "parse_job lower =
     (if lower = ''/status'' \<or> lower = ''/progress'' then Some (JobStatus None)
      else case nonempty_arg (case strip_prefix lower ''/status '' of
                                Some r \<Rightarrow> Some r | None \<Rightarrow> strip_prefix lower ''/progress '') of
        Some i \<Rightarrow> Some (JobStatus (Some i))
      | None \<Rightarrow>
          (if lower = ''/list'' then Some (JobStatus None)
           else case nonempty_arg (strip_prefix lower ''/cancel '') of
             Some i \<Rightarrow> Some (JobCancel i)
           | None \<Rightarrow> None))"

definition parse_thread :: "(string \<Rightarrow> uuid option) \<Rightarrow> string \<Rightarrow> submission option" where
  "parse_thread parse_uuid lower =
     (case strip_prefix lower ''/thread '' of
        None \<Rightarrow> None
      | Some r \<Rightarrow>
          (let rest = trim r
           in if rest \<noteq> ''new'' then map_option SwitchThread (parse_uuid rest) else None))"

definition parse_resume :: "(string \<Rightarrow> uuid option) \<Rightarrow> string \<Rightarrow> submission option" where
  "parse_resume parse_uuid lower =
     (case strip_prefix lower ''/resume '' of
        None \<Rightarrow> None
      | Some r \<Rightarrow> map_option Resume (parse_uuid (trim r)))"

definition parse_json_approval :: "(string \<Rightarrow> submission option) \<Rightarrow> string \<Rightarrow> submission option" where
  "parse_json_approval from_json trimmed =
     (if starts_with trimmed ''{''
      then (case from_json trimmed of
              Some (ExecApproval r a al) \<Rightarrow> Some (ExecApproval r a al)
            | _ \<Rightarrow> None)
      else None)"

definition parse_approval :: "string \<Rightarrow> submission option" where
  "parse_approval lower =
     (if lower \<in> {''yes'', ''y'', ''approve'', ''ok'', ''/approve'', ''/yes'', ''/y''}
      then Some (ApprovalResponse True False)
      else if lower \<in> {''always'', ''a'', ''yes always'', ''approve always'', ''/always'', ''/a''}
      then Some (ApprovalResponse True True)
      else if lower \<in> {''no'', ''n'', ''deny'', ''reject'', ''cancel'', ''/deny'', ''/no'', ''/n''}
      then Some (ApprovalResponse False False)
      else None)"

fun first_some :: "'a option list \<Rightarrow> 'a option" where
  "first_some [] = None"
| "first_some (Some x # xs) = Some x"
| "first_some (None # xs) = first_some xs"

definition recognise ::
  "(string \<Rightarrow> uuid option) \<Rightarrow> (string \<Rightarrow> submission option) \<Rightarrow> string \<Rightarrow> submission option" where
  "recognise parse_uuid from_json trimmed =
     (let lower = to_lowercase trimmed in
      first_some [parse_control lower, parse_system trimmed lower, parse_job lower,
        parse_thread parse_uuid lower, parse_resume parse_uuid lower,
        parse_json_approval from_json trimmed, parse_approval lower])"

definition parse ::
  "(string \<Rightarrow> uuid option) \<Rightarrow> (string \<Rightarrow> submission option) \<Rightarrow> string \<Rightarrow> submission" where
  "parse parse_uuid from_json content =
     (case recognise parse_uuid from_json (trim content) of Some s \<Rightarrow> s | None \<Rightarrow> UserInput content)"

section \<open>Properties\<close>

lemma first_some_Some: "first_some xs = Some x \<Longrightarrow> Some x \<in> set xs"
  by (induction xs rule: first_some.induct) auto

lemma first_some_None: "first_some xs = None \<longleftrightarrow> (\<forall>x \<in> set xs. x = None)"
  by (induction xs rule: first_some.induct) auto

lemmas group_defs = parse_control_def parse_system_def parse_job_def parse_thread_def
  parse_resume_def parse_approval_def

lemma groups_not_user_input:
  "parse_control l \<noteq> Some (UserInput u)" "parse_system t l \<noteq> Some (UserInput u)"
  "parse_job l \<noteq> Some (UserInput u)" "parse_thread pu l \<noteq> Some (UserInput u)"
  "parse_resume pu l \<noteq> Some (UserInput u)" "parse_json_approval fj t \<noteq> Some (UserInput u)"
  "parse_approval l \<noteq> Some (UserInput u)"
  by (auto simp: group_defs parse_json_approval_def Let_def split: option.splits submission.splits)

lemma groups_not_exec_approval:
  "parse_control l \<noteq> Some (ExecApproval r a al)" "parse_system t l \<noteq> Some (ExecApproval r a al)"
  "parse_job l \<noteq> Some (ExecApproval r a al)" "parse_thread pu l \<noteq> Some (ExecApproval r a al)"
  "parse_resume pu l \<noteq> Some (ExecApproval r a al)" "parse_approval l \<noteq> Some (ExecApproval r a al)"
  by (auto simp: group_defs Let_def split: option.splits)

lemma recognise_not_user_input: "recognise pu fj t \<noteq> Some (UserInput u)"
  using groups_not_user_input
  by (auto simp: recognise_def Let_def dest!: first_some_Some) metis+

lemma recognise_exec_approval:
  assumes "recognise pu fj t = Some (ExecApproval r a al)"
  shows "parse_json_approval fj t = Some (ExecApproval r a al)"
  using assms groups_not_exec_approval
  by (auto simp: recognise_def Let_def dest!: first_some_Some) metis+

section \<open>Theorems\<close>

text \<open>
  A message that is not recognised as a command reaches the agent verbatim: the user
  input is the content as it was received, not the trimmed or lower-cased text.
\<close>

theorem parse_user_input_verbatim:
  assumes "parse parse_uuid from_json content = UserInput u"
  shows "u = content \<and> recognise parse_uuid from_json (trim content) = None"
  using assms recognise_not_user_input [of parse_uuid from_json "trim content" u]
  by (auto simp: parse_def split: option.splits)

theorem parse_user_input_verbatim_witness:
  "parse (\<lambda>_. None) (\<lambda>_. None) ''Hi there '' = UserInput ''Hi there ''
   \<and> recognise (\<lambda>_. None) (\<lambda>_. None) (trim ''Hi there '') = None"
proof -
  have h: "parse (\<lambda>_. None) (\<lambda>_. None) ''Hi there '' = UserInput ''Hi there ''"
    by code_simp
  show ?thesis using h parse_user_input_verbatim [OF h] by simp
qed

text \<open>
  A message becomes an execution approval with an explicit request id only when, without
  its surrounding blanks, it begins with an opening brace and the deserializer reads exactly
  that approval from it; no text command, and no other deserialized submission, can forge one.
\<close>

theorem parse_exec_approval_only_json:
  assumes "parse parse_uuid from_json content = ExecApproval r a al"
  shows "starts_with (trim content) ''{'' \<and> from_json (trim content) = Some (ExecApproval r a al)"
proof -
  have "recognise parse_uuid from_json (trim content) = Some (ExecApproval r a al)"
    using assms by (auto simp: parse_def split: option.splits)
  then have "parse_json_approval from_json (trim content) = Some (ExecApproval r a al)"
    by (rule recognise_exec_approval)
  then show ?thesis
    by (auto simp: parse_json_approval_def split: if_splits option.splits submission.splits)
qed

theorem parse_exec_approval_only_json_witness:
  "starts_with (trim '' {1} '') ''{''
   \<and> (\<lambda>s. if s = ''{1}'' then Some (ExecApproval 1 True False) else None) (trim '' {1} '')
       = Some (ExecApproval 1 True False)"
proof -
  have h: "parse (\<lambda>_. None) (\<lambda>s. if s = ''{1}'' then Some (ExecApproval 1 True False) else None) '' {1} ''
      = ExecApproval 1 True False"
    by code_simp
  show ?thesis using parse_exec_approval_only_json [OF h] by simp
qed

text \<open>
  Blanks around a message never change how it is read: the submission is the same, except
  that user input carries the padded text.
\<close>

theorem parse_whitespace_insensitive:
  assumes "\<forall>c \<in> set a. is_ws c" and "\<forall>c \<in> set b. is_ws c"
  shows "parse parse_uuid from_json (a @ content @ b) =
    (case parse parse_uuid from_json content of
       UserInput _ \<Rightarrow> UserInput (a @ content @ b) | s \<Rightarrow> s)"
  using recognise_not_user_input [of parse_uuid from_json "trim content"]
  by (auto simp: parse_def trim_pad [OF assms] split: option.splits submission.splits)

theorem parse_whitespace_insensitive_witness:
  "parse (\<lambda>_. None) (\<lambda>_. None) ('' '' @ ''/UNDO'' @ '' '') = Undo"
proof -
  have h: "parse (\<lambda>_. None) (\<lambda>_. None) ''/UNDO'' = Undo"
    by code_simp
  have ws: "\<forall>c \<in> set '' ''. is_ws c"
    by code_simp
  show ?thesis using h parse_whitespace_insensitive [OF ws ws, of "\<lambda>_. None" "\<lambda>_. None" "''/UNDO''"]
    by simp
qed

end
