(* ===== verification/Job_State.thy ===== *)
theory Job_State
  imports Prelude
begin

text \<open>
  \<open>src/context/state.rs\<close>: the job state machine and the context that carries it. Monetary
  amounts (\<open>rust_decimal::Decimal\<close>) are exact rationals. Token counters are \<open>u64\<close> and the
  repair counter is \<open>u32\<close>, with the wrap-around of a release build. The HTTP interceptor, a
  trait object no method here uses, is left out.
\<close>

datatype job_state =
    Job_Pending | Job_InProgress | Job_Completed | Job_Submitted | Job_Accepted
  | Job_Failed | Job_Stuck | Job_Cancelled

fun can_transition_to :: "job_state \<Rightarrow> job_state \<Rightarrow> bool" where
  "can_transition_to Job_Pending Job_InProgress = True"
| "can_transition_to Job_Pending Job_Cancelled = True"
| "can_transition_to Job_InProgress Job_Completed = True"
| "can_transition_to Job_InProgress Job_Failed = True"
| "can_transition_to Job_InProgress Job_Stuck = True"
| "can_transition_to Job_InProgress Job_Cancelled = True"
| "can_transition_to Job_Completed Job_Submitted = True"
| "can_transition_to Job_Completed Job_Failed = True"
| "can_transition_to Job_Submitted Job_Accepted = True"
| "can_transition_to Job_Submitted Job_Failed = True"
| "can_transition_to Job_Stuck Job_InProgress = True"
| "can_transition_to Job_Stuck Job_Failed = True"
| "can_transition_to Job_Stuck Job_Cancelled = True"
| "can_transition_to _ _ = False"

definition is_terminal :: "job_state \<Rightarrow> bool" where
  "is_terminal s \<longleftrightarrow> s = Job_Accepted \<or> s = Job_Failed \<or> s = Job_Cancelled"

definition is_active :: "job_state \<Rightarrow> bool" where
  "is_active s \<longleftrightarrow> \<not> is_terminal s"

fun show_job_state :: "job_state \<Rightarrow> string" where
  "show_job_state Job_Pending = ''pending''"
| "show_job_state Job_InProgress = ''in_progress''"
| "show_job_state Job_Completed = ''completed''"
| "show_job_state Job_Submitted = ''submitted''"
| "show_job_state Job_Accepted = ''accepted''"
| "show_job_state Job_Failed = ''failed''"
| "show_job_state Job_Stuck = ''stuck''"
| "show_job_state Job_Cancelled = ''cancelled''"

record state_transition =
  tr_from :: job_state
  tr_to :: job_state
  tr_timestamp :: datetime
  tr_reason :: "string option"

record job_context =
  job_id :: uuid
  job_state :: job_state
  job_user_id :: string
  conversation_id :: "uuid option"
  job_title :: string
  job_description :: string
  job_category :: "string option"
  job_budget :: "rat option"
  budget_token :: "string option"
  bid_amount :: "rat option"
  estimated_cost :: "rat option"
  estimated_duration :: "duration option"
  actual_cost :: rat
  total_tokens_used :: u64
  max_tokens :: u64
  job_created_at :: datetime
  job_started_at :: "datetime option"
  job_completed_at :: "datetime option"
  repair_attempts :: u32
  transitions :: "state_transition list"
  job_metadata :: json
  extra_env :: "(string, string) hashmap"
  tool_output_stash :: "(string, string) hashmap"

definition job_with_user :: "uuid \<Rightarrow> string \<Rightarrow> string \<Rightarrow> string \<Rightarrow> datetime \<Rightarrow> job_context" where
  "job_with_user fresh_id uid title desc now =
     \<lparr>job_id = fresh_id, job_state = Job_Pending, job_user_id = uid, conversation_id = None,
      job_title = title, job_description = desc, job_category = None, job_budget = None,
      budget_token = None, bid_amount = None, estimated_cost = None, estimated_duration = None,
      actual_cost = 0, total_tokens_used = 0, max_tokens = 0, job_created_at = now,
      job_started_at = None, job_completed_at = None, repair_attempts = 0, transitions = [],
      job_metadata = JNull, extra_env = [], tool_output_stash = []\<rparr>"

definition job_new :: "uuid \<Rightarrow> string \<Rightarrow> string \<Rightarrow> datetime \<Rightarrow> job_context" where
  "job_new fresh_id title desc now = job_with_user fresh_id ''default'' title desc now"

definition MAX_TRANSITIONS :: nat where
  "MAX_TRANSITIONS = 200"

definition push_transition :: "state_transition \<Rightarrow> state_transition list \<Rightarrow> state_transition list" where
  "push_transition t ts =
     (let ts = ts @ [t]
      in if length ts > MAX_TRANSITIONS then drop (length ts - MAX_TRANSITIONS) ts else ts)"

definition transition_to ::
  "job_state \<Rightarrow> string option \<Rightarrow> datetime \<Rightarrow> job_context \<Rightarrow> (string + unit) \<times> job_context" where
  "transition_to new reason now c =
     (if \<not> can_transition_to (job_state c) new
      then (Inl (''Cannot transition from '' @ show_job_state (job_state c) @ '' to '' @ show_job_state new), c)
      else
        (let t = \<lparr>tr_from = job_state c, tr_to = new, tr_timestamp = now, tr_reason = reason\<rparr>;
             c = c\<lparr>transitions := push_transition t (transitions c), job_state := new\<rparr>
         in (Inr (),
             if new = Job_InProgress \<and> job_started_at c = None then c\<lparr>job_started_at := Some now\<rparr>
             else if new = Job_Completed \<or> new = Job_Accepted \<or> new = Job_Failed \<or> new = Job_Cancelled
             then c\<lparr>job_completed_at := Some now\<rparr>
             else c)))"

definition add_cost :: "rat \<Rightarrow> job_context \<Rightarrow> job_context" where
  "add_cost x c = c\<lparr>actual_cost := actual_cost c + x\<rparr>"

definition add_tokens :: "u64 \<Rightarrow> job_context \<Rightarrow> (string + unit) \<times> job_context" where
  "add_tokens n c =
     (let c = c\<lparr>total_tokens_used := total_tokens_used c + n\<rparr>
      in if max_tokens c > 0 \<and> total_tokens_used c > max_tokens c
         then (Inl (''Token budget exceeded: used '' @ show_nat (unat (total_tokens_used c)) @ '' of ''
                    @ show_nat (unat (max_tokens c)) @ '' allowed tokens''), c)
         else (Inr (), c))"

definition budget_exceeded :: "job_context \<Rightarrow> bool" where
  "budget_exceeded c = (case job_budget c of Some b \<Rightarrow> actual_cost c > b | None \<Rightarrow> False)"

definition elapsed :: "datetime \<Rightarrow> job_context \<Rightarrow> duration option" where
  "elapsed now c = map_option
     (\<lambda>start. let end_time = (case job_completed_at c of Some e \<Rightarrow> e | None \<Rightarrow> now)
              in secs (nat (max 0 ((end_time - start) div 1000)))) (job_started_at c)"

definition mark_stuck :: "string \<Rightarrow> datetime \<Rightarrow> job_context \<Rightarrow> (string + unit) \<times> job_context" where
  "mark_stuck reason now c = transition_to Job_Stuck (Some reason) now c"

definition attempt_recovery :: "datetime \<Rightarrow> job_context \<Rightarrow> (string + unit) \<times> job_context" where
  "attempt_recovery now c =
     (if job_state c \<noteq> Job_Stuck then (Inl ''Job is not stuck'', c)
      else (let c = c\<lparr>repair_attempts := repair_attempts c + 1\<rparr>
            in transition_to Job_InProgress (Some ''Recovery attempt'') now c))"

section \<open>The transition relation\<close>

text \<open>The diagram of the states, as a step relation, and the states a job can come to.\<close>

inductive job_reaches :: "job_state \<Rightarrow> job_state \<Rightarrow> bool" where
  reaches_refl: "job_reaches s s"
| reaches_step: "job_reaches s t \<Longrightarrow> can_transition_to t u \<Longrightarrow> job_reaches s u"

inductive_cases job_reaches_cases: "job_reaches s t"

lemma terminal_no_successor: "is_terminal s \<Longrightarrow> \<not> can_transition_to s t"
  by (cases s; cases t) (simp_all add: is_terminal_def)

lemma active_has_exit:
  "\<not> is_terminal s \<Longrightarrow> can_transition_to s Job_Failed \<or> can_transition_to s Job_Cancelled"
  by (cases s) (simp_all add: is_terminal_def)

lemma terminal_iff_no_successor: "is_terminal s \<longleftrightarrow> (\<forall>t. \<not> can_transition_to s t)"
  using terminal_no_successor active_has_exit by blast

lemma terminal_stays: "job_reaches s t \<Longrightarrow> is_terminal s \<Longrightarrow> t = s"
  by (induction rule: job_reaches.induct) (auto simp: terminal_iff_no_successor)

lemma some_terminal_reachable: "\<exists>t. job_reaches s t \<and> is_terminal t"
proof -
  have "is_terminal Job_Failed" "is_terminal Job_Cancelled"
    by (auto simp: is_terminal_def)
  then show ?thesis using active_has_exit [of s] by (meson reaches_refl reaches_step)
qed

section \<open>Invariant of job contexts\<close>

fun linked :: "state_transition list \<Rightarrow> bool" where
  "linked [] = True"
| "linked [t] = can_transition_to (tr_from t) (tr_to t)"
| "linked (t # u # ts) = (can_transition_to (tr_from t) (tr_to t) \<and> tr_to t = tr_from u \<and> linked (u # ts))"

lemma linked_snoc:
  "linked ts \<Longrightarrow> can_transition_to (tr_from t) (tr_to t)
   \<Longrightarrow> ts \<noteq> [] \<longrightarrow> tr_to (last ts) = tr_from t \<Longrightarrow> linked (ts @ [t])"
  by (induction ts rule: linked.induct) auto

lemma linked_drop: "linked ts \<Longrightarrow> linked (drop k ts)"
proof (induction k arbitrary: ts)
  case (Suc k)
  then show ?case by (cases ts rule: linked.cases) auto
qed simp

lemma push_transition_last [simp]: "push_transition t ts \<noteq> [] \<and> last (push_transition t ts) = t"
  by (auto simp: push_transition_def Let_def MAX_TRANSITIONS_def)

lemma push_transition_length: "length (push_transition t ts) \<le> MAX_TRANSITIONS"
  if "length ts \<le> MAX_TRANSITIONS"
  using that by (auto simp: push_transition_def Let_def)

lemma push_transition_linked:
  "linked ts \<Longrightarrow> can_transition_to (tr_from t) (tr_to t)
   \<Longrightarrow> ts \<noteq> [] \<longrightarrow> tr_to (last ts) = tr_from t \<Longrightarrow> linked (push_transition t ts)"
  by (auto simp: push_transition_def Let_def simp del: drop_append intro!: linked_drop linked_snoc)

text \<open>
  The history is a chain of permitted transitions of bounded length that ends in the current
  state; a job that is or was running has a start time, a finished one a completion time.
\<close>

definition job_wf :: "job_context \<Rightarrow> bool" where
  "job_wf c \<longleftrightarrow> linked (transitions c) \<and> length (transitions c) \<le> MAX_TRANSITIONS
     \<and> (transitions c \<noteq> [] \<longrightarrow> tr_to (last (transitions c)) = job_state c)
     \<and> (transitions c = [] \<longrightarrow> job_state c = Job_Pending)
     \<and> (job_state c \<in> {Job_InProgress, Job_Stuck, Job_Completed, Job_Submitted, Job_Accepted}
          \<longrightarrow> job_started_at c \<noteq> None)
     \<and> (job_state c \<in> {Job_Completed, Job_Submitted, Job_Accepted, Job_Failed, Job_Cancelled}
          \<longrightarrow> job_completed_at c \<noteq> None)"

lemma job_with_user_wf: "job_wf (job_with_user i u t d now)"
  by (simp add: job_wf_def job_with_user_def)

lemma transition_to_ok:
  "fst (transition_to new reason now c) = Inr () \<longleftrightarrow> can_transition_to (job_state c) new"
  by (auto simp: transition_to_def Let_def)

lemma transition_to_state:
  "job_state (snd (transition_to new reason now c)) =
     (if can_transition_to (job_state c) new then new else job_state c)"
  by (auto simp: transition_to_def Let_def)

lemma transition_to_history:
  "can_transition_to (job_state c) new \<Longrightarrow>
   transitions (snd (transition_to new reason now c)) =
     push_transition \<lparr>tr_from = job_state c, tr_to = new, tr_timestamp = now, tr_reason = reason\<rparr> (transitions c)"
  by (auto simp: transition_to_def Let_def)

lemma transition_to_started:
  "can_transition_to (job_state c) new \<Longrightarrow>
   job_started_at (snd (transition_to new reason now c)) =
     (if new = Job_InProgress \<and> job_started_at c = None then Some now else job_started_at c)"
  by (auto simp: transition_to_def Let_def)

lemma transition_to_completed:
  "can_transition_to (job_state c) new \<Longrightarrow>
   job_completed_at (snd (transition_to new reason now c)) =
     (if new \<in> {Job_Completed, Job_Accepted, Job_Failed, Job_Cancelled} then Some now else job_completed_at c)"
  by (auto simp: transition_to_def Let_def)

lemma transition_to_error: "\<not> can_transition_to (job_state c) new \<Longrightarrow> snd (transition_to new reason now c) = c"
  by (simp add: transition_to_def)

lemma can_transition_cases:
  assumes "can_transition_to s t"
  shows "t \<in> {Job_Stuck, Job_Completed} \<longrightarrow> s = Job_InProgress"
    and "t = Job_Submitted \<longrightarrow> s = Job_Completed" and "t = Job_Accepted \<longrightarrow> s = Job_Submitted"
  using assms by (cases s; cases t; simp)+

lemma transition_to_wf:
  assumes "job_wf c"
  shows "job_wf (snd (transition_to new reason now c))"
proof (cases "can_transition_to (job_state c) new")
  case False
  then show ?thesis using assms by (simp add: transition_to_error)
next
  case True
  let ?t = "\<lparr>tr_from = job_state c, tr_to = new, tr_timestamp = now, tr_reason = reason\<rparr>"
  have "linked (push_transition ?t (transitions c))"
    using assms True by (intro push_transition_linked) (auto simp: job_wf_def)
  moreover have "length (push_transition ?t (transitions c)) \<le> MAX_TRANSITIONS"
    using assms by (intro push_transition_length) (simp add: job_wf_def)
  ultimately show ?thesis
    using assms True can_transition_cases [OF True]
    by (auto simp: job_wf_def transition_to_history transition_to_state transition_to_started
        transition_to_completed)
qed

datatype job_op =
    Op_Transition job_state "string option" datetime
  | Op_AddCost rat
  | Op_AddTokens u64
  | Op_MarkStuck string datetime
  | Op_AttemptRecovery datetime

fun job_step :: "job_context \<Rightarrow> job_op \<Rightarrow> job_context" where
  "job_step c (Op_Transition s r now) = snd (transition_to s r now c)"
| "job_step c (Op_AddCost x) = add_cost x c"
| "job_step c (Op_AddTokens n) = snd (add_tokens n c)"
| "job_step c (Op_MarkStuck r now) = snd (mark_stuck r now c)"
| "job_step c (Op_AttemptRecovery now) = snd (attempt_recovery now c)"

lemma job_wf_counters [simp]:
  "job_wf (c\<lparr>total_tokens_used := n\<rparr>) = job_wf c" "job_wf (c\<lparr>actual_cost := x\<rparr>) = job_wf c"
  "job_wf (c\<lparr>repair_attempts := k\<rparr>) = job_wf c"
  by (auto simp: job_wf_def)

lemma job_step_wf: "job_wf c \<Longrightarrow> job_wf (job_step c x)"
  by (cases x)
    (auto simp: add_cost_def add_tokens_def mark_stuck_def attempt_recovery_def Let_def
       intro: transition_to_wf)

interpretation job_machine: invariant_machine job_step job_wf
  by unfold_locales (rule job_step_wf)

lemma job_step_state: "job_state (job_step c x) = job_state c \<or> can_transition_to (job_state c) (job_state (job_step c x))"
  by (cases x) (auto simp: add_cost_def add_tokens_def mark_stuck_def attempt_recovery_def Let_def
      transition_to_state split: if_splits)

lemma job_step_id [simp]: "job_id (job_step c x) = job_id c" "job_user_id (job_step c x) = job_user_id c"
  by (cases x; auto simp: add_cost_def add_tokens_def mark_stuck_def attempt_recovery_def Let_def
      transition_to_def)+

lemma job_step_terminal: "is_terminal (job_state c) \<Longrightarrow> job_state (job_step c x) = job_state c"
  using job_step_state [of c x] by (auto simp: terminal_iff_no_successor)

section \<open>Theorems\<close>

text \<open>
  For every job and every sequence of its methods, successful or not: the recorded history
  is a chain of permitted transitions, at most \<open>MAX_TRANSITIONS\<close> (200) long, that ends in the
  current state; a job that has been started has a start time, and a completed, submitted,
  accepted, failed or cancelled one has a completion time.
\<close>

theorem job_reachable_wf: "job_wf (foldl job_step (job_with_user i u t d now) xs)"
  by (rule job_machine.run_inv) (rule job_with_user_wf)

text \<open>
  The terminal states are exactly the states a job can never leave, and from every state
  some terminal state can be reached: no job is condemned to stay active.
\<close>

theorem job_terminal_absorbing:
  "(is_terminal s \<longleftrightarrow> {t. job_reaches s t} = {s}) \<and> (\<exists>t. job_reaches s t \<and> is_terminal t)"
proof -
  have "is_terminal s" if "{t. job_reaches s t} = {s}"
    using that some_terminal_reachable [of s] by auto
  moreover have "{t. job_reaches s t} = {s}" if "is_terminal s"
    using that by (auto intro: reaches_refl dest: terminal_stays)
  ultimately show ?thesis using some_terminal_reachable by blast
qed

text \<open>
  A transition succeeds exactly when the diagram permits it; it then sets the state and
  appends the matching history entry, and a refused one reports both states and leaves the
  context untouched.
\<close>

theorem transition_to_spec:
  "transition_to new reason now c =
     (if can_transition_to (job_state c) new
      then (Inr (), c\<lparr>transitions := push_transition
              \<lparr>tr_from = job_state c, tr_to = new, tr_timestamp = now, tr_reason = reason\<rparr> (transitions c),
            job_state := new,
            job_started_at := (if new = Job_InProgress \<and> job_started_at c = None then Some now
                               else job_started_at c),
            job_completed_at := (if new \<in> {Job_Completed, Job_Accepted, Job_Failed, Job_Cancelled}
                               then Some now else job_completed_at c)\<rparr>)
      else (Inl (''Cannot transition from '' @ show_job_state (job_state c) @ '' to '' @ show_job_state new), c))"
  by (auto simp: transition_to_def Let_def intro: job_context.equality)

text \<open>
  As long as the \<open>u64\<close> counter does not overflow, recording token usage reports an error
  exactly when the job has a token budget and the new total exceeds it; the usage is recorded
  either way.
\<close>

theorem add_tokens_budget:
  assumes "unat (total_tokens_used c) + unat n < 2 ^ 64"
  shows "unat (total_tokens_used (snd (add_tokens n c))) = unat (total_tokens_used c) + unat n
    \<and> (fst (add_tokens n c) \<noteq> Inr () \<longleftrightarrow>
         0 < unat (max_tokens c) \<and> unat (max_tokens c) < unat (total_tokens_used c) + unat n)"
proof -
  have u: "unat (total_tokens_used c + n) = unat (total_tokens_used c) + unat n"
    using assms by (simp add: unat_word_ariths)
  have "0 < max_tokens c \<longleftrightarrow> 0 < unat (max_tokens c)"
    by (simp add: word_less_nat_alt)
  then show ?thesis
    by (auto simp: add_tokens_def Let_def word_less_nat_alt u)
qed

theorem add_tokens_budget_witness:
  "fst (add_tokens 60 ((job_with_user 1 ''u'' ''t'' ''d'' 0)\<lparr>total_tokens_used := 50, max_tokens := 100\<rparr>)) \<noteq> Inr ()"
  using add_tokens_budget [of "(job_with_user 1 ''u'' ''t'' ''d'' 0)\<lparr>total_tokens_used := 50, max_tokens := 100\<rparr>" 60]
  by simp

end
