(* ===== verification/Job_Memory.thy ===== *)
theory Job_Memory
  imports Llm_Types
begin

text \<open>
  \<open>src/context/memory.rs\<close>: the per-job conversation window and the action log. Action
  identifiers and time stamps are arguments; costs are exact rationals.
\<close>

record action_record =
  ar_id :: uuid
  ar_sequence :: u32
  ar_tool_name :: string
  ar_input :: json
  ar_output_raw :: "string option"
  ar_output_sanitized :: "json option"
  ar_warnings :: "string list"
  ar_cost :: "rat option"
  ar_duration :: duration
  ar_success :: bool
  ar_error :: "string option"
  ar_executed_at :: datetime

definition action_new :: "uuid \<Rightarrow> u32 \<Rightarrow> string \<Rightarrow> json \<Rightarrow> datetime \<Rightarrow> action_record" where
  "action_new fresh_id seq tool inp now =
     \<lparr>ar_id = fresh_id, ar_sequence = seq, ar_tool_name = tool, ar_input = inp,
      ar_output_raw = None, ar_output_sanitized = None, ar_warnings = [], ar_cost = None,
      ar_duration = 0, ar_success = False, ar_error = None, ar_executed_at = now\<rparr>"

definition action_succeed :: "string option \<Rightarrow> json \<Rightarrow> duration \<Rightarrow> action_record \<Rightarrow> action_record" where
  "action_succeed raw sanitized d a = a\<lparr>ar_success := True, ar_output_raw := raw,
     ar_output_sanitized := Some sanitized, ar_duration := d\<rparr>"

definition action_fail :: "string \<Rightarrow> duration \<Rightarrow> action_record \<Rightarrow> action_record" where
  "action_fail err d a = a\<lparr>ar_success := False, ar_error := Some err, ar_duration := d\<rparr>"

definition action_with_warnings :: "string list \<Rightarrow> action_record \<Rightarrow> action_record" where
  "action_with_warnings ws a = a\<lparr>ar_warnings := ws\<rparr>"

definition action_with_cost :: "rat \<Rightarrow> action_record \<Rightarrow> action_record" where
  "action_with_cost x a = a\<lparr>ar_cost := Some x\<rparr>"

section \<open>Conversation window\<close>

record conversation_memory =
  conv_messages :: "chat_message list"
  max_messages :: nat

definition conversation_new :: "nat \<Rightarrow> conversation_memory" where
  "conversation_new k = \<lparr>conv_messages = [], max_messages = k\<rparr>"

text \<open>The trimming loop: a leading system message is kept, the one after it goes first.\<close>

function trim_messages :: "nat \<Rightarrow> chat_message list \<Rightarrow> chat_message list" where
  "trim_messages k msgs =
     (if length msgs > k
      then (case msgs of
              [] \<Rightarrow> []
            | m # rest \<Rightarrow>
                (if cm_role m = System
                 then (if length msgs > 1 then trim_messages k (m # tl rest) else msgs)
                 else trim_messages k rest))
      else msgs)"
  by pat_completeness auto
termination
  by (relation "measure (\<lambda>(k, msgs). length msgs)") auto

declare trim_messages.simps [simp del]

definition conversation_add :: "chat_message \<Rightarrow> conversation_memory \<Rightarrow> conversation_memory" where
  "conversation_add m c = c\<lparr>conv_messages := trim_messages (max_messages c) (conv_messages c @ [m])\<rparr>"

definition last_n :: "nat \<Rightarrow> conversation_memory \<Rightarrow> chat_message list" where
  "last_n n c = drop (length (conv_messages c) - n) (conv_messages c)"

definition conversation_clear :: "conversation_memory \<Rightarrow> conversation_memory" where
  "conversation_clear c = c\<lparr>conv_messages := []\<rparr>"

section \<open>Job memory\<close>

record memory =
  mem_job_id :: uuid
  conversation :: conversation_memory
  actions :: "action_record list"
  next_sequence :: u32

definition memory_new :: "uuid \<Rightarrow> memory" where
  "memory_new jid = \<lparr>mem_job_id = jid, conversation = conversation_new 100, actions = [], next_sequence = 0\<rparr>"

definition add_message :: "chat_message \<Rightarrow> memory \<Rightarrow> memory" where
  "add_message m mem = mem\<lparr>conversation := conversation_add m (conversation mem)\<rparr>"

definition create_action :: "uuid \<Rightarrow> string \<Rightarrow> json \<Rightarrow> datetime \<Rightarrow> memory \<Rightarrow> action_record \<times> memory" where
  "create_action fresh_id tool inp now mem =
     (let seq = next_sequence mem
      in (action_new fresh_id seq tool inp now, mem\<lparr>next_sequence := next_sequence mem + 1\<rparr>))"

definition record_action :: "action_record \<Rightarrow> memory \<Rightarrow> memory" where
  "record_action a mem = mem\<lparr>actions := actions mem @ [a]\<rparr>"

definition total_cost :: "memory \<Rightarrow> rat" where
  "total_cost mem = foldl (+) 0 (List.map_filter ar_cost (actions mem))"

definition total_duration :: "memory \<Rightarrow> duration" where
  "total_duration mem = foldl (+) 0 (map ar_duration (actions mem))"

definition successful_actions :: "memory \<Rightarrow> nat" where
  "successful_actions mem = length (filter ar_success (actions mem))"

definition failed_actions :: "memory \<Rightarrow> nat" where
  "failed_actions mem = length (filter (\<lambda>a. \<not> ar_success a) (actions mem))"

definition last_action :: "memory \<Rightarrow> action_record option" where
  "last_action mem = (if actions mem = [] then None else Some (last (actions mem)))"

definition actions_by_tool :: "string \<Rightarrow> memory \<Rightarrow> action_record list" where
  "actions_by_tool tool mem = filter (\<lambda>a. ar_tool_name a = tool) (actions mem)"

section \<open>The window\<close>

lemma trim_messages_short: "length msgs \<le> k \<Longrightarrow> trim_messages k msgs = msgs"
  by (subst trim_messages.simps) simp

lemma trim_messages_no_system:
  "\<forall>m \<in> set msgs. cm_role m \<noteq> System \<Longrightarrow> trim_messages k msgs = drop (length msgs - k) msgs"
proof (induction msgs)
  case Nil
  then show ?case by (simp add: trim_messages_short)
next
  case (Cons m msgs)
  show ?case
  proof (cases "length (m # msgs) > k")
    case True
    then show ?thesis using Cons
      by (subst trim_messages.simps) (auto simp: Suc_diff_le)
  qed (simp add: trim_messages_short)
qed

lemma trim_messages_system:
  assumes "cm_role s = System" and "1 \<le> k"
  shows "trim_messages k (s # rest) = s # drop (length rest - (k - 1)) rest"
proof (induction rest)
  case Nil
  then show ?case using assms by (simp add: trim_messages_short)
next
  case (Cons x rest)
  show ?case
  proof (cases "length (s # x # rest) > k")
    case True
    then have "trim_messages k (s # x # rest) = trim_messages k (s # rest)"
      using assms by (subst trim_messages.simps) auto
    also have "\<dots> = s # drop (length rest - (k - 1)) rest"
      by (rule Cons.IH)
    also have "drop (length rest - (k - 1)) rest = drop (length (x # rest) - (k - 1)) (x # rest)"
      using True assms by (simp add: Suc_diff_le)
    finally show ?thesis .
  qed (use assms in \<open>simp add: trim_messages_short\<close>)
qed

text \<open>Messages only leave from the old end (after a leading system message).\<close>

lemma trim_messages_length: "length (trim_messages k msgs) \<le> max k 1"
proof (induction k msgs rule: trim_messages.induct)
  case (1 k msgs)
  show ?case
  proof (cases "length msgs > k")
    case False
    then show ?thesis by (simp add: trim_messages_short)
  next
    case long: True
    then obtain m rest where msgs: "msgs = m # rest" by (cases msgs) auto
    show ?thesis
      using 1 long msgs
      by (cases "cm_role m = System"; cases rest; subst trim_messages.simps) auto
  qed
qed

lemma conversation_add_exact:
  assumes "2 \<le> max_messages c" and "length (conv_messages c) \<le> max_messages c"
  shows "conv_messages (conversation_add m c) =
    (if length (conv_messages c) < max_messages c then conv_messages c @ [m]
     else if cm_role (hd (conv_messages c)) = System
     then hd (conv_messages c) # drop 2 (conv_messages c) @ [m]
     else tl (conv_messages c) @ [m])"
proof (cases "length (conv_messages c) < max_messages c")
  case True
  then show ?thesis by (simp add: conversation_add_def trim_messages_short)
next
  case False
  with assms obtain x y xs where cs: "conv_messages c = x # y # xs"
    by (cases "conv_messages c" rule: list.exhaust; cases "tl (conv_messages c)") auto
  show ?thesis
  proof (cases "cm_role x = System")
    case True
    then show ?thesis using False assms cs
      by (simp add: conversation_add_def trim_messages_system Suc_diff_le)
  next
    case nosys: False
    then have "trim_messages (max_messages c) (x # y # xs @ [m]) = trim_messages (max_messages c) (y # xs @ [m])"
      using False cs by (subst trim_messages.simps) simp
    then show ?thesis using False nosys cs assms
      by (simp add: conversation_add_def trim_messages_short)
  qed
qed

section \<open>The action log\<close>

lemma total_cost_record:
  "total_cost (record_action a mem) = total_cost mem + (case ar_cost a of None \<Rightarrow> 0 | Some x \<Rightarrow> x)"
  by (simp add: total_cost_def record_action_def List.map_filter_def split: option.splits)

lemma total_duration_record: "total_duration (record_action a mem) = total_duration mem + ar_duration a"
  by (simp add: total_duration_def record_action_def)

lemma action_counts: "successful_actions mem + failed_actions mem = length (actions mem)"
  unfolding successful_actions_def failed_actions_def by (rule sum_length_filter_compl)

text \<open>Several actions created one after the other.\<close>

fun create_actions :: "(uuid \<times> string \<times> json \<times> datetime) list \<Rightarrow> memory \<Rightarrow> action_record list \<times> memory" where
  "create_actions [] mem = ([], mem)"
| "create_actions ((i, tool, inp, now) # rest) mem =
     (let (a, mem) = create_action i tool inp now mem; (as, mem) = create_actions rest mem
      in (a # as, mem))"

lemma create_actions_sequence:
  "map ar_sequence (fst (create_actions xs mem)) = map (\<lambda>k. next_sequence mem + of_nat k) [0..<length xs]"
proof (induction xs arbitrary: mem)
  case (Cons x xs)
  obtain i t inp now where x: "x = (i, t, inp, now)" by (cases x)
  have "[0..<Suc n] = 0 # map Suc [0..<n]" for n
    by (simp add: map_Suc_upt upt_conv_Cons)
  then show ?case
    using Cons.IH
    by (auto simp: x create_action_def action_new_def Let_def split_beta algebra_simps simp del: upt_Suc)
qed simp

lemma of_nat_word_inj:
  assumes "(of_nat a :: 'a::len word) = of_nat b" and "a < 2 ^ LENGTH('a)" and "b < 2 ^ LENGTH('a)"
  shows "a = b"
proof -
  have "unat (of_nat a :: 'a word) = unat (of_nat b :: 'a word)"
    using assms(1) by simp
  then show ?thesis using assms(2,3) by (simp only: unat_of_nat mod_less)
qed

section \<open>Theorems\<close>

text \<open>
  A conversation window of size two or more that is within its limit stays within it when
  a message is added: while there is room nothing is dropped; when it is full exactly one
  message goes, the oldest one, or the one after a leading system message, which is kept; and
  the new message is always the last.
\<close>

theorem conversation_add_window:
  assumes "2 \<le> max_messages c" and "length (conv_messages c) \<le> max_messages c"
  shows "conv_messages (conversation_add m c) =
    (if length (conv_messages c) < max_messages c then conv_messages c @ [m]
     else if cm_role (hd (conv_messages c)) = System
     then hd (conv_messages c) # drop 2 (conv_messages c) @ [m]
     else tl (conv_messages c) @ [m])
    \<and> length (conv_messages (conversation_add m c)) \<le> max_messages c
    \<and> last (conv_messages (conversation_add m c)) = m"
proof -
  have "length (conv_messages (conversation_add m c)) \<le> max_messages c"
    using assms trim_messages_length [of "max_messages c" "conv_messages c @ [m]"]
    by (simp add: conversation_add_def)
  then show ?thesis
    using conversation_add_exact [OF assms] by simp
qed

theorem conversation_add_window_witness:
  "conv_messages (conversation_add (msg_user ''c'') \<lparr>conv_messages = [msg_system ''s'', msg_user ''b''], max_messages = 2\<rparr>)
     = [msg_system ''s'', msg_user ''c'']"
  using conversation_add_window [of "\<lparr>conv_messages = [msg_system ''s'', msg_user ''b''], max_messages = 2\<rparr>" "msg_user ''c''"]
  by (simp add: msg_system_def)

text \<open>
  Actions created one after the other in a new job memory carry the sequence numbers
  0, 1, 2, \<dots> of the \<open>u32\<close> counter, so no two of the first \<open>2 ^ 32\<close> actions of a job share
  a number.
\<close>

theorem action_sequences_distinct:
  assumes "length xs \<le> 2 ^ 32"
  shows "map ar_sequence (fst (create_actions xs (memory_new jid))) = map of_nat [0..<length xs]
    \<and> distinct (map ar_sequence (fst (create_actions xs (memory_new jid))))"
proof -
  have eq: "map ar_sequence (fst (create_actions xs (memory_new jid))) = map of_nat [0..<length xs]"
    by (simp add: create_actions_sequence memory_new_def)
  have "inj_on (of_nat :: nat \<Rightarrow> u32) (set [0..<length xs])"
    using assms by (intro inj_onI) (auto intro: of_nat_word_inj [where 'a = 32])
  then have "distinct (map (of_nat :: nat \<Rightarrow> u32) [0..<length xs])"
    by (simp add: distinct_map)
  with eq show ?thesis by simp
qed

theorem action_sequences_distinct_witness:
  "map ar_sequence (fst (create_actions [(1, ''a'', JNull, 0), (2, ''b'', JNull, 0)] (memory_new 9))) = [0, 1]"
  using action_sequences_distinct [of "[(1, ''a'', JNull, 0), (2, ''b'', JNull, 0)]" 9]
  by (simp add: upt_rec)

end
