(* ===== verification/Context_Manager.thy ===== *)
theory Context_Manager
  imports Job_State Job_Memory
begin

text \<open>
  \<open>src/context/manager.rs\<close>: the manager that holds the contexts and memories of all jobs. The
  two maps are behind two separate locks; each critical section of the code is one step of the
  model. Methods that hold one lock are functions; \<open>create_job_for_user\<close> and \<open>remove_job\<close>,
  which take the locks one after the other, are also split into their sections so that
  interleavings of concurrent callers can be stated.
\<close>

datatype job_error =
    NotFound uuid
  | InvalidTransition uuid string string
  | JobFailed uuid string
  | JobStuck uuid duration
  | MaxJobsExceeded nat
  | ContextError uuid string

record context_manager =
  contexts :: "(uuid, job_context) hashmap"
  memories :: "(uuid, memory) hashmap"
  max_jobs :: nat

definition manager_new :: "nat \<Rightarrow> context_manager" where
  "manager_new k = \<lparr>contexts = [], memories = [], max_jobs = k\<rparr>"

definition active_count :: "context_manager \<Rightarrow> nat" where
  "active_count m = length (filter (\<lambda>(_, c). is_active (job_state c)) (contexts m))"

text \<open>First critical section of \<open>create_job_for_user\<close>: the check and the insertion under one write lock.\<close>

definition insert_context ::
  "uuid \<Rightarrow> string \<Rightarrow> string \<Rightarrow> string \<Rightarrow> datetime \<Rightarrow> context_manager \<Rightarrow> (job_error + uuid) \<times> context_manager" where
  "insert_context fresh_id uid title desc now m =
     (if active_count m \<ge> max_jobs m then (Inl (MaxJobsExceeded (max_jobs m)), m)
      else (let c = job_with_user fresh_id uid title desc now
            in (Inr (job_id c), m\<lparr>contexts := hm_insert (job_id c) c (contexts m)\<rparr>)))"

definition insert_memory :: "uuid \<Rightarrow> context_manager \<Rightarrow> context_manager" where
  "insert_memory jid m = m\<lparr>memories := hm_insert jid (memory_new jid) (memories m)\<rparr>"

definition create_job_for_user ::
  "uuid \<Rightarrow> string \<Rightarrow> string \<Rightarrow> string \<Rightarrow> datetime \<Rightarrow> context_manager \<Rightarrow> (job_error + uuid) \<times> context_manager" where
  "create_job_for_user fresh_id uid title desc now m =
     (case insert_context fresh_id uid title desc now m of
        (Inl e, m) \<Rightarrow> (Inl e, m)
      | (Inr jid, m) \<Rightarrow> (Inr jid, insert_memory jid m))"

definition create_job ::
  "uuid \<Rightarrow> string \<Rightarrow> string \<Rightarrow> datetime \<Rightarrow> context_manager \<Rightarrow> (job_error + uuid) \<times> context_manager" where
  "create_job fresh_id title desc now m = create_job_for_user fresh_id ''default'' title desc now m"

definition get_context :: "uuid \<Rightarrow> context_manager \<Rightarrow> job_error + job_context" where
  "get_context jid m = (case hm_get (contexts m) jid of Some c \<Rightarrow> Inr c | None \<Rightarrow> Inl (NotFound jid))"

definition update_context ::
  "uuid \<Rightarrow> (job_context \<Rightarrow> 'r \<times> job_context) \<Rightarrow> context_manager \<Rightarrow> (job_error + 'r) \<times> context_manager" where
  "update_context jid f m =
     (case hm_get (contexts m) jid of
        None \<Rightarrow> (Inl (NotFound jid), m)
      | Some c \<Rightarrow> (Inr (fst (f c)), m\<lparr>contexts := hm_update jid (snd \<circ> f) (contexts m)\<rparr>))"

definition get_memory :: "uuid \<Rightarrow> context_manager \<Rightarrow> job_error + memory" where
  "get_memory jid m = (case hm_get (memories m) jid of Some c \<Rightarrow> Inr c | None \<Rightarrow> Inl (NotFound jid))"

definition update_memory ::
  "uuid \<Rightarrow> (memory \<Rightarrow> 'r \<times> memory) \<Rightarrow> context_manager \<Rightarrow> (job_error + 'r) \<times> context_manager" where
  "update_memory jid f m =
     (case hm_get (memories m) jid of
        None \<Rightarrow> (Inl (NotFound jid), m)
      | Some c \<Rightarrow> (Inr (fst (f c)), m\<lparr>memories := hm_update jid (snd \<circ> f) (memories m)\<rparr>))"

definition active_jobs :: "context_manager \<Rightarrow> uuid list" where
  "active_jobs m = map fst (filter (\<lambda>(_, c). is_active (job_state c)) (contexts m))"

definition all_jobs :: "context_manager \<Rightarrow> uuid list" where
  "all_jobs m = hm_keys (contexts m)"

definition active_jobs_for :: "string \<Rightarrow> context_manager \<Rightarrow> uuid list" where
  "active_jobs_for uid m =
     map fst (filter (\<lambda>(_, c). job_user_id c = uid \<and> is_active (job_state c)) (contexts m))"

definition all_jobs_for :: "string \<Rightarrow> context_manager \<Rightarrow> uuid list" where
  "all_jobs_for uid m = map fst (filter (\<lambda>(_, c). job_user_id c = uid) (contexts m))"

text \<open>The two critical sections of \<open>remove_job\<close>.\<close>

definition take_context :: "uuid \<Rightarrow> context_manager \<Rightarrow> (job_error + job_context) \<times> context_manager" where
  "take_context jid m =
     (case hm_get (contexts m) jid of
        None \<Rightarrow> (Inl (NotFound jid), m)
      | Some c \<Rightarrow> (Inr c, m\<lparr>contexts := hm_remove jid (contexts m)\<rparr>))"

definition take_memory :: "uuid \<Rightarrow> context_manager \<Rightarrow> (job_error + memory) \<times> context_manager" where
  "take_memory jid m =
     (case hm_get (memories m) jid of
        None \<Rightarrow> (Inl (NotFound jid), m)
      | Some c \<Rightarrow> (Inr c, m\<lparr>memories := hm_remove jid (memories m)\<rparr>))"

definition remove_job :: "uuid \<Rightarrow> context_manager \<Rightarrow> (job_error + job_context \<times> memory) \<times> context_manager" where
  "remove_job jid m =
     (case take_context jid m of
        (Inl e, m) \<Rightarrow> (Inl e, m)
      | (Inr c, m) \<Rightarrow>
          (case take_memory jid m of
             (Inl e, m) \<Rightarrow> (Inl e, m)
           | (Inr mem, m) \<Rightarrow> (Inr (c, mem), m)))"

definition find_stuck_jobs :: "context_manager \<Rightarrow> uuid list" where
  "find_stuck_jobs m = map fst (filter (\<lambda>(_, c). job_state c = Job_Stuck) (contexts m))"

record context_summary =
  sum_total :: nat
  sum_pending :: nat
  sum_in_progress :: nat
  sum_completed :: nat
  sum_submitted :: nat
  sum_accepted :: nat
  sum_failed :: nat
  sum_stuck :: nat
  sum_cancelled :: nat

definition summary_zero :: context_summary where
  "summary_zero = \<lparr>sum_total = 0, sum_pending = 0, sum_in_progress = 0, sum_completed = 0,
     sum_submitted = 0, sum_accepted = 0, sum_failed = 0, sum_stuck = 0, sum_cancelled = 0\<rparr>"

definition tally :: "context_summary \<Rightarrow> job_context \<Rightarrow> context_summary" where
  "tally s c = (case job_state c of
     Job_Pending \<Rightarrow> s\<lparr>sum_pending := sum_pending s + 1\<rparr>
   | Job_InProgress \<Rightarrow> s\<lparr>sum_in_progress := sum_in_progress s + 1\<rparr>
   | Job_Completed \<Rightarrow> s\<lparr>sum_completed := sum_completed s + 1\<rparr>
   | Job_Submitted \<Rightarrow> s\<lparr>sum_submitted := sum_submitted s + 1\<rparr>
   | Job_Accepted \<Rightarrow> s\<lparr>sum_accepted := sum_accepted s + 1\<rparr>
   | Job_Failed \<Rightarrow> s\<lparr>sum_failed := sum_failed s + 1\<rparr>
   | Job_Stuck \<Rightarrow> s\<lparr>sum_stuck := sum_stuck s + 1\<rparr>
   | Job_Cancelled \<Rightarrow> s\<lparr>sum_cancelled := sum_cancelled s + 1\<rparr>)"

definition summary :: "context_manager \<Rightarrow> context_summary" where
  "summary m = (foldl tally summary_zero (map snd (contexts m)))\<lparr>sum_total := length (contexts m)\<rparr>"

definition state_counts :: "context_summary \<Rightarrow> nat" where
  "state_counts s = sum_pending s + sum_in_progress s + sum_completed s + sum_submitted s
     + sum_accepted s + sum_failed s + sum_stuck s + sum_cancelled s"

definition summary_for :: "string \<Rightarrow> context_manager \<Rightarrow> context_summary" where
  "summary_for uid m =
     (let s = foldl tally summary_zero (filter (\<lambda>c. job_user_id c = uid) (map snd (contexts m)))
      in s\<lparr>sum_total := state_counts s\<rparr>)"

section \<open>Sequential invariant\<close>

definition manager_wf :: "context_manager \<Rightarrow> bool" where
  "manager_wf m \<longleftrightarrow> hm_wf (contexts m) \<and> hm_wf (memories m)
     \<and> (\<forall>i c. hm_get (contexts m) i = Some c \<longrightarrow> job_id c = i)
     \<and> fst ` set (contexts m) = fst ` set (memories m)
     \<and> active_count m \<le> max_jobs m"

lemma hm_insert_keys: "fst ` set (hm_insert k v m) = insert k (fst ` set m)"
  by (simp add: hm_insert_def dom_update)

lemma hm_remove_keys: "fst ` set (hm_remove k m) = fst ` set m - {k}"
  by (force simp: hm_remove_def)

lemma hm_update_keys: "fst ` set (hm_update k f m) = fst ` set m"
  by (metis hm_keys_update list.set_map)

lemma length_filter_remove: "length (filter p (hm_remove k m)) \<le> length (filter p m)"
  by (induction m) (auto simp: hm_remove_def)

lemma length_filter_insert: "length (filter p (hm_insert k v m)) \<le> Suc (length (filter p m))"
  by (induction m) (auto simp: hm_insert_def)

lemma length_filter_update:
  assumes "\<And>v. p (k, f v) \<Longrightarrow> p (k, v)"
  shows "length (filter p (hm_update k f m)) \<le> length (filter p m)"
proof (induction m)
  case (Cons x m)
  then show ?case using assms by (cases x; cases "fst x = k") (auto simp: hm_update_def)
qed (simp add: hm_update_def)

lemma active_count_insert_context:
  assumes "active_count m \<le> max_jobs m"
  shows "active_count (snd (insert_context i u t d now m)) \<le> max_jobs m
    \<and> max_jobs (snd (insert_context i u t d now m)) = max_jobs m"
proof (cases "active_count m \<ge> max_jobs m")
  case True
  then show ?thesis using assms by (simp add: insert_context_def)
next
  case False
  let ?c = "job_with_user i u t d now" and ?p = "\<lambda>(_ :: uuid, c). is_active (job_state c)"
  have "length (filter ?p (hm_insert (job_id ?c) ?c (contexts m))) \<le> Suc (length (filter ?p (contexts m)))"
    by (rule length_filter_insert)
  with False show ?thesis by (simp add: insert_context_def active_count_def Let_def)
qed

lemma active_count_insert_memory [simp]:
  "active_count (insert_memory j m) = active_count m" "max_jobs (insert_memory j m) = max_jobs m"
  "contexts (insert_memory j m) = contexts m"
  by (simp_all add: insert_memory_def active_count_def)

lemma active_count_update:
  assumes "\<And>c. is_active (job_state (snd (f c))) \<Longrightarrow> is_active (job_state c)"
  shows "active_count (snd (update_context j f m)) \<le> active_count m"
  using assms
  by (auto simp: update_context_def active_count_def split: option.splits intro!: length_filter_update)

lemma active_count_take_context: "active_count (snd (take_context j m)) \<le> active_count m"
  by (auto simp: take_context_def active_count_def split: option.splits intro: length_filter_remove)

text \<open>The public methods, as a machine. Job updates go through the methods of the context.\<close>

datatype manager_op =
    Op_CreateJob uuid string string string datetime
  | Op_UpdateJob uuid job_op
  | Op_UpdateMemory uuid "memory \<Rightarrow> memory"
  | Op_RemoveJob uuid

fun manager_step :: "context_manager \<Rightarrow> manager_op \<Rightarrow> context_manager" where
  "manager_step m (Op_CreateJob i u t d now) = snd (create_job_for_user i u t d now m)"
| "manager_step m (Op_UpdateJob j x) = snd (update_context j (\<lambda>c. ((), job_step c x)) m)"
| "manager_step m (Op_UpdateMemory j f) = snd (update_memory j (\<lambda>c. ((), f c)) m)"
| "manager_step m (Op_RemoveJob j) = snd (remove_job j m)"

lemma job_step_active: "is_active (job_state (job_step c x)) \<Longrightarrow> is_active (job_state c)"
  using job_step_terminal [of c x] by (auto simp: is_active_def)

lemma manager_create_wf:
  assumes "manager_wf m"
  shows "manager_wf (snd (create_job_for_user i u t d now m))"
proof (cases "active_count m \<ge> max_jobs m")
  case True
  then show ?thesis using assms by (simp add: create_job_for_user_def insert_context_def)
next
  case False
  let ?m = "snd (insert_context i u t d now m)"
  have eq: "snd (create_job_for_user i u t d now m) = insert_memory i ?m"
    using False by (simp add: create_job_for_user_def insert_context_def job_with_user_def Let_def)
  have ctx: "contexts ?m = hm_insert i (job_with_user i u t d now) (contexts m)"
    "memories ?m = memories m"
    using False by (simp_all add: insert_context_def job_with_user_def Let_def)
  have "active_count ?m \<le> max_jobs m \<and> max_jobs ?m = max_jobs m"
    using assms by (intro active_count_insert_context) (simp add: manager_wf_def)
  then show ?thesis
    using assms unfolding eq
    by (auto simp: manager_wf_def ctx insert_memory_def active_count_def hm_insert_keys
        hm_get_insert job_with_user_def split: if_splits)
qed

lemma manager_update_wf:
  assumes "manager_wf m"
  shows "manager_wf (snd (update_context j (\<lambda>c. ((), job_step c x)) m))" (is "manager_wf ?m")
proof -
  have "active_count ?m \<le> active_count m"
    by (rule active_count_update) (auto dest: job_step_active)
  then show ?thesis
    using assms
    by (auto simp: manager_wf_def update_context_def hm_update_keys hm_get_update comp_def
        split: option.splits if_splits)
qed

lemma manager_update_memory_wf:
  "manager_wf m \<Longrightarrow> manager_wf (snd (update_memory j f m))"
  by (auto simp: manager_wf_def update_memory_def active_count_def hm_update_keys split: option.splits)

lemma manager_remove_wf:
  assumes "manager_wf m"
  shows "manager_wf (snd (remove_job j m))"
proof (cases "hm_get (contexts m) j")
  case None
  then show ?thesis using assms by (simp add: remove_job_def take_context_def)
next
  case (Some c)
  then obtain mem where mem: "hm_get (memories m) j = Some mem"
    using assms by (metis hm_get_None manager_wf_def not_None_eq option.distinct(1))
  have "snd (remove_job j m) = m\<lparr>contexts := hm_remove j (contexts m), memories := hm_remove j (memories m)\<rparr>"
    using Some mem by (simp add: remove_job_def take_context_def take_memory_def)
  moreover have "active_count (snd (take_context j m)) \<le> active_count m"
    by (rule active_count_take_context)
  ultimately show ?thesis
    using assms Some
    by (auto simp: manager_wf_def take_context_def active_count_def hm_remove_keys hm_get_remove
        split: if_splits)
qed

lemma manager_step_wf: "manager_wf m \<Longrightarrow> manager_wf (manager_step m x)"
  by (cases x) (auto intro: manager_create_wf manager_update_wf manager_update_memory_wf manager_remove_wf)

interpretation manager_machine: invariant_machine manager_step manager_wf
  by unfold_locales (rule manager_step_wf)

lemma manager_new_wf: "manager_wf (manager_new k)"
  by (simp add: manager_wf_def manager_new_def active_count_def)

section \<open>Interleaved callers\<close>

text \<open>
  The state shared by concurrent tasks: the manager, the job identifiers whose creation has
  passed its first critical section, and those whose removal has. One step is one critical
  section of some task.
\<close>

record shared =
  sh_mgr :: context_manager
  creating :: "uuid multiset"
  removing :: "uuid multiset"

inductive critical_section :: "shared \<Rightarrow> shared \<Rightarrow> bool" where
  create_context:
    "insert_context i u t d now (sh_mgr s) = (Inr j, m) \<Longrightarrow>
     critical_section s (s\<lparr>sh_mgr := m, creating := add_mset j (creating s)\<rparr>)"
| create_refused:
    "insert_context i u t d now (sh_mgr s) = (Inl e, m) \<Longrightarrow> critical_section s (s\<lparr>sh_mgr := m\<rparr>)"
| create_memory:
    "j \<in># creating s \<Longrightarrow>
     critical_section s (s\<lparr>sh_mgr := insert_memory j (sh_mgr s), creating := creating s - {#j#}\<rparr>)"
| remove_context:
    "take_context j (sh_mgr s) = (Inr c, m) \<Longrightarrow>
     critical_section s (s\<lparr>sh_mgr := m, removing := add_mset j (removing s)\<rparr>)"
| remove_memory:
    "j \<in># removing s \<Longrightarrow>
     critical_section s (s\<lparr>sh_mgr := snd (take_memory j (sh_mgr s)), removing := removing s - {#j#}\<rparr>)"
| job_update:
    "critical_section s (s\<lparr>sh_mgr := snd (update_context j (\<lambda>c. ((), job_step c x)) (sh_mgr s))\<rparr>)"
| memory_update:
    "critical_section s (s\<lparr>sh_mgr := snd (update_memory j (\<lambda>c. ((), f c)) (sh_mgr s))\<rparr>)"

definition shared_new :: "nat \<Rightarrow> shared" where
  "shared_new k = \<lparr>sh_mgr = manager_new k, creating = {#}, removing = {#}\<rparr>"

inductive shared_reachable :: "nat \<Rightarrow> shared \<Rightarrow> bool" for k where
  shared_start: "shared_reachable k (shared_new k)"
| shared_step: "shared_reachable k s \<Longrightarrow> critical_section s t \<Longrightarrow> shared_reachable k t"

definition within_cap :: "context_manager \<Rightarrow> bool" where
  "within_cap m \<longleftrightarrow> active_count m \<le> max_jobs m"

lemma take_memory_fields [simp]:
  "active_count (snd (take_memory j m)) = active_count m" "max_jobs (snd (take_memory j m)) = max_jobs m"
  by (auto simp: take_memory_def active_count_def split: option.splits)

lemma update_memory_fields [simp]:
  "active_count (snd (update_memory j f m)) = active_count m" "max_jobs (snd (update_memory j f m)) = max_jobs m"
  by (auto simp: update_memory_def active_count_def split: option.splits)

lemma max_jobs_fields [simp]:
  "max_jobs (snd (update_context j g m)) = max_jobs m" "max_jobs (snd (take_context j m)) = max_jobs m"
  by (auto simp: update_context_def take_context_def split: option.splits)

lemma critical_section_cap:
  "critical_section s t \<Longrightarrow> within_cap (sh_mgr s) \<Longrightarrow>
   within_cap (sh_mgr t) \<and> max_jobs (sh_mgr t) = max_jobs (sh_mgr s)"
proof (induction rule: critical_section.induct)
  case (create_context i u t d now s j m)
  then show ?case using active_count_insert_context [of "sh_mgr s" i u t d now] by (simp add: within_cap_def)
next
  case (create_refused i u t d now s e m)
  then show ?case using active_count_insert_context [of "sh_mgr s" i u t d now] by (simp add: within_cap_def)
next
  case (remove_context j s c m)
  then show ?case
    using active_count_take_context [of j "sh_mgr s"] max_jobs_fields(2) [of j "sh_mgr s"]
    by (simp add: within_cap_def)
next
  case (job_update s j x)
  have "active_count (snd (update_context j (\<lambda>c. ((), job_step c x)) (sh_mgr s))) \<le> active_count (sh_mgr s)"
    by (rule active_count_update) (auto dest: job_step_active)
  with job_update show ?case by (simp add: within_cap_def)
qed (auto simp: within_cap_def)

lemma shared_reachable_cap:
  "shared_reachable k s \<Longrightarrow> within_cap (sh_mgr s) \<and> max_jobs (sh_mgr s) = k"
  by (induction rule: shared_reachable.induct)
    (auto simp: shared_new_def manager_new_def within_cap_def active_count_def dest: critical_section_cap)

section \<open>Summaries\<close>

lemma state_counts_tally: "state_counts (tally s c) = Suc (state_counts s)"
  by (auto simp: state_counts_def tally_def split: job_state.splits)

lemma state_counts_foldl: "state_counts (foldl tally s cs) = state_counts s + length cs"
  by (induction cs arbitrary: s) (auto simp: state_counts_tally)

lemma state_counts_total [simp]: "state_counts (s\<lparr>sum_total := n\<rparr>) = state_counts s"
  by (simp add: state_counts_def)

lemma sum_stuck_foldl:
  "sum_stuck (foldl tally s cs) = sum_stuck s + length (filter (\<lambda>c. job_state c = Job_Stuck) cs)"
  by (induction cs arbitrary: s) (auto simp: tally_def split: job_state.splits)

section \<open>Theorems\<close>

text \<open>
  C28. Whatever the interleaving of concurrent callers at the granularity of the two locks
  (jobs being created, updated through their methods, and removed by any number of tasks),
  the number of active jobs never exceeds the configured maximum.
\<close>

theorem job_cap_holds:
  assumes "shared_reachable k s"
  shows "active_count (sh_mgr s) \<le> k"
  using shared_reachable_cap [OF assms] by (simp add: within_cap_def)

theorem job_cap_holds_witness:
  "\<exists>s. shared_reachable 1 s \<and> active_count (sh_mgr s) = 1 \<and> active_count (sh_mgr s) \<le> 1"
proof -
  let ?s = "(shared_new 1)\<lparr>sh_mgr := snd (insert_context 7 ''u'' ''t'' ''d'' 0 (manager_new 1)),
                            creating := {#7#}\<rparr>"
  have reach: "shared_reachable 1 ?s"
    by (rule shared_step [OF shared_start])
      (use create_context [of 7 "''u''" "''t''" "''d''" 0 "shared_new 1" 7
          "snd (insert_context 7 ''u'' ''t'' ''d'' 0 (manager_new 1))"]
        in \<open>simp add: shared_new_def insert_context_def manager_new_def active_count_def job_with_user_def\<close>)
  then have "active_count (sh_mgr ?s) \<le> 1" by (rule job_cap_holds)
  moreover have "active_count (sh_mgr ?s) = 1"
    by (simp add: insert_context_def manager_new_def active_count_def job_with_user_def is_active_def
        is_terminal_def hm_insert_def)
  ultimately show ?thesis using reach by blast
qed

text \<open>
  When the methods of the manager run one after the other, every job has exactly one
  memory and every memory a job, contexts are filed under their own identifier, and the cap on
  active jobs holds.
\<close>

theorem manager_sequential_wf: "manager_wf (foldl manager_step (manager_new k) xs)"
  by (rule manager_machine.run_inv) (rule manager_new_wf)

text \<open>
  The summary of all jobs accounts for each job exactly once: its per-state counts add up
  to the total, which is the number of jobs, and the stuck count is the number of jobs
  \<open>find_stuck_jobs\<close> reports.
\<close>

theorem summary_accounts:
  "state_counts (summary m) = sum_total (summary m) \<and> sum_total (summary m) = length (all_jobs m)
   \<and> sum_stuck (summary m) = length (find_stuck_jobs m)
   \<and> sum_total (summary_for uid m) = length (all_jobs_for uid m)"
proof -
  have "length (filter (\<lambda>c. P c) (map snd xs)) = length (filter (\<lambda>(_, c). P c) xs)" for P and xs :: "(uuid \<times> job_context) list"
    by (induction xs) auto
  then show ?thesis
    by (simp add: summary_def summary_for_def state_counts_foldl sum_stuck_foldl all_jobs_def hm_keys_def
        find_stuck_jobs_def all_jobs_for_def Let_def)
      (simp add: state_counts_def summary_zero_def)
qed

text \<open>
  The two locks of \<open>remove_job\<close> and \<open>create_job_for_user\<close> are not held together: when
  a job is removed between the two critical sections of its creation, the removal fails to
  find the memory and the creation then stores one, so that at rest a memory is left behind
  that belongs to no job.
\<close>

theorem orphan_memory_reachable:
  "\<exists>s. shared_reachable 1 s \<and> creating s = {#} \<and> removing s = {#}
     \<and> hm_get (contexts (sh_mgr s)) 7 = None \<and> hm_get (memories (sh_mgr s)) 7 \<noteq> None"
proof -
  let ?c = "job_with_user 7 ''u'' ''t'' ''d'' 0"
  let ?m0 = "manager_new 1"
  let ?m1 = "?m0\<lparr>contexts := [(7, ?c)]\<rparr>"
  let ?s0 = "shared_new 1"
  let ?s1 = "?s0\<lparr>sh_mgr := ?m1, creating := {#7#}\<rparr>"
  let ?s2 = "?s1\<lparr>sh_mgr := ?m0, removing := {#7#}\<rparr>"
  let ?s3 = "?s2\<lparr>removing := {#}\<rparr>"
  let ?s4 = "?s3\<lparr>sh_mgr := insert_memory 7 ?m0, creating := {#}\<rparr>"
  note defs = shared_new_def manager_new_def insert_context_def active_count_def job_with_user_def
    hm_insert_def take_context_def take_memory_def hm_get_def hm_remove_def
  have "critical_section ?s0 ?s1"
    using create_context [of 7 "''u''" "''t''" "''d''" 0 ?s0 7 ?m1] by (simp add: defs)
  moreover have "critical_section ?s1 ?s2"
    using remove_context [of 7 ?s1 ?c ?m0] by (simp add: defs)
  moreover have "critical_section ?s2 ?s3"
    using remove_memory [of 7 ?s2] by (simp add: defs)
  moreover have "critical_section ?s3 ?s4"
    using create_memory [of 7 ?s3] by (simp add: defs)
  ultimately have "shared_reachable 1 ?s4"
    by (meson shared_start shared_step)
  then show ?thesis
    by (intro exI [of _ ?s4]) (simp add: defs insert_memory_def)
qed

end
