(* ===== verification/Provider.thy ===== *)
theory Provider
  imports Llm_Types
begin

text \<open>
  The interface of LLM providers and their decorators. A provider is a function from a request
  and the state of the world to a result and the next state; the world holds the backend, the
  clock and the random number generator. The type is polymorphic in requests and responses
  because \<open>complete\<close> and \<open>complete_with_tools\<close> have the same shape, and the decorators treat
  them alike.
\<close>

type_synonym ('q, 'p, 's) provider = "'q \<Rightarrow> 's \<Rightarrow> (llm_error + 'p) \<times> 's"

text \<open>
  A provider is sound for a relation between requests and acceptable responses, relative to an
  invariant of the world, when every call keeps the invariant and every response it returns is
  acceptable for the request.
\<close>

definition provider_ok :: "('q, 'p, 's) provider \<Rightarrow> ('s \<Rightarrow> bool) \<Rightarrow> ('q \<Rightarrow> 'p \<Rightarrow> bool) \<Rightarrow> bool" where
  "provider_ok call ok acceptable \<longleftrightarrow>
     (\<forall>r s. ok s \<longrightarrow> ok (snd (call r s)) \<and> (\<forall>p. fst (call r s) = Inr p \<longrightarrow> acceptable r p))"

lemma provider_okI:
  assumes "\<And>r s. ok s \<Longrightarrow> ok (snd (call r s))"
    and "\<And>r s p. ok s \<Longrightarrow> fst (call r s) = Inr p \<Longrightarrow> acceptable r p"
  shows "provider_ok call ok acceptable"
  using assms by (auto simp: provider_ok_def)

lemma provider_ok_pairI:
  assumes "\<And>r c s. holds c s \<Longrightarrow> (case snd (call r (c, s)) of (c, s) \<Rightarrow> holds c s)
    \<and> (\<forall>p. fst (call r (c, s)) = Inr p \<longrightarrow> acceptable r p)"
  shows "provider_ok call (\<lambda>(c, s). holds c s) acceptable"
  using assms by (auto simp: provider_ok_def split_beta)

lemma provider_ok_state: "provider_ok call ok acceptable \<Longrightarrow> ok s \<Longrightarrow> ok (snd (call r s))"
  by (simp add: provider_ok_def)

lemma provider_ok_response:
  "provider_ok call ok acceptable \<Longrightarrow> ok s \<Longrightarrow> fst (call r s) = Inr p \<Longrightarrow> acceptable r p"
  by (simp add: provider_ok_def)

lemma provider_ok_run:
  "provider_ok call ok acceptable \<Longrightarrow> ok t \<Longrightarrow> ok (foldl (\<lambda>t r. snd (call r t)) t rs)"
  by (induction rs arbitrary: t) (auto intro: provider_ok_state)

text \<open>
  A decorator turns a provider over one world into a provider over a larger one. Its law: for
  every notion of acceptable response it supports, a sound provider stays sound, with the
  invariant lifted to the decorator's own state.
\<close>

locale sound_decorator =
  fixes wrap :: "('q, 'p, 's) provider \<Rightarrow> ('q, 'p, 't) provider"
    and lift :: "('s \<Rightarrow> bool) \<Rightarrow> ('q \<Rightarrow> 'p \<Rightarrow> bool) \<Rightarrow> 't \<Rightarrow> bool"
    and supports :: "('s \<Rightarrow> bool) \<Rightarrow> ('q \<Rightarrow> 'p \<Rightarrow> bool) \<Rightarrow> bool"
  assumes wrap_ok: "supports ok acceptable \<Longrightarrow> provider_ok call ok acceptable \<Longrightarrow>
    provider_ok (wrap call) (lift ok acceptable) acceptable"
begin

lemma wrapped_response:
  "supports ok acceptable \<Longrightarrow> provider_ok call ok acceptable \<Longrightarrow> lift ok acceptable t \<Longrightarrow>
   fst (wrap call r t) = Inr p \<Longrightarrow> acceptable r p"
  using wrap_ok by (blast intro: provider_ok_response)

lemma wrapped_run:
  assumes "supports ok acceptable" and "provider_ok call ok acceptable" and "lift ok acceptable t"
  shows "lift ok acceptable (foldl (\<lambda>t r. snd (wrap call r t)) t rs)"
  using wrap_ok [OF assms(1,2)] assms(3) by (rule provider_ok_run)

end

text \<open>Two decorators on top of each other are a decorator.\<close>

locale decorator_stack =
  inner: sound_decorator wrap1 lift1 supports1 + outer: sound_decorator wrap2 lift2 supports2
  for wrap1 :: "('q, 'p, 's) provider \<Rightarrow> ('q, 'p, 't) provider" and lift1 supports1
    and wrap2 :: "('q, 'p, 't) provider \<Rightarrow> ('q, 'p, 'u) provider" and lift2 supports2
begin

lemma stack_ok:
  assumes "supports1 ok acceptable" and "supports2 (lift1 ok acceptable) acceptable"
    and "provider_ok call ok acceptable"
  shows "provider_ok (wrap2 (wrap1 call)) (lift2 (lift1 ok acceptable) acceptable) acceptable"
  using assms by (intro outer.wrap_ok inner.wrap_ok)

end

sublocale decorator_stack \<subseteq> stack: sound_decorator "\<lambda>call. wrap2 (wrap1 call)"
  "\<lambda>ok acceptable. lift2 (lift1 ok acceptable) acceptable"
  "\<lambda>ok acceptable. supports1 ok acceptable \<and> supports2 (lift1 ok acceptable) acceptable"
  by unfold_locales (auto intro: stack_ok)

end
