(* ===== verification/Retry.thy ===== *)
theory Retry
  imports Provider
begin

text \<open>
  \<open>src/llm/retry.rs\<close>: which errors are retried, the back-off delay, and the retry decorator.
  The random offset of the jitter and the effect of sleeping are functions of the world.
\<close>

fun is_retryable :: "llm_error \<Rightarrow> bool" where
  "is_retryable (RequestFailed _ _) = True"
| "is_retryable (RateLimited _ _) = True"
| "is_retryable (InvalidResponse _ _) = True"
| "is_retryable (SessionRenewalFailed _ _) = True"
| "is_retryable (Http _) = True"
| "is_retryable (Io _) = True"
| "is_retryable _ = False"

section \<open>Back-off\<close>

text \<open>
  The arithmetic is the source's: \<open>saturating_pow\<close> and \<open>saturating_mul\<close> on \<open>u64\<close>, then a
  reinterpretation of the bits as \<open>i64\<close> for the signed sum and the comparison with 100.
\<close>

definition U64_MAX :: nat where
  "U64_MAX = 2 ^ 64 - 1"

definition base_ms :: "nat \<Rightarrow> u64" where
  "base_ms attempt = of_nat (min U64_MAX (1000 * min U64_MAX (2 ^ attempt)))"

definition jitter_range :: "nat \<Rightarrow> u64" where
  "jitter_range attempt = base_ms attempt div 4"

definition retry_backoff_delay :: "nat \<Rightarrow> u64 \<Rightarrow> u64" where
  "retry_backoff_delay attempt offset =
     (let jitter = (if jitter_range attempt > 0 then offset - jitter_range attempt else 0);
          total = base_ms attempt + jitter
      in if sint total < 100 then 100 else total)"

section \<open>The decorator\<close>

record retry_config =
  max_retries :: nat

definition retry_config_default :: retry_config where
  "retry_config_default = \<lparr>max_retries = 3\<rparr>"

definition retry_delay :: "llm_error \<Rightarrow> nat \<Rightarrow> u64 \<Rightarrow> duration" where
  "retry_delay err attempt offset = (case err of
     RateLimited _ (Some d) \<Rightarrow> d
   | _ \<Rightarrow> unat (retry_backoff_delay attempt offset) * 1000000)"

text \<open>
  The loop over \<open>0..=max_retries\<close>, with the number of attempts that remain as the first
  argument: it is 0 exactly when \<open>attempt == max_retries\<close>.
\<close>

fun retry_loop ::
  "(duration \<Rightarrow> 's \<Rightarrow> 's) \<Rightarrow> ('s \<Rightarrow> u64) \<Rightarrow> ('q, 'p, 's) provider \<Rightarrow> nat \<Rightarrow> nat \<Rightarrow> ('q, 'p, 's) provider" where
  "retry_loop sleep rand call remaining attempt r s =
     (case call r s of
        (Inr p, s') \<Rightarrow> (Inr p, s')
      | (Inl e, s') \<Rightarrow>
          (if \<not> is_retryable e \<or> remaining = 0 then (Inl e, s')
           else retry_loop sleep rand call (remaining - 1) (attempt + 1) r
                  (sleep (retry_delay e attempt (rand s')) s')))"

declare retry_loop.simps [simp del]

definition retry_complete ::
  "(duration \<Rightarrow> 's \<Rightarrow> 's) \<Rightarrow> ('s \<Rightarrow> u64) \<Rightarrow> retry_config \<Rightarrow> ('q, 'p, 's) provider \<Rightarrow> ('q, 'p, 's) provider" where
  "retry_complete sleep rand cfg call r s = retry_loop sleep rand call (max_retries cfg) 0 r s"

definition retry_complete_with_tools ::
  "(duration \<Rightarrow> 's \<Rightarrow> 's) \<Rightarrow> ('s \<Rightarrow> u64) \<Rightarrow> retry_config \<Rightarrow> ('q, 'p, 's) provider \<Rightarrow> ('q, 'p, 's) provider" where
  "retry_complete_with_tools sleep rand cfg call r s = retry_loop sleep rand call (max_retries cfg) 0 r s"

section \<open>The attempts\<close>

text \<open>The \<open>k\<close>-th attempt, made after \<open>k\<close> failures and sleeps.\<close>

fun nth_attempt ::
  "(duration \<Rightarrow> 's \<Rightarrow> 's) \<Rightarrow> ('s \<Rightarrow> u64) \<Rightarrow> ('q, 'p, 's) provider \<Rightarrow> nat \<Rightarrow> 'q \<Rightarrow> 's \<Rightarrow> nat \<Rightarrow> (llm_error + 'p) \<times> 's" where
  "nth_attempt sleep rand call a r s 0 = call r s"
| "nth_attempt sleep rand call a r s (Suc k) =
     (case call r s of
        (Inr p, s') \<Rightarrow> (Inr p, s')
      | (Inl e, s') \<Rightarrow> nth_attempt sleep rand call (Suc a) r (sleep (retry_delay e a (rand s')) s') k)"

definition retryable_failure :: "(llm_error + 'p) \<times> 's \<Rightarrow> bool" where
  "retryable_failure res = (case fst res of Inl e \<Rightarrow> is_retryable e | Inr _ \<Rightarrow> False)"

lemma retry_loop_attempts:
  "\<exists>k \<le> n. retry_loop sleep rand call n a r s = nth_attempt sleep rand call a r s k
     \<and> (\<forall>j < k. retryable_failure (nth_attempt sleep rand call a r s j))
     \<and> (k = n \<or> \<not> retryable_failure (nth_attempt sleep rand call a r s k))"
proof (induction n arbitrary: a s)
  case 0
  show ?case
    by (subst retry_loop.simps) (auto split: prod.splits sum.splits)
next
  case (Suc n)
  obtain res s' where c: "call r s = (res, s')" by (cases "call r s")
  show ?case
  proof (cases "retryable_failure (call r s)")
    case False
    then have "retry_loop sleep rand call (Suc n) a r s = nth_attempt sleep rand call a r s 0"
      by (subst retry_loop.simps) (auto simp: retryable_failure_def c split: sum.splits)
    with False show ?thesis by (intro exI [of _ 0]) auto
  next
    case True
    then obtain e where e: "res = Inl e" "is_retryable e"
      by (auto simp: retryable_failure_def c split: sum.splits)
    let ?s = "sleep (retry_delay e a (rand s')) s'"
    have shift: "nth_attempt sleep rand call a r s (Suc j) = nth_attempt sleep rand call (Suc a) r ?s j" for j
      by (simp add: c e)
    have step: "retry_loop sleep rand call (Suc n) a r s = retry_loop sleep rand call n (Suc a) r ?s"
      by (subst retry_loop.simps) (simp add: c e)
    obtain k where k: "k \<le> n" "retry_loop sleep rand call n (Suc a) r ?s = nth_attempt sleep rand call (Suc a) r ?s k"
      "\<forall>j < k. retryable_failure (nth_attempt sleep rand call (Suc a) r ?s j)"
      "k = n \<or> \<not> retryable_failure (nth_attempt sleep rand call (Suc a) r ?s k)"
      using Suc.IH by blast
    have "retryable_failure (nth_attempt sleep rand call a r s j)" if "j < Suc k" for j
      using that True k(3) shift by (cases j) auto
    with k shift step show ?thesis by (intro exI [of _ "Suc k"]) auto
  qed
qed

section \<open>Soundness\<close>

lemma retry_loop_ok:
  assumes "provider_ok call ok acceptable" and "\<And>d s. ok s \<Longrightarrow> ok (sleep d s)" and "ok s"
  shows "ok (snd (retry_loop sleep rand call n a r s))
    \<and> (fst (retry_loop sleep rand call n a r s) = Inr p \<longrightarrow> acceptable r p)"
  using assms(3)
proof (induction n arbitrary: a s)
  case 0
  then show ?case
    using provider_ok_state [OF assms(1), of s r] provider_ok_response [OF assms(1), of s r]
    by (subst retry_loop.simps, subst retry_loop.simps) (auto split: prod.splits sum.splits)
next
  case (Suc n)
  obtain res s' where c: "call r s = (res, s')" by (cases "call r s")
  have "ok s'" using provider_ok_state [OF assms(1) Suc.prems, of r] c by simp
  then have IH: "ok (snd (retry_loop sleep rand call n (a + 1) r (sleep d s')))
      \<and> (fst (retry_loop sleep rand call n (a + 1) r (sleep d s')) = Inr p \<longrightarrow> acceptable r p)" for d
    using Suc.IH [of "sleep d s'" "a + 1"] assms(2) by blast
  show ?case
    using IH \<open>ok s'\<close> provider_ok_response [OF assms(1) Suc.prems, of r]
    by (subst retry_loop.simps, subst retry_loop.simps) (auto simp: c split: sum.splits)
qed

lemma retry_complete_ok:
  assumes "\<forall>d s. ok s \<longrightarrow> ok (sleep d s)" and "provider_ok call ok acceptable"
  shows "provider_ok (retry_complete sleep rand cfg call) ok acceptable"
  using retry_loop_ok [OF assms(2), of sleep] assms(1)
  by (intro provider_okI) (auto simp: retry_complete_def)

interpretation retry: sound_decorator "retry_complete sleep rand cfg" "\<lambda>ok _. ok"
  "\<lambda>ok _. \<forall>d s. ok s \<longrightarrow> ok (sleep d s)"
  by unfold_locales (rule retry_complete_ok)

section \<open>Delay bounds\<close>

lemma base_ms_small: "attempt \<le> 52 \<Longrightarrow> unat (base_ms attempt) = 1000 * 2 ^ attempt"
proof -
  assume "attempt \<le> 52"
  then have "(2::nat) ^ attempt \<le> 2 ^ 52"
    by (intro power_increasing) auto
  then have "min U64_MAX (1000 * min U64_MAX (2 ^ attempt)) = 1000 * 2 ^ attempt"
    and "1000 * (2::nat) ^ attempt < 2 ^ LENGTH(64)"
    by (simp_all add: U64_MAX_def)
  then show ?thesis
    unfolding base_ms_def by (simp only: unat_of_nat mod_less)
qed

lemma jitter_range_small: "attempt \<le> 52 \<Longrightarrow> unat (jitter_range attempt) = 250 * 2 ^ attempt"
  using base_ms_small [of attempt] by (simp add: jitter_range_def unat_div_distrib)

lemma sint_small: "unat (w :: u64) < 2 ^ 63 \<Longrightarrow> sint w = int (unat w)"
proof -
  assume "unat w < 2 ^ 63"
  then have "uint w < 2 ^ 63"
    by (metis of_nat_less_iff of_nat_numeral of_nat_power uint_nat)
  then have "signed_take_bit 63 (uint w) = uint w"
    by (intro signed_take_bit_int_eq_self) (auto intro: order_trans [of _ 0])
  then show ?thesis by (simp add: sint_uint)
qed

lemma total_delay:
  assumes "attempt \<le> 52" and "unat offset \<le> 2 * unat (jitter_range attempt)"
  shows "unat (base_ms attempt + (offset - jitter_range attempt)) = 750 * 2 ^ attempt + unat offset"
    and "750 * 2 ^ attempt + unat offset < (2::nat) ^ 63"
proof -
  have p: "(2::nat) ^ attempt \<le> 2 ^ 52"
    using assms(1) by (intro power_increasing) auto
  have off: "unat offset \<le> 500 * 2 ^ attempt"
    using assms by (simp add: jitter_range_small)
  then show bound: "750 * 2 ^ attempt + unat offset < (2::nat) ^ 63"
    using p by simp
  have le: "jitter_range attempt \<le> base_ms attempt"
    using assms(1) by (simp add: word_le_nat_alt base_ms_small jitter_range_small)
  let ?d = "base_ms attempt - jitter_range attempt"
  have "unat ?d = 750 * 2 ^ attempt"
    using le assms(1) by (simp add: unat_sub base_ms_small jitter_range_small)
  then have "unat (?d + offset) = 750 * 2 ^ attempt + unat offset"
    using bound by (simp only: unat_word_ariths) simp
  moreover have "base_ms attempt + (offset - jitter_range attempt) = ?d + offset"
    by simp
  ultimately show "unat (base_ms attempt + (offset - jitter_range attempt)) = 750 * 2 ^ attempt + unat offset"
    by (simp only:)
qed

section \<open>Theorems\<close>

text \<open>
  The retry decorator returns the outcome of one of its attempts, after at most
  \<open>max_retries\<close> earlier ones that all failed with a retryable error; it stops before its last
  attempt only when an attempt succeeds or fails with an error that is not retryable. So it
  always returns, makes at most \<open>max_retries + 1\<close> calls, and never hides a success.
\<close>

theorem retry_outcome:
  "\<exists>k \<le> max_retries cfg.
     retry_complete sleep rand cfg call r s = nth_attempt sleep rand call 0 r s k
     \<and> (\<forall>j < k. retryable_failure (nth_attempt sleep rand call 0 r s j))
     \<and> (k = max_retries cfg \<or> \<not> retryable_failure (nth_attempt sleep rand call 0 r s k))"
  using retry_loop_attempts [of "max_retries cfg" sleep rand call 0 r s]
  by (auto simp: retry_complete_def)

theorem retry_outcome_witness:
  "let call = \<lambda>r s. if s = 0 then (Inl (Http ''reset''), 1) else (Inr (r + s), s + 1 :: nat)
   in retry_complete (\<lambda>_ s. s) (\<lambda>_. 0) \<lparr>max_retries = 2\<rparr> call 10 0 = (Inr 11, 2)
      \<and> (\<exists>k \<le> 2. retry_complete (\<lambda>_ s. s) (\<lambda>_. 0) \<lparr>max_retries = 2\<rparr> call 10 0
           = nth_attempt (\<lambda>_ s. s) (\<lambda>_. 0) call 0 10 0 k \<and> 0 < k)"
proof -
  let ?call = "\<lambda>r s. if s = 0 then (Inl (Http ''reset''), 1) else (Inr (r + s), s + 1 :: nat)"
  have run: "retry_complete (\<lambda>_ s. s) (\<lambda>_. 0) \<lparr>max_retries = 2\<rparr> ?call 10 0 = (Inr 11, 2)"
    by (simp add: retry_complete_def retry_loop.simps)
  obtain k where "k \<le> 2" and k: "retry_complete (\<lambda>_ s. s) (\<lambda>_. 0) \<lparr>max_retries = 2\<rparr> ?call 10 0
      = nth_attempt (\<lambda>_ s. s) (\<lambda>_. 0) ?call 0 10 0 k"
    using retry_outcome [of "\<lparr>max_retries = 2\<rparr>" "\<lambda>_ s. s" "\<lambda>_. 0" ?call 10 0] by auto
  moreover from run k have "0 < k"
    by (cases k) auto
  ultimately show ?thesis
    using run by (auto simp: Let_def)
qed

text \<open>
  For the first 53 attempts the back-off delay is the documented one: one second doubled
  each time, give or take at most a quarter, for every random offset the generator may draw
  from its range; no arithmetic overflows on the way.
\<close>

theorem backoff_delay_bounds:
  assumes "attempt \<le> 52" and "offset \<le> 2 * jitter_range attempt"
  shows "750 * 2 ^ attempt \<le> unat (retry_backoff_delay attempt offset)
    \<and> unat (retry_backoff_delay attempt offset) \<le> 1250 * 2 ^ attempt"
proof -
  have p: "(2::nat) ^ attempt \<le> 2 ^ 52" "1 \<le> (2::nat) ^ attempt"
    using power_increasing [OF assms(1), of "2 :: nat"] by simp_all
  have "unat (2 * jitter_range attempt) = 2 * unat (jitter_range attempt)"
    using p assms(1) by (simp add: unat_word_ariths jitter_range_small)
  then have off: "unat offset \<le> 2 * unat (jitter_range attempt)"
    using assms(2) by (simp add: word_le_nat_alt)
  let ?t = "base_ms attempt + (offset - jitter_range attempt)"
  have t: "unat ?t = 750 * 2 ^ attempt + unat offset" "unat ?t < 2 ^ 63"
    using total_delay [OF assms(1) off] by auto
  have "sint ?t = int (unat ?t)"
    using t(2) by (rule sint_small)
  moreover have "100 \<le> unat ?t"
    using t(1) p(2) by linarith
  ultimately have "\<not> sint ?t < 100"
    by linarith
  moreover have "0 < jitter_range attempt"
    using p assms(1) by (simp add: word_less_nat_alt jitter_range_small)
  ultimately have "retry_backoff_delay attempt offset = ?t"
    by (simp add: retry_backoff_delay_def Let_def)
  then show ?thesis
    using t(1) off assms(1) by (simp add: jitter_range_small)
qed

theorem backoff_delay_bounds_witness:
  "3000 \<le> unat (retry_backoff_delay 2 700) \<and> unat (retry_backoff_delay 2 700) \<le> 5000"
proof -
  have "jitter_range 2 = 1000"
    by (simp add: jitter_range_def base_ms_def U64_MAX_def)
  then show ?thesis using backoff_delay_bounds [of 2 700] by simp
qed

text \<open>
  From attempt 54 on the back-off collapses: one thousand times two to the 54 no longer fits
  in \<open>i64\<close>, its bits read as a negative number, and with the smallest jitter the delay drops
  to the 100 millisecond floor instead of growing.
\<close>

theorem backoff_delay_collapses: "retry_backoff_delay 54 0 = 100 \<and> unat (base_ms 54) = 1000 * 2 ^ 54"
  by (simp add: retry_backoff_delay_def jitter_range_def base_ms_def U64_MAX_def)

end
