(* ===== verification/Circuit_Breaker.thy ===== *)
theory Circuit_Breaker
  imports Provider Retry
begin

text \<open>
  \<open>src/llm/circuit_breaker.rs\<close>: the breaker's state machine, its three critical sections
  (pre-flight check, record success, record failure), the decorator, and the interleavings of
  concurrent calls, since the lock is not held while the inner provider runs. Counters are
  \<open>u32\<close>.
\<close>

record circuit_breaker_config =
  failure_threshold :: u32
  recovery_timeout :: duration
  half_open_successes_needed :: u32

definition circuit_breaker_config_default :: circuit_breaker_config where
  "circuit_breaker_config_default = \<lparr>failure_threshold = 5, recovery_timeout = secs 30,
     half_open_successes_needed = 2\<rparr>"

datatype circuit_state = Closed | Open | HalfOpen

record breaker_state =
  bs_state :: circuit_state
  consecutive_failures :: u32
  opened_at :: "instant option"
  half_open_successes :: u32

definition breaker_new :: breaker_state where
  "breaker_new = \<lparr>bs_state = Closed, consecutive_failures = 0, opened_at = None, half_open_successes = 0\<rparr>"

fun is_transient :: "llm_error \<Rightarrow> bool" where
  "is_transient (RequestFailed _ _) = True"
| "is_transient (RateLimited _ _) = True"
| "is_transient (InvalidResponse _ _) = True"
| "is_transient (SessionExpired _) = True"
| "is_transient (SessionRenewalFailed _ _) = True"
| "is_transient (Http _) = True"
| "is_transient (Io _) = True"
| "is_transient _ = False"

text \<open>
  The rejection carries the provider's name and a text with the number of failures and the
  remaining time; the rendering of that time (\<open>{:.0}\<close> of the seconds as \<open>f64\<close>) is the
  argument \<open>show_secs\<close>.
\<close>

definition check_allowed ::
  "circuit_breaker_config \<Rightarrow> string \<Rightarrow> (duration \<Rightarrow> string) \<Rightarrow> instant \<Rightarrow> breaker_state
   \<Rightarrow> (llm_error + unit) \<times> breaker_state" where
  "check_allowed cfg name show_secs now b =
     (case bs_state b of
        Closed \<Rightarrow> (Inr (), b)
      | HalfOpen \<Rightarrow> (Inr (), b)
      | Open \<Rightarrow>
          (case opened_at b of
             Some t \<Rightarrow>
               (if now - t \<ge> recovery_timeout cfg
                then (Inr (), b\<lparr>bs_state := HalfOpen, half_open_successes := 0\<rparr>)
                else (Inl (RequestFailed name
                       (''Circuit breaker open ('' @ show_nat (unat (consecutive_failures b))
                        @ '' consecutive failures, recovery in ''
                        @ show_secs (recovery_timeout cfg - (now - t)) @ ''s)'')), b))
           | None \<Rightarrow> (Inr (), b\<lparr>bs_state := Closed\<rparr>)))"

definition record_success :: "circuit_breaker_config \<Rightarrow> breaker_state \<Rightarrow> breaker_state" where
  "record_success cfg b =
     (case bs_state b of
        Closed \<Rightarrow> b\<lparr>consecutive_failures := 0\<rparr>
      | HalfOpen \<Rightarrow>
          (let b = b\<lparr>half_open_successes := half_open_successes b + 1\<rparr>
           in if half_open_successes b \<ge> half_open_successes_needed cfg
              then b\<lparr>bs_state := Closed, consecutive_failures := 0, opened_at := None\<rparr>
              else b)
      | Open \<Rightarrow> b\<lparr>bs_state := Closed, consecutive_failures := 0, opened_at := None\<rparr>)"

definition record_failure :: "circuit_breaker_config \<Rightarrow> instant \<Rightarrow> llm_error \<Rightarrow> breaker_state \<Rightarrow> breaker_state" where
  "record_failure cfg now err b =
     (if \<not> is_transient err then b
      else case bs_state b of
        Closed \<Rightarrow>
          (let b = b\<lparr>consecutive_failures := consecutive_failures b + 1\<rparr>
           in if consecutive_failures b \<ge> failure_threshold cfg
              then b\<lparr>bs_state := Open, opened_at := Some now\<rparr> else b)
      | HalfOpen \<Rightarrow> b\<lparr>bs_state := Open, opened_at := Some now, half_open_successes := 0\<rparr>
      | Open \<Rightarrow> b)"

text \<open>The decorator: the clock is read from the world.\<close>

definition breaker_complete ::
  "circuit_breaker_config \<Rightarrow> string \<Rightarrow> (duration \<Rightarrow> string) \<Rightarrow> ('s \<Rightarrow> instant) \<Rightarrow> ('q, 'p, 's) provider
   \<Rightarrow> ('q, 'p, breaker_state \<times> 's) provider" where
  "breaker_complete cfg name show_secs now call r bs =
     (case bs of (b, s) \<Rightarrow>
       (case check_allowed cfg name show_secs (now s) b of
          (Inl e, b) \<Rightarrow> (Inl e, (b, s))
        | (Inr _, b) \<Rightarrow>
            (case call r s of
               (Inr p, s') \<Rightarrow> (Inr p, (record_success cfg b, s'))
             | (Inl e, s') \<Rightarrow> (Inl e, (record_failure cfg (now s') e b, s')))))"

definition breaker_complete_with_tools ::
  "circuit_breaker_config \<Rightarrow> string \<Rightarrow> (duration \<Rightarrow> string) \<Rightarrow> ('s \<Rightarrow> instant) \<Rightarrow> ('q, 'p, 's) provider
   \<Rightarrow> ('q, 'p, breaker_state \<times> 's) provider" where
  "breaker_complete_with_tools cfg name show_secs now call r bs =
     (case bs of (b, s) \<Rightarrow>
       (case check_allowed cfg name show_secs (now s) b of
          (Inl e, b) \<Rightarrow> (Inl e, (b, s))
        | (Inr _, b) \<Rightarrow>
            (case call r s of
               (Inr p, s') \<Rightarrow> (Inr p, (record_success cfg b, s'))
             | (Inl e, s') \<Rightarrow> (Inl e, (record_failure cfg (now s') e b, s')))))"

section \<open>Invariant\<close>

lemmas breaker_defs = check_allowed_def record_success_def record_failure_def

text \<open>
  The opening time is known exactly outside \<open>Closed\<close>; the failure count stays below the
  threshold while closed and within it otherwise; the probe count stays below what is needed.
  (A threshold of 0 acts like 1.)
\<close>

definition breaker_inv :: "circuit_breaker_config \<Rightarrow> breaker_state \<Rightarrow> bool" where
  "breaker_inv cfg b \<longleftrightarrow>
     (bs_state b = Closed \<longleftrightarrow> opened_at b = None)
     \<and> (bs_state b = Closed \<longrightarrow> consecutive_failures b < max 1 (failure_threshold cfg))
     \<and> consecutive_failures b \<le> max 1 (failure_threshold cfg)
     \<and> (bs_state b = HalfOpen \<longrightarrow> half_open_successes b < max 1 (half_open_successes_needed cfg))"

lemma max_one_pos: "(0::u32) < max 1 k"
  by (auto simp: max_def word_gt_0)

lemma word_max_one_step:
  fixes c k :: u32
  assumes "c < max 1 k" and "\<not> c + 1 \<ge> k"
  shows "c + 1 < max 1 k"
  using assms by (auto simp: max_def not_le split: if_splits)

lemma breaker_new_inv: "breaker_inv cfg breaker_new"
  by (simp add: breaker_inv_def breaker_new_def max_one_pos)

lemma check_allowed_inv: "breaker_inv cfg b \<Longrightarrow> breaker_inv cfg (snd (check_allowed cfg n sh now b))"
  by (auto simp: breaker_inv_def check_allowed_def max_one_pos split: circuit_state.splits option.splits)

lemma record_success_inv: "breaker_inv cfg b \<Longrightarrow> breaker_inv cfg (record_success cfg b)"
  by (auto simp: breaker_inv_def record_success_def max_one_pos Let_def not_le
      dest: word_max_one_step split: circuit_state.splits)

lemma record_failure_inv: "breaker_inv cfg b \<Longrightarrow> breaker_inv cfg (record_failure cfg now e b)"
  by (auto simp: breaker_inv_def record_failure_def Let_def not_le
      dest: word_max_one_step word_inc_le split: circuit_state.splits)

lemma failures_do_not_wrap:
  assumes "breaker_inv cfg b" and "bs_state b = Closed"
  shows "unat (consecutive_failures b + 1) = Suc (unat (consecutive_failures b))"
  using assms by (intro unat_Suc_less) (auto simp: breaker_inv_def)

section \<open>Interleaved calls\<close>

text \<open>
  A configuration of the running system: the breaker, the clock, and the number of calls that
  have passed the pre-flight check and are with the inner provider. One step is one critical
  section, or the passing of time.
\<close>

record breaker_system =
  sys_breaker :: breaker_state
  sys_clock :: instant
  in_flight :: nat

inductive breaker_step :: "circuit_breaker_config \<Rightarrow> breaker_system \<Rightarrow> breaker_system \<Rightarrow> bool" for cfg where
  time_passes: "breaker_step cfg s (s\<lparr>sys_clock := sys_clock s + d\<rparr>)"
| call_admitted:
    "check_allowed cfg n sh (sys_clock s) (sys_breaker s) = (Inr (), b) \<Longrightarrow>
     breaker_step cfg s (s\<lparr>sys_breaker := b, in_flight := Suc (in_flight s)\<rparr>)"
| call_rejected:
    "check_allowed cfg n sh (sys_clock s) (sys_breaker s) = (Inl e, b) \<Longrightarrow>
     breaker_step cfg s (s\<lparr>sys_breaker := b\<rparr>)"
| call_succeeds:
    "in_flight s = Suc k \<Longrightarrow>
     breaker_step cfg s (s\<lparr>sys_breaker := record_success cfg (sys_breaker s), in_flight := k\<rparr>)"
| call_fails:
    "in_flight s = Suc k \<Longrightarrow>
     breaker_step cfg s
       (s\<lparr>sys_breaker := record_failure cfg (sys_clock s) e (sys_breaker s), in_flight := k\<rparr>)"

definition breaker_system_new :: "instant \<Rightarrow> breaker_system" where
  "breaker_system_new t = \<lparr>sys_breaker = breaker_new, sys_clock = t, in_flight = 0\<rparr>"

inductive breaker_reachable :: "circuit_breaker_config \<Rightarrow> breaker_system \<Rightarrow> bool" for cfg where
  breaker_start: "breaker_reachable cfg (breaker_system_new t)"
| breaker_next: "breaker_reachable cfg s \<Longrightarrow> breaker_step cfg s s' \<Longrightarrow> breaker_reachable cfg s'"

definition system_inv :: "circuit_breaker_config \<Rightarrow> breaker_system \<Rightarrow> bool" where
  "system_inv cfg s \<longleftrightarrow> breaker_inv cfg (sys_breaker s)
     \<and> (\<forall>t. opened_at (sys_breaker s) = Some t \<longrightarrow> t \<le> sys_clock s)"

lemma opened_at_ops:
  "opened_at (snd (check_allowed cfg n sh now b)) = opened_at b"
  "opened_at (record_success cfg b) = opened_at b \<or> opened_at (record_success cfg b) = None"
  "opened_at (record_failure cfg now e b) = opened_at b \<or> opened_at (record_failure cfg now e b) = Some now"
  by (auto simp: breaker_defs Let_def split: circuit_state.splits option.splits)

lemma check_allowed_result:
  assumes "check_allowed cfg n sh now b = (res, b')"
  shows "opened_at b' = opened_at b" and "breaker_inv cfg b \<Longrightarrow> breaker_inv cfg b'"
  using opened_at_ops(1) [of cfg n sh now b] check_allowed_inv [of cfg b n sh now] assms by simp_all

lemma breaker_step_inv: "breaker_step cfg s s' \<Longrightarrow> system_inv cfg s \<Longrightarrow> system_inv cfg s'"
proof (induction rule: breaker_step.induct)
  case (call_succeeds s k)
  then show ?case
    using opened_at_ops(2) [of cfg "sys_breaker s"] by (auto simp: system_inv_def record_success_inv)
next
  case (call_fails s k e)
  then show ?case
    using opened_at_ops(3) [of cfg "sys_clock s" e "sys_breaker s"]
    by (auto simp: system_inv_def record_failure_inv)
qed (auto simp: system_inv_def intro: trans_le_add1 dest: check_allowed_result)

lemma breaker_reachable_inv: "breaker_reachable cfg s \<Longrightarrow> system_inv cfg s"
proof (induction rule: breaker_reachable.induct)
  case (breaker_start t)
  show ?case
    using breaker_new_inv [of cfg] by (simp add: system_inv_def breaker_system_new_def breaker_new_def)
next
  case (breaker_next s s')
  then show ?case by (blast intro: breaker_step_inv)
qed

section \<open>Tripping\<close>

fun fail_times :: "circuit_breaker_config \<Rightarrow> instant \<Rightarrow> llm_error \<Rightarrow> nat \<Rightarrow> breaker_state \<Rightarrow> breaker_state" where
  "fail_times cfg now e 0 b = b"
| "fail_times cfg now e (Suc k) b = fail_times cfg now e k (record_failure cfg now e b)"

lemma fail_times_closed:
  assumes "is_transient e" and "bs_state b = Closed"
    and "unat (consecutive_failures b) + k < unat (failure_threshold cfg)"
  shows "bs_state (fail_times cfg now e k b) = Closed
    \<and> unat (consecutive_failures (fail_times cfg now e k b)) = unat (consecutive_failures b) + k"
  using assms(2,3)
proof (induction k arbitrary: b)
  case (Suc k)
  let ?b = "record_failure cfg now e b"
  have lt: "consecutive_failures b < failure_threshold cfg"
    using Suc.prems by (simp add: word_less_nat_alt)
  then have u: "unat (consecutive_failures b + 1) = Suc (unat (consecutive_failures b))"
    by (rule unat_Suc_less)
  then have "\<not> failure_threshold cfg \<le> consecutive_failures b + 1"
    using Suc.prems by (simp add: word_le_nat_alt)
  then have b: "bs_state ?b = Closed" "consecutive_failures ?b = consecutive_failures b + 1"
    using assms(1) Suc.prems by (simp_all add: record_failure_def Let_def)
  then show ?case using Suc.IH [of ?b] Suc.prems u by simp
qed simp

lemma fail_times_snoc: "fail_times cfg now e (Suc k) b = record_failure cfg now e (fail_times cfg now e k b)"
  by (induction k arbitrary: b) auto

section \<open>Soundness of the decorator\<close>

lemma breaker_complete_ok:
  assumes "provider_ok call ok acceptable"
  shows "provider_ok (breaker_complete cfg name sh now call) (\<lambda>(b, s). breaker_inv cfg b \<and> ok s) acceptable"
proof (rule provider_okI)
  fix r bs
  assume inv: "case bs of (b, s) \<Rightarrow> breaker_inv cfg b \<and> ok s"
  obtain b s where bs: "bs = (b, s)" by (cases bs)
  obtain res b' where chk: "check_allowed cfg name sh (now s) b = (res, b')"
    by (cases "check_allowed cfg name sh (now s) b")
  obtain res' s' where c: "call r s = (res', s')" by (cases "call r s")
  have "breaker_inv cfg b'" "ok s'"
    using inv chk bs check_allowed_result(2) [OF chk] provider_ok_state [OF assms, of s r] c by auto
  then show "case snd (breaker_complete cfg name sh now call r bs) of (b, s) \<Rightarrow> breaker_inv cfg b \<and> ok s"
    using inv bs chk c
    by (auto simp: breaker_complete_def record_success_inv record_failure_inv split: sum.splits)
next
  fix r bs p
  assume "case bs of (b, s) \<Rightarrow> breaker_inv cfg b \<and> ok s"
    and "fst (breaker_complete cfg name sh now call r bs) = Inr p"
  then show "acceptable r p"
    using provider_ok_response [OF assms, of "snd bs" r p]
    by (auto simp: breaker_complete_def split: prod.splits sum.splits)
qed

interpretation breaker: sound_decorator "breaker_complete cfg name sh now"
  "\<lambda>ok _ (b, s). breaker_inv cfg b \<and> ok s" "\<lambda>_ _. True"
  by unfold_locales (rule breaker_complete_ok)

text \<open>Retry inside a breaker, the order in which the chain is built.\<close>

interpretation retry_breaker: decorator_stack
  "retry_complete sleep rand rcfg" "\<lambda>ok _. ok" "\<lambda>ok _. \<forall>d s. ok s \<longrightarrow> ok (sleep d s)"
  "breaker_complete cfg name sh now" "\<lambda>ok _ (b, s). breaker_inv cfg b \<and> ok s" "\<lambda>_ _. True"
  by unfold_locales

section \<open>Theorems\<close>

text \<open>
  C29. Whatever the interleaving of concurrent calls and whatever the clock does between them:
  the opening time is recorded exactly while the circuit is not closed and is never in the
  future, the failure count stays below the threshold while the circuit is closed (so the
  \<open>u32\<close> increment never wraps) and the number of successful probes stays below what closes
  the circuit. The branch that recovers from an open circuit with no opening time is never
  taken.
\<close>

theorem breaker_interleaved_inv:
  assumes "breaker_reachable cfg s"
  shows "breaker_inv cfg (sys_breaker s)
    \<and> (bs_state (sys_breaker s) = Open \<longrightarrow> (\<exists>t \<le> sys_clock s. opened_at (sys_breaker s) = Some t))
    \<and> (bs_state (sys_breaker s) = Closed \<longrightarrow>
         unat (consecutive_failures (sys_breaker s) + 1) = Suc (unat (consecutive_failures (sys_breaker s))))"
  using breaker_reachable_inv [OF assms] failures_do_not_wrap [of cfg "sys_breaker s"]
  by (auto simp: system_inv_def breaker_inv_def)

theorem breaker_interleaved_inv_witness:
  "breaker_inv circuit_breaker_config_default (sys_breaker (breaker_system_new 5))"
  using breaker_interleaved_inv [OF breaker_start [of circuit_breaker_config_default 5]] by blast

text \<open>
  A circuit that is open and whose recovery timeout has not elapsed rejects a call without
  touching the inner provider or its own state.
\<close>

theorem open_circuit_rejects:
  assumes "bs_state b = Open" and "opened_at b = Some t" and "now s - t < recovery_timeout cfg"
  shows "\<exists>reason. breaker_complete cfg name sh now call r (b, s) = (Inl (RequestFailed name reason), (b, s))"
  using assms by (simp add: breaker_complete_def check_allowed_def)

theorem open_circuit_rejects_witness:
  "\<exists>reason. breaker_complete circuit_breaker_config_default ''m'' (\<lambda>_. ''1'') (\<lambda>s :: nat. s)
     (\<lambda>r :: nat. \<lambda>s. (Inr r :: llm_error + nat, s)) 1
     (\<lparr>bs_state = Open, consecutive_failures = 5, opened_at = Some 10, half_open_successes = 0\<rparr>, 20)
   = (Inl (RequestFailed ''m'' reason),
      (\<lparr>bs_state = Open, consecutive_failures = 5, opened_at = Some 10, half_open_successes = 0\<rparr>, 20))"
  by (rule open_circuit_rejects [where t = 10]) (simp_all add: circuit_breaker_config_default_def)

text \<open>
  A closed breaker with a positive threshold trips after exactly \<open>failure_threshold\<close>
  consecutive transient failures: with fewer it is still closed and has counted them all, and
  the last one opens it at the time of that failure.
\<close>

theorem breaker_trips_at_threshold:
  assumes "is_transient e" and "0 < failure_threshold cfg" and "k < unat (failure_threshold cfg)"
  shows "bs_state (fail_times cfg now e k breaker_new) = Closed
    \<and> unat (consecutive_failures (fail_times cfg now e k breaker_new)) = k
    \<and> (let b = fail_times cfg now e (unat (failure_threshold cfg)) breaker_new
       in bs_state b = Open \<and> opened_at b = Some now \<and> consecutive_failures b = failure_threshold cfg)"
proof -
  obtain n where n: "unat (failure_threshold cfg) = Suc n"
    using assms(3) by (cases "unat (failure_threshold cfg)") auto
  let ?b = "fail_times cfg now e n breaker_new"
  have closed: "bs_state (fail_times cfg now e j breaker_new) = Closed
      \<and> unat (consecutive_failures (fail_times cfg now e j breaker_new)) = j"
    if "j < unat (failure_threshold cfg)" for j
    using fail_times_closed [OF assms(1), of breaker_new j cfg now] that by (simp add: breaker_new_def)
  have b: "bs_state ?b = Closed" "unat (consecutive_failures ?b) = n"
    using closed [of n] n by simp_all
  then have "consecutive_failures ?b < failure_threshold cfg"
    using n by (simp add: word_less_nat_alt)
  then have "unat (consecutive_failures ?b + 1) = unat (failure_threshold cfg)"
    using b n by (simp add: unat_Suc_less)
  then have "consecutive_failures ?b + 1 = failure_threshold cfg"
    by (simp only: word_unat_eq_iff)
  then show ?thesis
    using closed [OF assms(3)] assms(1) b(1)
    by (simp add: n fail_times_snoc record_failure_def Let_def del: fail_times.simps)
qed

theorem breaker_trips_at_threshold_witness:
  "bs_state (fail_times circuit_breaker_config_default 9 (Http ''x'') 4 breaker_new) = Closed
   \<and> bs_state (fail_times circuit_breaker_config_default 9 (Http ''x'') 5 breaker_new) = Open"
  using breaker_trips_at_threshold [of "Http ''x''" circuit_breaker_config_default 4 9]
  by (simp add: circuit_breaker_config_default_def Let_def)

text \<open>
  The branch of \<open>record_success\<close> for an open circuit is reachable, contrary to its
  comment: a call admitted while the circuit was closed may succeed after other calls have
  tripped it, and that success closes the circuit at once, although the recovery timeout has
  not elapsed.
\<close>

theorem late_success_closes_open_circuit:
  "\<exists>s s'. breaker_reachable cfg s \<and> breaker_step cfg s s'
     \<and> bs_state (sys_breaker s) = Open
     \<and> opened_at (sys_breaker s) = Some (sys_clock s)
     \<and> bs_state (sys_breaker s') = Closed \<and> sys_clock s' = sys_clock s"
  if "failure_threshold cfg = 1"
proof -
  let ?s0 = "breaker_system_new 0"
  let ?s1 = "?s0\<lparr>in_flight := 1\<rparr>" and ?s2 = "?s0\<lparr>in_flight := 2\<rparr>"
  let ?b = "\<lparr>bs_state = Open, consecutive_failures = 1, opened_at = Some 0, half_open_successes = 0\<rparr>"
  let ?s3 = "?s0\<lparr>sys_breaker := ?b, in_flight := 1\<rparr>"
  let ?s4 = "?s3\<lparr>sys_breaker := record_success cfg ?b, in_flight := 0\<rparr>"
  have "breaker_step cfg ?s0 ?s1"
    using call_admitted [of cfg "[]" "\<lambda>_. []" ?s0 breaker_new]
    by (simp add: breaker_system_new_def breaker_new_def check_allowed_def)
  moreover have "breaker_step cfg ?s1 ?s2"
    using call_admitted [of cfg "[]" "\<lambda>_. []" ?s1 breaker_new]
    by (simp add: breaker_system_new_def breaker_new_def check_allowed_def numeral_2_eq_2)
  moreover have "breaker_step cfg ?s2 ?s3"
    using call_fails [of ?s2 1 cfg "Http []"] that
    by (simp add: breaker_system_new_def breaker_new_def record_failure_def)
  ultimately have "breaker_reachable cfg ?s3"
    by (meson breaker_start breaker_next)
  moreover have "breaker_step cfg ?s3 ?s4"
    using call_succeeds [of ?s3 0 cfg] by simp
  ultimately show ?thesis
    by (intro exI [of _ ?s3] exI [of _ ?s4])
      (simp add: breaker_system_new_def record_success_def)
qed

theorem late_success_closes_open_circuit_witness:
  "\<exists>s s'. breaker_reachable (circuit_breaker_config_default\<lparr>failure_threshold := 1\<rparr>) s
     \<and> breaker_step (circuit_breaker_config_default\<lparr>failure_threshold := 1\<rparr>) s s'
     \<and> bs_state (sys_breaker s) = Open \<and> bs_state (sys_breaker s') = Closed"
  using late_success_closes_open_circuit [of "circuit_breaker_config_default\<lparr>failure_threshold := 1\<rparr>"]
  by auto

end
