(* ===== verification/Failover.thy ===== *)
theory Failover
  imports Provider Retry "HOL-Library.Char_ord" "HOL-Library.List_Lexorder"
begin

text \<open>
  \<open>src/llm/failover.rs\<close>: an ordered list of providers, tried in turn, with a cooldown per
  provider. The world holds the clock, read as nanoseconds since the epoch of the failover
  provider (\<open>u64\<close>); the identifier of the running task is an argument. Counters wrap at their
  width, as atomics do.
\<close>

record cooldown_config =
  cooldown_duration :: duration
  failure_threshold :: u32

definition cooldown_config_default :: cooldown_config where
  "cooldown_config_default = \<lparr>cooldown_duration = secs 300, failure_threshold = 3\<rparr>"

record provider_cooldown =
  failure_count :: u32
  cooldown_activated_nanos :: u64

definition cooldown_new :: provider_cooldown where
  "cooldown_new = \<lparr>failure_count = 0, cooldown_activated_nanos = 0\<rparr>"

definition saturating_sub :: "u64 \<Rightarrow> u64 \<Rightarrow> u64" where
  "saturating_sub a b = (if b \<le> a then a - b else 0)"

definition is_in_cooldown :: "u64 \<Rightarrow> u64 \<Rightarrow> provider_cooldown \<Rightarrow> bool" where
  "is_in_cooldown now_nanos cooldown_nanos c =
     (cooldown_activated_nanos c \<noteq> 0
      \<and> saturating_sub now_nanos (cooldown_activated_nanos c) < cooldown_nanos)"

definition cooldown_record_failure :: "u32 \<Rightarrow> provider_cooldown \<Rightarrow> bool \<times> provider_cooldown" where
  "cooldown_record_failure threshold c =
     (let prev = failure_count c in (threshold \<le> prev + 1, c\<lparr>failure_count := prev + 1\<rparr>))"

definition activate_cooldown :: "u64 \<Rightarrow> provider_cooldown \<Rightarrow> provider_cooldown" where
  "activate_cooldown now_nanos c = c\<lparr>cooldown_activated_nanos := max now_nanos 1\<rparr>"

definition cooldown_reset :: "provider_cooldown \<Rightarrow> provider_cooldown" where
  "cooldown_reset c = c\<lparr>failure_count := 0, cooldown_activated_nanos := 0\<rparr>"

record failover =
  last_used :: nat
  cooldowns :: "provider_cooldown list"
  provider_for_task :: "(nat, nat) hashmap"

definition no_providers :: llm_error where
  "no_providers = RequestFailed ''failover'' ''FailoverProvider requires at least one provider''"

definition with_cooldown :: "('q, 'p, 's) provider list \<Rightarrow> llm_error + failover" where
  "with_cooldown ps =
     (if ps = [] then Inl no_providers
      else Inr \<lparr>last_used = 0, cooldowns = map (\<lambda>_. cooldown_new) [0..<length ps],
                provider_for_task = []\<rparr>)"

definition bind_provider :: "nat option \<Rightarrow> nat \<Rightarrow> failover \<Rightarrow> failover" where
  "bind_provider task i f =
     (case task of
        None \<Rightarrow> f
      | Some t \<Rightarrow> f\<lparr>provider_for_task := hm_insert t i (provider_for_task f)\<rparr>)"

definition take_bound_provider :: "nat option \<Rightarrow> failover \<Rightarrow> nat option \<times> failover" where
  "take_bound_provider task f =
     (case task of
        None \<Rightarrow> (None, f)
      | Some t \<Rightarrow> (hm_get (provider_for_task f) t,
                   f\<lparr>provider_for_task := hm_remove t (provider_for_task f)\<rparr>))"

definition cooldown_nanos :: "cooldown_config \<Rightarrow> u64" where
  "cooldown_nanos cfg = of_nat (cooldown_duration cfg)"

definition available :: "cooldown_config \<Rightarrow> u64 \<Rightarrow> failover \<Rightarrow> nat \<Rightarrow> nat list" where
  "available cfg now_nanos f n =
     filter (\<lambda>i. \<not> is_in_cooldown now_nanos (cooldown_nanos cfg) (cooldowns f ! i)) [0..<n]"

definition candidates :: "cooldown_config \<Rightarrow> u64 \<Rightarrow> failover \<Rightarrow> nat \<Rightarrow> llm_error + nat list" where
  "candidates cfg now_nanos f n =
     (let av = available cfg now_nanos f n
      in if av = []
         then (case min_by_key (\<lambda>i. cooldown_activated_nanos (cooldowns f ! i)) [0..<n] of
                 None \<Rightarrow> Inl no_providers
               | Some oldest \<Rightarrow> Inr [oldest])
         else Inr av)"

definition invariant_violated :: llm_error where
  "invariant_violated = RequestFailed ''failover''
     ''Invariant violated in FailoverProvider: providers were exhausted but no last_error was recorded (this branch should be unreachable; possible causes: no provider attempts were made or `available` was unexpectedly empty).''"

definition note_failure :: "cooldown_config \<Rightarrow> u64 \<Rightarrow> nat \<Rightarrow> failover \<Rightarrow> failover" where
  "note_failure cfg now_nanos i f =
     (let (reached, c) = cooldown_record_failure (failure_threshold cfg) (cooldowns f ! i);
          c = (if reached then activate_cooldown now_nanos c else c)
      in f\<lparr>cooldowns := (cooldowns f)[i := c]\<rparr>)"

definition note_success :: "nat \<Rightarrow> failover \<Rightarrow> failover" where
  "note_success i f = f\<lparr>last_used := i, cooldowns := (cooldowns f)[i := cooldown_reset (cooldowns f ! i)]\<rparr>"

fun try_loop ::
  "cooldown_config \<Rightarrow> ('s \<Rightarrow> u64) \<Rightarrow> ('q, 'p, 's) provider list \<Rightarrow> 'q \<Rightarrow> nat list \<Rightarrow> llm_error option
   \<Rightarrow> failover \<times> 's \<Rightarrow> (llm_error + nat \<times> 'p) \<times> failover \<times> 's" where
  "try_loop cfg now ps r [] last_error (f, s) =
     (Inl (case last_error of Some e \<Rightarrow> e | None \<Rightarrow> invariant_violated), f, s)"
| "try_loop cfg now ps r (i # is) last_error (f, s) =
     (case (ps ! i) r s of
        (Inr p, s') \<Rightarrow> (Inr (i, p), note_success i f, s')
      | (Inl e, s') \<Rightarrow>
          (if \<not> is_retryable e then (Inl e, f, s')
           else try_loop cfg now ps r is (Some e) (note_failure cfg (now s') i f, s')))"

definition try_providers ::
  "cooldown_config \<Rightarrow> ('s \<Rightarrow> u64) \<Rightarrow> ('q, 'p, 's) provider list \<Rightarrow> 'q
   \<Rightarrow> failover \<times> 's \<Rightarrow> (llm_error + nat \<times> 'p) \<times> failover \<times> 's" where
  "try_providers cfg now ps r fs =
     (case fs of (f, s) \<Rightarrow>
       (case candidates cfg (now s) f (length ps) of
          Inl e \<Rightarrow> (Inl e, f, s)
        | Inr av \<Rightarrow> try_loop cfg now ps r av None (f, s)))"

definition failover_complete ::
  "cooldown_config \<Rightarrow> ('s \<Rightarrow> u64) \<Rightarrow> nat option \<Rightarrow> ('q, 'p, 's) provider list
   \<Rightarrow> ('q, 'p, failover \<times> 's) provider" where
  "failover_complete cfg now task ps r fs =
     (case try_providers cfg now ps r fs of
        (Inl e, f, s) \<Rightarrow> (Inl e, f, s)
      | (Inr (i, p), f, s) \<Rightarrow> (Inr p, bind_provider task i f, s))"

definition failover_complete_with_tools ::
  "cooldown_config \<Rightarrow> ('s \<Rightarrow> u64) \<Rightarrow> nat option \<Rightarrow> ('q, 'p, 's) provider list
   \<Rightarrow> ('q, 'p, failover \<times> 's) provider" where
  "failover_complete_with_tools cfg now task ps r fs =
     (case try_providers cfg now ps r fs of
        (Inl e, f, s) \<Rightarrow> (Inl e, f, s)
      | (Inr (i, p), f, s) \<Rightarrow> (Inr p, bind_provider task i f, s))"

text \<open>
  The metadata calls index the providers with \<open>last_used\<close>; \<open>ask\<close> is the question put to a
  provider, and \<open>None\<close> is the panic of an index out of range.
\<close>

definition ask_last_used :: "('a \<Rightarrow> 'b) \<Rightarrow> 'a list \<Rightarrow> failover \<Rightarrow> 'b option" where
  "ask_last_used ask ps f = (if last_used f < length ps then Some (ask (ps ! last_used f)) else None)"

definition effective_model_name ::
  "('a \<Rightarrow> string option \<Rightarrow> string) \<Rightarrow> nat option \<Rightarrow> 'a list \<Rightarrow> string option \<Rightarrow> failover
   \<Rightarrow> string option \<times> failover" where
  "effective_model_name name task ps requested f =
     (case take_bound_provider task f of
        (Some i, f) \<Rightarrow> (if i < length ps then Some (name (ps ! i) requested) else None, f)
      | (None, f) \<Rightarrow> (ask_last_used (\<lambda>p. name p requested) ps f, f))"

fun failover_set_model :: "(string \<Rightarrow> 's \<Rightarrow> (llm_error + unit) \<times> 's) list \<Rightarrow> string \<Rightarrow> 's \<Rightarrow> (llm_error + unit) \<times> 's" where
  "failover_set_model [] model s = (Inr (), s)"
| "failover_set_model (set_model # ps) model s =
     (case set_model model s of
        (Inl e, s) \<Rightarrow> (Inl e, s)
      | (Inr _, s) \<Rightarrow> failover_set_model ps model s)"

fun collect_models :: "('s \<Rightarrow> (llm_error + string list) \<times> 's) list \<Rightarrow> 's \<Rightarrow> string list \<times> 's" where
  "collect_models [] s = ([], s)"
| "collect_models (list_models # ps) s =
     (case list_models s of
        (r, s) \<Rightarrow> (case collect_models ps s of
          (rest, s) \<Rightarrow> ((case r of Inr models \<Rightarrow> models | Inl _ \<Rightarrow> []) @ rest, s)))"

definition failover_list_models ::
  "('s \<Rightarrow> (llm_error + string list) \<times> 's) list \<Rightarrow> 's \<Rightarrow> (llm_error + string list) \<times> 's" where
  "failover_list_models ps s =
     (case collect_models ps s of (models, s) \<Rightarrow> (Inr (remdups_adj (sort models)), s))"

section \<open>Candidates\<close>

lemma candidates_Inr:
  assumes "0 < n"
  obtains av where "candidates cfg now f n = Inr av" and "av \<noteq> []" and "set av \<subseteq> {0..<n}" and "distinct av"
proof (cases "available cfg now f n = []")
  case True
  then obtain i where i: "min_by_key (\<lambda>i. cooldown_activated_nanos (cooldowns f ! i)) [0..<n] = Some i"
    using assms by (cases "min_by_key (\<lambda>i. cooldown_activated_nanos (cooldowns f ! i)) [0..<n]") auto
  then have "i < n" by (auto dest: min_by_key_Some)
  then show thesis using that [of "[i]"] True i by (simp add: candidates_def)
next
  case False
  then have "candidates cfg now f n = Inr (available cfg now f n)"
    by (simp add: candidates_def)
  then show thesis
    using False by (rule that) (auto simp: available_def)
qed

section \<open>Invariant\<close>

text \<open>
  There is one cooldown per provider, and the recorded provider indices are in range, so that
  no metadata call panics.
\<close>

definition failover_wf :: "nat \<Rightarrow> failover \<Rightarrow> bool" where
  "failover_wf n f \<longleftrightarrow> length (cooldowns f) = n \<and> last_used f < n \<and> snd ` set (provider_for_task f) \<subseteq> {0..<n}"

lemma with_cooldown_wf: "with_cooldown ps = Inr f \<Longrightarrow> failover_wf (length ps) f"
  by (auto simp: with_cooldown_def failover_wf_def split: if_splits)

lemma note_failure_wf [simp]: "failover_wf n (note_failure cfg t i f) = failover_wf n f"
  by (simp add: failover_wf_def note_failure_def Let_def split: prod.split)

lemma note_success_wf: "i < n \<Longrightarrow> failover_wf n f \<Longrightarrow> failover_wf n (note_success i f)"
  by (simp add: failover_wf_def note_success_def)

lemma bind_provider_wf: "i < n \<Longrightarrow> failover_wf n f \<Longrightarrow> failover_wf n (bind_provider task i f)"
proof -
  have "snd ` set (hm_insert t i m) \<subseteq> insert i (snd ` set m)" for t and m :: "(nat, nat) hashmap"
    by (induction m) (auto simp: hm_insert_def)
  then show "i < n \<Longrightarrow> failover_wf n f \<Longrightarrow> failover_wf n (bind_provider task i f)"
    by (fastforce simp: failover_wf_def bind_provider_def split: option.splits)
qed

lemma take_bound_provider_wf: "failover_wf n f \<Longrightarrow> failover_wf n (snd (take_bound_provider task f))"
  by (auto simp: failover_wf_def take_bound_provider_def hm_remove_def split: option.splits)

lemma try_loop_wf:
  assumes "failover_wf n f" and "set is \<subseteq> {0..<n}"
  shows "failover_wf n (fst (snd (try_loop cfg now ps r is e (f, s))))"
  using assms
  by (induction "is" arbitrary: e f s) (auto split: prod.splits sum.splits intro: note_success_wf)

lemma try_loop_index:
  "fst (try_loop cfg now ps r is e (f, s)) = Inr (i, p) \<Longrightarrow> i \<in> set is"
  by (induction "is" arbitrary: e f s) (auto split: prod.splits sum.splits if_splits)

lemma try_loop_world:
  assumes "\<forall>i \<in> set is. provider_ok (ps ! i) ok acceptable" and "ok s"
  shows "ok (snd (snd (try_loop cfg now ps r is e (f, s))))
    \<and> (\<forall>i p. fst (try_loop cfg now ps r is e (f, s)) = Inr (i, p) \<longrightarrow> acceptable r p)"
  using assms
proof (induction "is" arbitrary: e f s)
  case (Cons i "is")
  obtain x s' where call: "(ps ! i) r s = (x, s')" by fastforce
  have "ok s'" and "\<And>p. x = Inr p \<Longrightarrow> acceptable r p"
    using Cons.prems call provider_ok_state [of "ps ! i" ok acceptable s r]
      provider_ok_response [of "ps ! i" ok acceptable s r] by auto
  then show ?case
    using Cons.IH [of s'] Cons.prems(1) by (cases x) (auto simp: call)
qed simp

lemma try_providers_loop:
  assumes "ps \<noteq> []"
  obtains av where "candidates cfg (now s) f (length ps) = Inr av" and "av \<noteq> []" and "set av \<subseteq> {0..<length ps}"
    and "try_providers cfg now ps r (f, s) = try_loop cfg now ps r av None (f, s)"
proof -
  from assms have "0 < length ps" by simp
  then obtain av where "candidates cfg (now s) f (length ps) = Inr av" "av \<noteq> []" "set av \<subseteq> {0..<length ps}"
    by (rule candidates_Inr)
  then show thesis by (rule that) (simp add: try_providers_def \<open>candidates _ _ _ _ = _\<close>)
qed

lemma failover_complete_wf:
  assumes "ps \<noteq> []" and "failover_wf (length ps) f"
  shows "failover_wf (length ps) (fst (snd (failover_complete cfg now task ps r (f, s))))"
proof -
  obtain av where av: "set av \<subseteq> {0..<length ps}"
    "try_providers cfg now ps r (f, s) = try_loop cfg now ps r av None (f, s)"
    using assms(1) by (rule try_providers_loop)
  show ?thesis
    using try_loop_wf [OF assms(2) av(1), of cfg now ps r None s] try_loop_index [of cfg now ps r av None f s] av(1)
    by (fastforce simp: failover_complete_def av(2) split: prod.splits sum.splits intro: bind_provider_wf)
qed

lemma failover_ok:
  assumes "ps \<noteq> []" and "\<forall>p \<in> set ps. provider_ok p ok acceptable"
  shows "provider_ok (failover_complete cfg now task ps) (\<lambda>(f, s). failover_wf (length ps) f \<and> ok s) acceptable"
proof (rule provider_ok_pairI, elim conjE)
  fix r f s
  assume f: "failover_wf (length ps) f" and s: "ok s"
  show "(case snd (failover_complete cfg now task ps r (f, s)) of (f, s) \<Rightarrow> failover_wf (length ps) f \<and> ok s)
    \<and> (\<forall>p. fst (failover_complete cfg now task ps r (f, s)) = Inr p \<longrightarrow> acceptable r p)"
  proof -
    obtain av where av: "set av \<subseteq> {0..<length ps}"
      "try_providers cfg now ps r (f, s) = try_loop cfg now ps r av None (f, s)"
      using assms(1) by (rule try_providers_loop)
    with assms(2) have ok: "\<forall>i \<in> set av. provider_ok (ps ! i) ok acceptable" by fastforce
    show ?thesis
      using failover_complete_wf [OF assms(1) f, of cfg now task r s]
        try_loop_world [OF ok s, of cfg now r None f]
      by (auto simp: failover_complete_def av(2) split: prod.splits sum.splits)
  qed
qed

text \<open>A primary provider with fixed fallbacks is a decorator of the primary.\<close>

lemma failover_primary_ok:
  assumes "\<forall>p \<in> set fallbacks. provider_ok p ok acceptable" and "provider_ok call ok acceptable"
  shows "provider_ok (failover_complete cfg now task (call # fallbacks))
    (\<lambda>(f, s). failover_wf (Suc (length fallbacks)) f \<and> ok s) acceptable"
  using failover_ok [of "call # fallbacks" ok acceptable] assms by simp

interpretation failover: sound_decorator
  "\<lambda>call. failover_complete cfg now task (call # fallbacks)"
  "\<lambda>ok _ (f, s). failover_wf (Suc (length fallbacks)) f \<and> ok s"
  "\<lambda>ok acceptable. \<forall>p \<in> set fallbacks. provider_ok p ok acceptable"
  for cfg now task and fallbacks :: "('q, 'p, 's) provider list"
  by unfold_locales (rule failover_primary_ok)

section \<open>Outcome of a request\<close>

text \<open>The world after the providers of a list of indices have been called in turn.\<close>

definition after_calls :: "('q, 'p, 's) provider list \<Rightarrow> 'q \<Rightarrow> nat list \<Rightarrow> 's \<Rightarrow> 's" where
  "after_calls ps r is s = foldl (\<lambda>s i. snd ((ps ! i) r s)) s is"

definition fails_retryably :: "('q, 'p, 's) provider \<Rightarrow> 'q \<Rightarrow> 's \<Rightarrow> bool" where
  "fails_retryably call r s = (case fst (call r s) of Inl e \<Rightarrow> is_retryable e | Inr _ \<Rightarrow> False)"

fun all_fail_retryably :: "('q, 'p, 's) provider list \<Rightarrow> 'q \<Rightarrow> nat list \<Rightarrow> 's \<Rightarrow> bool" where
  "all_fail_retryably ps r [] s = True"
| "all_fail_retryably ps r (i # is) s =
     (fails_retryably (ps ! i) r s \<and> all_fail_retryably ps r is (snd ((ps ! i) r s)))"

definition served_by :: "('q, 'p, 's) provider list \<Rightarrow> 'q \<Rightarrow> 's \<Rightarrow> nat \<Rightarrow> nat list \<Rightarrow> failover
    \<Rightarrow> (llm_error + nat \<times> 'p) \<Rightarrow> bool" where
  "served_by ps r s i rest f' res =
     (case fst ((ps ! i) r s) of
        Inr p \<Rightarrow> res = Inr (i, p) \<and> last_used f' = i
      | Inl e \<Rightarrow> res = Inl e \<and> (is_retryable e \<longrightarrow> rest = []))"

lemma try_loop_outcome:
  assumes "is \<noteq> []"
  shows "\<exists>before i rest. is = before @ i # rest \<and> all_fail_retryably ps r before s
    \<and> (case try_loop cfg now ps r is e (f, s) of (res, f', s') \<Rightarrow>
        s' = after_calls ps r (before @ [i]) s \<and> served_by ps r (after_calls ps r before s) i rest f' res)"
  using assms
proof (induction "is" arbitrary: e f s)
  case (Cons i "is")
  obtain x s' where call: "(ps ! i) r s = (x, s')" by fastforce
  show ?case
  proof (cases "fails_retryably (ps ! i) r s \<and> is \<noteq> []")
    case True
    then obtain err where x: "x = Inl err" "is_retryable err"
      by (auto simp: fails_retryably_def call split: sum.splits)
    obtain before j rest where IH: "is = before @ j # rest" "all_fail_retryably ps r before s'"
      "case try_loop cfg now ps r is (Some err) (note_failure cfg (now s') i f, s') of (res, f', s'') \<Rightarrow>
        s'' = after_calls ps r (before @ [j]) s' \<and> served_by ps r (after_calls ps r before s') j rest f' res"
      using Cons.IH [OF conjunct2 [OF True], of s' "Some err" "note_failure cfg (now s') i f"]
      by (elim exE conjE)
    show ?thesis
    proof (intro exI conjI)
      show "i # is = (i # before) @ j # rest" by (simp add: IH(1))
      show "all_fail_retryably ps r (i # before) s" using IH(2) True by (simp add: call)
      show "case try_loop cfg now ps r (i # is) e (f, s) of (res, f', s'') \<Rightarrow>
          s'' = after_calls ps r ((i # before) @ [j]) s
          \<and> served_by ps r (after_calls ps r (i # before) s) j rest f' res"
        using IH(3) x by (simp add: call after_calls_def)
    qed
  next
    case False
    then have "case try_loop cfg now ps r (i # is) e (f, s) of (res, f', s'') \<Rightarrow>
        s'' = after_calls ps r ([] @ [i]) s \<and> served_by ps r (after_calls ps r [] s) i is f' res"
      by (cases x) (auto simp: call after_calls_def served_by_def fails_retryably_def note_success_def)
    then show ?thesis
      by (metis append_Nil all_fail_retryably.simps(1))
  qed
qed simp

lemma note_success_clears:
  "failover_wf n f \<Longrightarrow> i < n \<Longrightarrow> cooldowns (note_success i f) ! i = cooldown_new"
  by (simp add: failover_wf_def note_success_def cooldown_reset_def cooldown_new_def)

lemma try_loop_success_clears:
  assumes "failover_wf n f" and "set is \<subseteq> {0..<n}"
    and "fst (try_loop cfg now ps r is e (f, s)) = Inr (i, p)"
  shows "cooldowns (fst (snd (try_loop cfg now ps r is e (f, s)))) ! i = cooldown_new"
  using assms
  by (induction "is" arbitrary: e f s)
     (auto split: prod.splits sum.splits if_splits intro: note_success_clears)

lemma candidates_cases:
  assumes "candidates cfg t f n = Inr av"
  shows "if \<forall>j < n. is_in_cooldown t (cooldown_nanos cfg) (cooldowns f ! j)
    then \<exists>i < n. av = [i] \<and> (\<forall>j < n. cooldown_activated_nanos (cooldowns f ! i) \<le> cooldown_activated_nanos (cooldowns f ! j))
    else av = filter (\<lambda>j. \<not> is_in_cooldown t (cooldown_nanos cfg) (cooldowns f ! j)) [0..<n]"
  using assms
  by (auto simp: candidates_def available_def Let_def filter_empty_conv split: if_splits option.splits
      dest!: min_by_key_Some)

lemma collect_models_set:
  "set (fst (collect_models (map (\<lambda>r s. (r, s)) rs) s)) = (\<Union>r \<in> set rs. case r of Inr ms \<Rightarrow> set ms | Inl _ \<Rightarrow> {})"
  by (induction rs) (auto split: prod.splits sum.splits)

text \<open>The model list is sorted, has no duplicates, and is the union of what the providers that answer list.\<close>

lemma sorted_distinct_remdups_adj: "sorted xs \<Longrightarrow> distinct (remdups_adj xs)" for xs :: "'a::linorder list"
  by (induction xs rule: remdups_adj.induct) auto

lemma failover_list_models_spec:
  assumes "failover_list_models (map (\<lambda>r s. (r, s)) rs) s = (res, s')"
  obtains models where "res = Inr models" and "sorted models" and "distinct models"
    and "set models = (\<Union>r \<in> set rs. case r of Inr ms \<Rightarrow> set ms | Inl _ \<Rightarrow> {})"
  using assms collect_models_set [of rs s]
  by (auto simp: failover_list_models_def sorted_distinct_remdups_adj split: prod.splits)

section \<open>Tasks\<close>

lemma all_less_two: "(\<forall>j < Suc (Suc 0). P j) \<longleftrightarrow> P 0 \<and> P 1"
  by (auto simp: less_Suc_eq)

lemma bind_provider_other:
  "task \<noteq> Some t \<Longrightarrow> hm_get (provider_for_task (bind_provider task i f)) t = hm_get (provider_for_task f) t"
  by (cases task) (simp_all add: bind_provider_def hm.lookup_put)

lemma try_loop_bindings:
  "provider_for_task (fst (snd (try_loop cfg now ps r is e (f, s)))) = provider_for_task f"
  by (induction "is" arbitrary: e f s)
     (auto split: prod.splits sum.splits simp: note_success_def note_failure_def)

lemma complete_bindings_other:
  "task \<noteq> Some t \<Longrightarrow>
   hm_get (provider_for_task (fst (snd (failover_complete cfg now task ps r fs)))) t
     = hm_get (provider_for_task (fst fs)) t"
  using try_loop_bindings [of cfg now ps r _ None "fst fs" "snd fs"]
  by (auto simp: failover_complete_def try_providers_def bind_provider_other split: prod.splits sum.splits)
     (metis bind_provider_other fst_conv snd_conv)+

section \<open>Theorems\<close>

text \<open>
  C31. A request is served by the providers outside cooldown in their configured order or, when
  every provider is in cooldown, by one whose cooldown started first; the list tried is never
  empty. The answer is that of the first provider in the list that does not fail with a
  retryable error (everything before it does, and nothing after it is called), or the error of
  the last one. On success the provider is recorded as last used and is out of cooldown with no
  failures counted.
\<close>

theorem failover_outcome:
  assumes "ps \<noteq> []" and "failover_wf (length ps) f"
    and "try_providers cfg now ps r (f, s) = (res, f', s')"
  shows "\<exists>before i rest.
    (if \<forall>j < length ps. is_in_cooldown (now s) (cooldown_nanos cfg) (cooldowns f ! j)
     then before = [] \<and> rest = [] \<and> i < length ps
       \<and> (\<forall>j < length ps. cooldown_activated_nanos (cooldowns f ! i) \<le> cooldown_activated_nanos (cooldowns f ! j))
     else before @ i # rest
       = filter (\<lambda>j. \<not> is_in_cooldown (now s) (cooldown_nanos cfg) (cooldowns f ! j)) [0..<length ps])
    \<and> all_fail_retryably ps r before s
    \<and> s' = after_calls ps r (before @ [i]) s
    \<and> served_by ps r (after_calls ps r before s) i rest f' res
    \<and> ((\<exists>p. res = Inr (i, p)) \<longrightarrow> cooldowns f' ! i = cooldown_new)"
proof -
  obtain av where av: "candidates cfg (now s) f (length ps) = Inr av" "av \<noteq> []" "set av \<subseteq> {0..<length ps}"
    "try_providers cfg now ps r (f, s) = try_loop cfg now ps r av None (f, s)"
    using assms(1) by (rule try_providers_loop)
  obtain before i rest where split: "av = before @ i # rest" "all_fail_retryably ps r before s"
    and out: "s' = after_calls ps r (before @ [i]) s" "served_by ps r (after_calls ps r before s) i rest f' res"
    using try_loop_outcome [OF av(2), of ps r s cfg now None f] assms(3) av(4) by auto
  have clear: "cooldowns f' ! i = cooldown_new" if "res = Inr (i, p)" for p
    using that assms(3) av(3,4) try_loop_success_clears [OF assms(2) av(3), of cfg now ps r None s i p] by simp
  show ?thesis
  proof (intro exI conjI)
    show "if \<forall>j < length ps. is_in_cooldown (now s) (cooldown_nanos cfg) (cooldowns f ! j)
     then before = [] \<and> rest = [] \<and> i < length ps
       \<and> (\<forall>j < length ps. cooldown_activated_nanos (cooldowns f ! i) \<le> cooldown_activated_nanos (cooldowns f ! j))
     else before @ i # rest
       = filter (\<lambda>j. \<not> is_in_cooldown (now s) (cooldown_nanos cfg) (cooldowns f ! j)) [0..<length ps]"
      using candidates_cases [OF av(1)] split(1) by (auto split: if_splits simp: append_eq_Cons_conv Cons_eq_append_conv)
  qed (use split(2) out clear in auto)
qed

theorem failover_outcome_witness:
  "let ps = [\<lambda>r s. (Inl (RequestFailed ''a'' ''down''), s), \<lambda>r s. (Inr (Suc r), s)];
       f = \<lparr>last_used = 0, cooldowns = [cooldown_new, cooldown_new], provider_for_task = []\<rparr>
   in \<exists>before i rest. before @ i # rest = [0, 1] \<and> all_fail_retryably ps (5 :: nat) before (7 :: u64)
        \<and> served_by ps 5 (after_calls ps 5 before 7) i rest
            (fst (snd (try_providers cooldown_config_default (\<lambda>s. s) ps 5 (f, 7))))
            (fst (try_providers cooldown_config_default (\<lambda>s. s) ps 5 (f, 7)))"
proof -
  let ?ps = "[\<lambda>r s. (Inl (RequestFailed ''a'' ''down''), s), \<lambda>r s. (Inr (Suc r), s)] :: (nat, nat, u64) provider list"
  let ?f = "\<lparr>last_used = 0, cooldowns = [cooldown_new, cooldown_new], provider_for_task = []\<rparr>"
  have "\<not> is_in_cooldown 7 (cooldown_nanos cooldown_config_default) cooldown_new"
    by (simp add: is_in_cooldown_def cooldown_new_def)
  then show ?thesis
    using failover_outcome [of ?ps ?f cooldown_config_default "\<lambda>s. s" 5 7
        "fst (try_providers cooldown_config_default (\<lambda>s. s) ?ps 5 (?f, 7))"
        "fst (snd (try_providers cooldown_config_default (\<lambda>s. s) ?ps 5 (?f, 7)))"
        "snd (snd (try_providers cooldown_config_default (\<lambda>s. s) ?ps 5 (?f, 7)))"]
    by (auto simp: failover_wf_def Let_def upt_rec all_less_two split: if_splits)
qed

text \<open>
  The model name reported to a task is that of the provider that served its own last
  request, even if any number of requests of other tasks have been served by other providers
  in between.
\<close>

theorem effective_model_is_own:
  assumes "ps \<noteq> []" and "failover_wf (length ps) f"
    and "fst (try_providers cfg now ps r (f, s)) = Inr (i, p)"
    and "Some t \<notin> fst ` set others"
  shows "fst (effective_model_name name (Some t) ps requested
      (fst (foldl (\<lambda>fs (task, r). snd (failover_complete cfg now task ps r fs))
        (snd (failover_complete cfg now (Some t) ps r (f, s))) others)))
    = Some (name (ps ! i) requested)"
proof -
  obtain f' s' where tp: "try_providers cfg now ps r (f, s) = (Inr (i, p), f', s')"
    using assms(3) by (metis prod.exhaust fst_conv)
  obtain av where av: "set av \<subseteq> {0..<length ps}"
    "try_providers cfg now ps r (f, s) = try_loop cfg now ps r av None (f, s)"
    using assms(1) by (rule try_providers_loop)
  have i: "i < length ps"
    using try_loop_index [of cfg now ps r av None f s i p] av assms(3) by auto
  have "hm_get (provider_for_task (fst (foldl (\<lambda>fs (task, r). snd (failover_complete cfg now task ps r fs)) fs others))) t
    = hm_get (provider_for_task (fst fs)) t" for fs
    using assms(4)
    by (induction others arbitrary: fs) (auto simp: complete_bindings_other)
  then show ?thesis
    using i by (simp add: effective_model_name_def take_bound_provider_def failover_complete_def tp
        bind_provider_def hm.lookup_put)
qed

theorem effective_model_is_own_witness:
  "let ps = [\<lambda>r s. (if r < 2 then Inr r else Inl (RequestFailed ''a'' ''down''), s), \<lambda>r s. (Inr (Suc r), s)];
       f = \<lparr>last_used = 0, cooldowns = [cooldown_new, cooldown_new], provider_for_task = []\<rparr>
   in fst (effective_model_name (\<lambda>p _. if fst (p (0 :: nat) (7 :: u64)) = Inr (0 :: nat) then ''a'' else ''b'') (Some 1) ps None
        (fst (foldl (\<lambda>fs (task, r). snd (failover_complete cooldown_config_default (\<lambda>s. s) task ps r fs))
          (snd (failover_complete cooldown_config_default (\<lambda>s. s) (Some 1) ps 5 (f, 7)))
          [(Some 2, 0), (None, 1)]))) = Some ''b''"
proof -
  let ?ps = "[\<lambda>r s. (if r < 2 then Inr r else Inl (RequestFailed ''a'' ''down''), s), \<lambda>r s. (Inr (Suc r), s)]
    :: (nat, nat, u64) provider list"
  let ?f = "\<lparr>last_used = 0, cooldowns = [cooldown_new, cooldown_new], provider_for_task = []\<rparr>"
  have "\<not> is_in_cooldown 7 (cooldown_nanos cooldown_config_default) cooldown_new"
    by (simp add: is_in_cooldown_def cooldown_new_def)
  then have "fst (try_providers cooldown_config_default (\<lambda>s. s) ?ps 5 (?f, 7)) = Inr (1, 6)"
    by (simp add: try_providers_def candidates_def available_def upt_rec)
  then show ?thesis
    using effective_model_is_own [of ?ps ?f cooldown_config_default "\<lambda>s. s" 5 7 1 6 1 "[(Some 2, 0), (None, 1)]"]
    by (simp add: failover_wf_def Let_def)
qed

end
