(* ===== verification/Response_Cache.thy ===== *)
theory Response_Cache
  imports Provider
begin

text \<open>
  \<open>src/llm/response_cache.rs\<close>: the response cache with time-to-live and LRU eviction, in front
  of a provider. The two critical sections (lookup before the call, store after it) are separate
  definitions, since the lock is not held while the inner provider runs. SHA-256 and the JSON
  serializer are arguments. Statistics are only logged and are left out.
\<close>

record response_cache_config =
  ttl :: duration
  max_entries :: nat

definition response_cache_config_default :: response_cache_config where
  "response_cache_config_default = \<lparr>ttl = secs 3600, max_entries = 1000\<rparr>"

record cache_entry =
  response :: completion_response
  created_at :: instant
  last_accessed :: instant
  hit_count :: u64

record cached_provider =
  cache :: "(string, cache_entry) hashmap"
  request_count :: u64
  total_hit_count :: u64

definition cached_new :: cached_provider where
  "cached_new = \<lparr>cache = [], request_count = 0, total_hit_count = 0\<rparr>"

definition cached_len :: "cached_provider \<Rightarrow> nat" where
  "cached_len c = length (cache c)"

definition cached_clear :: "cached_provider \<Rightarrow> cached_provider" where
  "cached_clear c = c\<lparr>cache := []\<rparr>"

section \<open>Keys\<close>

definition le_bytes :: "u32 \<Rightarrow> string" where
  "le_bytes w = map (\<lambda>i. char_of (unat w div 256 ^ i mod 256)) [0..<4]"

text \<open>The bytes fed to the hasher, in order.\<close>

definition key_preimage :: "(chat_message list \<Rightarrow> string option) \<Rightarrow> string \<Rightarrow> completion_request \<Rightarrow> string" where
  "key_preimage to_json model r =
     model @ ''|''
     @ (case to_json (rq_messages r) of Some json \<Rightarrow> json | None \<Rightarrow> [])
     @ ''|'' @ (case rq_max_tokens r of Some n \<Rightarrow> le_bytes n | None \<Rightarrow> [])
     @ ''|'' @ (case rq_temperature r of Some t \<Rightarrow> le_bytes t | None \<Rightarrow> [])
     @ ''|'' @ (case rq_stop_sequences r of
                  Some stops \<Rightarrow> concat (map (\<lambda>s. s @ [CHR 0x00]) stops)
                | None \<Rightarrow> [])"

definition cache_key ::
  "(string \<Rightarrow> string) \<Rightarrow> (chat_message list \<Rightarrow> string option) \<Rightarrow> string \<Rightarrow> completion_request \<Rightarrow> string" where
  "cache_key sha256 to_json model r = sha256 (key_preimage to_json model r)"

section \<open>Critical sections\<close>

definition fresh :: "response_cache_config \<Rightarrow> instant \<Rightarrow> cache_entry \<Rightarrow> bool" where
  "fresh cfg now e = (now - created_at e < ttl cfg)"

definition cache_lookup ::
  "response_cache_config \<Rightarrow> instant \<Rightarrow> string \<Rightarrow> cached_provider \<Rightarrow> completion_response option \<times> cached_provider" where
  "cache_lookup cfg now key c =
     (case hm_get (cache c) key of
        None \<Rightarrow> (None, c)
      | Some e \<Rightarrow>
          (if fresh cfg now e
           then (Some (response e),
                 c\<lparr>cache := hm_update key (\<lambda>e. e\<lparr>last_accessed := now, hit_count := hit_count e + 1\<rparr>) (cache c),
                   total_hit_count := total_hit_count c + 1\<rparr>)
           else (None, c\<lparr>cache := hm_remove key (cache c)\<rparr>)))"

function evict_lru :: "nat \<Rightarrow> (string, cache_entry) hashmap \<Rightarrow> (string, cache_entry) hashmap" where
  "evict_lru n m =
     (if n \<le> length m
      then (case min_by_key (\<lambda>(_, e). last_accessed e) m of
              Some (k, _) \<Rightarrow> evict_lru n (hm_remove k m)
            | None \<Rightarrow> m)
      else m)"
  by pat_completeness auto
termination
  by (relation "measure (length \<circ> snd)") (auto dest!: min_by_key_Some dest: length_hm_remove_less)

declare evict_lru.simps [simp del]

definition cache_store ::
  "response_cache_config \<Rightarrow> instant \<Rightarrow> string \<Rightarrow> completion_response \<Rightarrow> cached_provider \<Rightarrow> cached_provider" where
  "cache_store cfg now key p c =
     (let kept = filter (\<lambda>(_, e). fresh cfg now e) (cache c);
          kept = evict_lru (max_entries cfg) kept
      in c\<lparr>cache := hm_insert key \<lparr>response = p, created_at = now, last_accessed = now, hit_count = 0\<rparr> kept\<rparr>)"

text \<open>
  The decorator. The time stamp of the stored entry is the one taken before the inner call;
  the name of the effective model comes from the inner provider, which may change its state.
\<close>

definition cached_complete ::
  "(string \<Rightarrow> string) \<Rightarrow> (chat_message list \<Rightarrow> string option) \<Rightarrow> response_cache_config
   \<Rightarrow> (string option \<Rightarrow> 's \<Rightarrow> string \<times> 's) \<Rightarrow> ('s \<Rightarrow> instant)
   \<Rightarrow> (completion_request, completion_response, 's) provider
   \<Rightarrow> (completion_request, completion_response, cached_provider \<times> 's) provider" where
  "cached_complete sha256 to_json cfg effective now call r cs =
     (case cs of (c, s) \<Rightarrow>
       (case effective (rq_model r) s of (model, s) \<Rightarrow>
         (let key = cache_key sha256 to_json model r; t = now s;
              c = c\<lparr>request_count := request_count c + 1\<rparr>
          in case cache_lookup cfg t key c of
               (Some p, c) \<Rightarrow> (Inr p, (c, s))
             | (None, c) \<Rightarrow>
                 (case call r s of
                    (Inl e, s) \<Rightarrow> (Inl e, (c, s))
                  | (Inr p, s) \<Rightarrow> (Inr p, (cache_store cfg t key p c, s))))))"

definition cached_complete_with_tools :: "('q, 'p, 's) provider \<Rightarrow> ('q, 'p, cached_provider \<times> 's) provider" where
  "cached_complete_with_tools call r cs = (case cs of (c, s) \<Rightarrow> (case call r s of (x, s) \<Rightarrow> (x, (c, s))))"

section \<open>Eviction\<close>

lemma evict_lru_Nil [simp]: "evict_lru n [] = []"
  by (simp add: evict_lru.simps)

lemma evict_lru_filter: "\<exists>q. evict_lru n m = filter q m"
proof (induction n m rule: evict_lru.induct)
  case (1 n m)
  show ?case
  proof (cases "n \<le> length m \<and> m \<noteq> []")
    case True
    then obtain k e where k: "min_by_key (\<lambda>(_, e). last_accessed e) m = Some (k, e)"
      by (metis min_by_key_None not_None_eq surj_pair)
    then obtain q where "evict_lru n (hm_remove k m) = filter q (hm_remove k m)"
      using 1 True by blast
    then show ?thesis
      using True k by (auto simp: evict_lru.simps [of n m] hm_remove_def)
  next
    case False
    then have "evict_lru n m = filter (\<lambda>_. True) m"
      by (subst evict_lru.simps) auto
    then show ?thesis by (rule exI [of _ "\<lambda>_. True"])
  qed
qed

lemma evict_lru_subset: "set (evict_lru n m) \<subseteq> set m"
  using evict_lru_filter [of n m] by auto

lemma evict_lru_wf: "hm_wf m \<Longrightarrow> hm_wf (evict_lru n m)"
  using evict_lru_filter [of n m] by auto

lemma evict_lru_length: "evict_lru n m = [] \<or> length (evict_lru n m) < n"
  by (induction n m rule: evict_lru.induct)
     (subst (1 2) evict_lru.simps, auto split: option.splits)

lemma evict_lru_order:
  "hm_wf m \<Longrightarrow> x \<in> set m \<Longrightarrow> x \<notin> set (evict_lru n m) \<Longrightarrow> y \<in> set (evict_lru n m)
   \<Longrightarrow> last_accessed (snd x) \<le> last_accessed (snd y)"
proof (induction n m rule: evict_lru.induct)
  case (1 n m)
  show ?case
  proof (cases "n \<le> length m")
    case True
    with 1 obtain k e where k: "min_by_key (\<lambda>(_, e). last_accessed e) m = Some (k, e)"
      by (metis min_by_key_None not_None_eq surj_pair empty_iff list.set(1))
    then have ev: "evict_lru n m = evict_lru n (hm_remove k m)"
      using True by (simp add: evict_lru.simps [of n m])
    have min: "(k, e) \<in> set m" "\<And>z. z \<in> set m \<Longrightarrow> last_accessed e \<le> last_accessed (snd z)"
      using min_by_key_Some [OF k] by (auto split: prod.splits)
    show ?thesis
    proof (cases "fst x = k")
      case True
      then have "snd x = e"
        using 1(2,3) min(1) by (metis hm_get_in_set option.inject prod.collapse)
      moreover have "y \<in> set m"
        using 1(5) evict_lru_subset [of n m] by blast
      ultimately show ?thesis using min(2) by simp
    next
      case False
      then show ?thesis
        using 1(1) [OF True k refl] 1(2-5) ev by (simp add: set_hm_remove)
    qed
  next
    case False
    then show ?thesis using 1 by (simp add: evict_lru.simps [of n m])
  qed
qed

section \<open>Sequences of critical sections\<close>

datatype cache_op =
    Lookup instant string
  | Store instant string completion_response
  | Clear
  | Count

fun cache_step :: "response_cache_config \<Rightarrow> cached_provider \<Rightarrow> cache_op \<Rightarrow> cached_provider" where
  "cache_step cfg c (Lookup t k) = snd (cache_lookup cfg t k c)"
| "cache_step cfg c (Store t k p) = cache_store cfg t k p c"
| "cache_step cfg c Clear = cached_clear c"
| "cache_step cfg c Count = c\<lparr>request_count := request_count c + 1\<rparr>"

text \<open>
  The bound is at least one entry: with \<open>max_entries = 0\<close> the eviction loop empties the map and
  the new entry is inserted all the same.
\<close>

definition cache_wf :: "response_cache_config \<Rightarrow> cached_provider \<Rightarrow> bool" where
  "cache_wf cfg c \<longleftrightarrow> hm_wf (cache c) \<and> length (cache c) \<le> max 1 (max_entries cfg)"

lemma length_hm_update [simp]: "length (hm_update k f m) = length m"
  by (simp add: hm_update_def)

lemma length_hm_remove_le: "length (hm_remove k m) \<le> length m"
  by (simp add: hm_remove_def)

lemma cache_lookup_wf: "cache_wf cfg c \<Longrightarrow> cache_wf cfg (snd (cache_lookup cfg t k c))"
  using length_hm_remove_le [of k "cache c"]
  by (auto simp: cache_wf_def cache_lookup_def split: option.splits)

lemma cache_store_wf: "cache_wf cfg c \<Longrightarrow> cache_wf cfg (cache_store cfg t k p c)"
  using evict_lru_length [of "max_entries cfg" "filter (\<lambda>(_, e). fresh cfg t e) (cache c)"]
  by (auto simp: cache_wf_def cache_store_def Let_def length_hm_insert evict_lru_wf)

interpretation cache_machine: invariant_machine "cache_step cfg" "cache_wf cfg"
proof
  show "cache_wf cfg c \<Longrightarrow> cache_wf cfg (cache_step cfg c x)" for c x
    by (cases x) (auto simp: cache_lookup_wf cache_store_wf, auto simp: cache_wf_def cached_clear_def)
qed

lemma cached_new_wf: "cache_wf cfg cached_new"
  by (simp add: cache_wf_def cached_new_def)

section \<open>Where a hit comes from\<close>

definition resets :: "string \<Rightarrow> cache_op \<Rightarrow> bool" where
  "resets k x = (case x of Store _ k' _ \<Rightarrow> k' = k | Clear \<Rightarrow> True | _ \<Rightarrow> False)"

definition stored_as :: "cache_op list \<Rightarrow> string \<Rightarrow> cache_entry \<Rightarrow> bool" where
  "stored_as xs k e \<longleftrightarrow> (\<exists>before after. xs = before @ Store (created_at e) k (response e) # after
     \<and> (\<forall>x \<in> set after. \<not> resets k x))"

lemma stored_as_snoc: "\<not> resets k x \<Longrightarrow> stored_as xs k e \<Longrightarrow> stored_as (xs @ [x]) k e"
  unfolding stored_as_def by fastforce

lemma stored_as_new: "stored_as (xs @ [Store t k p]) k \<lparr>response = p, created_at = t, last_accessed = t, hit_count = 0\<rparr>"
  unfolding stored_as_def by fastforce

lemma cache_lookup_entries:
  assumes "(k, e) \<in> set (cache (snd (cache_lookup cfg t k' c)))"
  shows "\<exists>e'. (k, e') \<in> set (cache c) \<and> response e = response e' \<and> created_at e = created_at e'"
proof (cases "\<exists>x. hm_get (cache c) k' = Some x \<and> fresh cfg t x")
  case True
  then have "(k, e) \<in> set (hm_update k' (\<lambda>e. e\<lparr>last_accessed := t, hit_count := hit_count e + 1\<rparr>) (cache c))"
    using assms by (auto simp: cache_lookup_def)
  then show ?thesis
    by (force simp: hm_update_def split: if_splits)
next
  case False
  then have "(k, e) \<in> set (cache c)"
    using assms by (auto simp: cache_lookup_def hm_remove_def split: option.splits)
  then show ?thesis by blast
qed

lemma cache_step_origin:
  assumes "cache_wf cfg c" and "\<And>k e. (k, e) \<in> set (cache c) \<Longrightarrow> stored_as xs k e"
    and "(k, e) \<in> set (cache (cache_step cfg c x))"
  shows "stored_as (xs @ [x]) k e"
proof (cases x)
  case (Lookup t k')
  then obtain e' where "(k, e') \<in> set (cache c)" "response e = response e'" "created_at e = created_at e'"
    using assms(3) cache_lookup_entries by fastforce
  then have "stored_as xs k e"
    using assms(2) [of k e'] by (simp add: stored_as_def)
  then show ?thesis
    by (rule stored_as_snoc [rotated]) (simp add: Lookup resets_def)
next
  case (Store t k' p)
  have wf: "hm_wf (evict_lru (max_entries cfg) (filter (\<lambda>(_, e). fresh cfg t e) (cache c)))"
    using assms(1) by (simp add: cache_wf_def evict_lru_wf)
  show ?thesis
  proof (cases "k = k'")
    case True
    then have "e = \<lparr>response = p, created_at = t, last_accessed = t, hit_count = 0\<rparr>"
      using assms(3) Store by (simp add: cache_store_def set_hm_insert [OF wf])
    then show ?thesis using True Store by (simp add: stored_as_new)
  next
    case False
    then have "(k, e) \<in> set (evict_lru (max_entries cfg) (filter (\<lambda>(_, e). fresh cfg t e) (cache c)))"
      using assms(3) Store by (simp add: cache_store_def set_hm_insert [OF wf])
    then have "(k, e) \<in> set (cache c)"
      using evict_lru_subset by force
    then show ?thesis
      using False Store by (intro stored_as_snoc assms(2)) (auto simp: resets_def)
  qed
qed (use assms in \<open>auto simp: cached_clear_def resets_def intro!: stored_as_snoc\<close>)

lemma cache_origin:
  "(k, e) \<in> set (cache (foldl (cache_step cfg) cached_new xs)) \<Longrightarrow> stored_as xs k e"
proof (induction xs arbitrary: k e rule: rev_induct)
  case Nil
  then show ?case by (simp add: cached_new_def)
next
  case (snoc x xs)
  show ?case
    using snoc.prems cache_step_origin [OF cache_machine.run_inv [OF cached_new_wf] snoc.IH] by simp
qed

section \<open>The decorator\<close>

text \<open>
  A cached response stands for every request with its key, so the cache is sound for those
  notions of acceptable response that only depend on the key.
\<close>

definition key_determines ::
  "(string \<Rightarrow> string) \<Rightarrow> (chat_message list \<Rightarrow> string option)
   \<Rightarrow> (completion_request \<Rightarrow> completion_response \<Rightarrow> bool) \<Rightarrow> bool" where
  "key_determines sha256 to_json acceptable \<longleftrightarrow>
     (\<forall>m r m' r' p. cache_key sha256 to_json m r = cache_key sha256 to_json m' r'
        \<longrightarrow> acceptable r p \<longrightarrow> acceptable r' p)"

definition entries_acceptable ::
  "(string \<Rightarrow> string) \<Rightarrow> (chat_message list \<Rightarrow> string option)
   \<Rightarrow> (completion_request \<Rightarrow> completion_response \<Rightarrow> bool) \<Rightarrow> cached_provider \<Rightarrow> bool" where
  "entries_acceptable sha256 to_json acceptable c \<longleftrightarrow>
     (\<forall>(k, e) \<in> set (cache c). \<forall>m r. cache_key sha256 to_json m r = k \<longrightarrow> acceptable r (response e))"

lemma entries_acceptableI:
  "(\<And>e m r. (cache_key sha to_json m r, e) \<in> set (cache c) \<Longrightarrow> acc r (response e)) \<Longrightarrow> entries_acceptable sha to_json acc c"
  unfolding entries_acceptable_def by blast

lemma entries_acceptableD:
  "entries_acceptable sha to_json acc c \<Longrightarrow> (cache_key sha to_json m r, e) \<in> set (cache c) \<Longrightarrow> acc r (response e)"
  unfolding entries_acceptable_def by blast

lemma key_determinesD:
  "key_determines sha to_json acc \<Longrightarrow> cache_key sha to_json m r = cache_key sha to_json m' r' \<Longrightarrow> acc r p \<Longrightarrow> acc r' p"
  unfolding key_determines_def by blast

lemma entries_acceptable_lookup:
  assumes "entries_acceptable sha to_json acc c"
  shows "entries_acceptable sha to_json acc (snd (cache_lookup cfg t k c))"
    and "fst (cache_lookup cfg t (cache_key sha to_json m r) c) = Some p \<Longrightarrow> acc r p"
proof -
  show "entries_acceptable sha to_json acc (snd (cache_lookup cfg t k c))"
  proof (rule entries_acceptableI)
    fix e m r assume "(cache_key sha to_json m r, e) \<in> set (cache (snd (cache_lookup cfg t k c)))"
    then obtain e' where "(cache_key sha to_json m r, e') \<in> set (cache c)" "response e = response e'"
      using cache_lookup_entries by blast
    then show "acc r (response e)"
      using entries_acceptableD [OF assms] by simp
  qed
  show "fst (cache_lookup cfg t (cache_key sha to_json m r) c) = Some p \<Longrightarrow> acc r p"
    using assms
    by (auto simp: entries_acceptable_def cache_lookup_def hm_get_def split: option.splits if_splits dest!: map_of_SomeD)
qed

lemma entries_acceptable_store:
  assumes "key_determines sha to_json acc" and "acc r p" and "entries_acceptable sha to_json acc c" and "hm_wf (cache c)"
  shows "entries_acceptable sha to_json acc (cache_store cfg t (cache_key sha to_json m r) p c)"
proof -
  have wf: "hm_wf (evict_lru (max_entries cfg) (filter (\<lambda>(_, e). fresh cfg t e) (cache c)))"
    using assms(4) by (simp add: evict_lru_wf)
  have "set (evict_lru (max_entries cfg) (filter (\<lambda>(_, e). fresh cfg t e) (cache c))) \<subseteq> set (cache c)"
    using evict_lru_subset by fastforce
  then have "set (cache (cache_store cfg t (cache_key sha to_json m r) p c)) \<subseteq>
      insert (cache_key sha to_json m r, \<lparr>response = p, created_at = t, last_accessed = t, hit_count = 0\<rparr>) (set (cache c))"
    by (auto simp: cache_store_def set_hm_insert [OF wf])
  then show ?thesis
  proof (intro entries_acceptableI)
    fix e m' r'
    assume sub: "set (cache (cache_store cfg t (cache_key sha to_json m r) p c)) \<subseteq>
        insert (cache_key sha to_json m r, \<lparr>response = p, created_at = t, last_accessed = t, hit_count = 0\<rparr>) (set (cache c))"
      and mem: "(cache_key sha to_json m' r', e) \<in> set (cache (cache_store cfg t (cache_key sha to_json m r) p c))"
    then consider "cache_key sha to_json m r = cache_key sha to_json m' r'" "response e = p"
      | "(cache_key sha to_json m' r', e) \<in> set (cache c)" by auto
    then show "acc r' (response e)"
      using key_determinesD [OF assms(1) _ assms(2)] entries_acceptableD [OF assms(3)] by cases simp_all
  qed
qed

lemma cached_complete_ok:
  assumes "key_determines sha to_json acc \<and> (\<forall>m s. ok s \<longrightarrow> ok (snd (effective m s)))"
    and "provider_ok call ok acc"
  shows "provider_ok (cached_complete sha to_json cfg effective now call)
    (\<lambda>(c, s). cache_wf cfg c \<and> entries_acceptable sha to_json acc c \<and> ok s) acc"
proof (rule provider_ok_pairI, elim conjE)
  fix r c s
  assume c: "cache_wf cfg c" "entries_acceptable sha to_json acc c" and s: "ok s"
  show "(case snd (cached_complete sha to_json cfg effective now call r (c, s)) of
      (c, s) \<Rightarrow> cache_wf cfg c \<and> entries_acceptable sha to_json acc c \<and> ok s)
    \<and> (\<forall>p. fst (cached_complete sha to_json cfg effective now call r (c, s)) = Inr p \<longrightarrow> acc r p)"
  proof -
    obtain m s1 where eff: "effective (rq_model r) s = (m, s1)" by fastforce
    then have s1: "ok s1" using assms(1) s by (metis snd_conv)
    define c0 where "c0 = c\<lparr>request_count := request_count c + 1\<rparr>"
    have c0: "cache_wf cfg c0" "entries_acceptable sha to_json acc c0"
      using c by (simp_all add: c0_def cache_wf_def entries_acceptable_def)
    obtain h c1 where look: "cache_lookup cfg (now s1) (cache_key sha to_json m r) c0 = (h, c1)" by fastforce
    have c1: "cache_wf cfg c1" "entries_acceptable sha to_json acc c1"
      using cache_lookup_wf [OF c0(1)] entries_acceptable_lookup(1) [OF c0(2)] look by (metis snd_conv)+
    have hit: "\<And>p. h = Some p \<Longrightarrow> acc r p"
      using entries_acceptable_lookup(2) [OF c0(2)] look by (metis fst_conv)
    obtain x s2 where call: "call r s1 = (x, s2)" by fastforce
    have s2: "ok s2" "\<And>p. x = Inr p \<Longrightarrow> acc r p"
      using provider_ok_state [OF assms(2) s1, of r] provider_ok_response [OF assms(2) s1, of r] call by auto
    have wf1: "hm_wf (cache c1)" using c1 by (simp add: cache_wf_def)
    have run: "cached_complete sha to_json cfg effective now call r (c, s) =
      (case h of Some p \<Rightarrow> (Inr p, (c1, s1)) | None \<Rightarrow>
        (case x of Inl e \<Rightarrow> (Inl e, (c1, s2))
         | Inr p \<Rightarrow> (Inr p, (cache_store cfg (now s1) (cache_key sha to_json m r) p c1, s2))))"
      by (simp add: cached_complete_def eff Let_def c0_def [symmetric] look call split: option.split)
    have store: "entries_acceptable sha to_json acc (cache_store cfg (now s1) (cache_key sha to_json m r) p c1)"
      if "x = Inr p" for p
      using that s2 assms(1) c1 wf1 by (intro entries_acceptable_store) auto
    show ?thesis
      unfolding run using c1 hit s1 s2 store by (auto split: option.split sum.split intro: cache_store_wf)
  qed
qed

interpretation cached: sound_decorator "cached_complete sha256 to_json cfg effective now"
  "\<lambda>ok acceptable (c, s). cache_wf cfg c \<and> entries_acceptable sha256 to_json acceptable c \<and> ok s"
  "\<lambda>ok acceptable. key_determines sha256 to_json acceptable \<and> (\<forall>m s. ok s \<longrightarrow> ok (snd (effective m s)))"
  by unfold_locales (rule cached_complete_ok)

section \<open>Keys of different requests\<close>

text \<open>
  Stop sequences are joined with a NUL byte but may contain one: \<open>["a\0b"]\<close> and \<open>["a", "b"]\<close>
  are fed to the hasher as the same bytes, whatever the rest of the request is.
\<close>

theorem stop_sequences_collide:
  "cache_key sha256 to_json model (r\<lparr>rq_stop_sequences := Some [''a'' @ [CHR 0x00] @ ''b'']\<rparr>)
   = cache_key sha256 to_json model (r\<lparr>rq_stop_sequences := Some [''a'', ''b'']\<rparr>)"
  by (simp add: cache_key_def key_preimage_def)

section \<open>Theorems\<close>

text \<open>
  Whatever sequence of lookups, stores and clears concurrent calls produce, the cache never
  holds more than \<open>max_entries\<close> entries (one, if \<open>max_entries\<close> is 0), under distinct keys; a
  store makes its own response retrievable, drops every expired entry, and any entry it evicts
  on top of those was used no later than every older entry it keeps.
\<close>

theorem cache_bounded_lru:
  "let c = foldl (cache_step cfg) cached_new xs; c' = cache_store cfg t k p c
   in hm_wf (cache c) \<and> cached_len c \<le> max 1 (max_entries cfg)
      \<and> map_option response (hm_get (cache c') k) = Some p
      \<and> {kv \<in> set (cache c'). fst kv \<noteq> k} \<subseteq> {kv \<in> set (cache c). fresh cfg t (snd kv)}
      \<and> (\<forall>x y. x \<in> set (cache c) \<and> fresh cfg t (snd x) \<and> fst x \<noteq> k \<and> x \<notin> set (cache c')
           \<and> y \<in> set (cache c') \<and> fst y \<noteq> k \<longrightarrow> last_accessed (snd x) \<le> last_accessed (snd y))"
proof -
  define c where "c = foldl (cache_step cfg) cached_new xs"
  let ?kept = "filter (\<lambda>(_, e). fresh cfg t e) (cache c)"
  have wf: "cache_wf cfg c"
    unfolding c_def by (rule cache_machine.run_inv [OF cached_new_wf])
  then have kept: "hm_wf ?kept" and ev: "hm_wf (evict_lru (max_entries cfg) ?kept)"
    by (simp_all add: cache_wf_def evict_lru_wf)
  have store: "set (cache (cache_store cfg t k p c)) =
      insert (k, \<lparr>response = p, created_at = t, last_accessed = t, hit_count = 0\<rparr>)
        {kv \<in> set (evict_lru (max_entries cfg) ?kept). fst kv \<noteq> k}"
    by (simp add: cache_store_def set_hm_insert [OF ev])
  have sub: "{kv \<in> set (cache (cache_store cfg t k p c)). fst kv \<noteq> k} \<subseteq> {kv \<in> set (cache c). fresh cfg t (snd kv)}"
    using evict_lru_subset [of "max_entries cfg" ?kept] by (auto simp: store)
  have lru: "last_accessed (snd x) \<le> last_accessed (snd y)"
    if "x \<in> set (cache c)" "fresh cfg t (snd x)" "fst x \<noteq> k" "x \<notin> set (cache (cache_store cfg t k p c))"
      "y \<in> set (cache (cache_store cfg t k p c))" "fst y \<noteq> k" for x y
    using that by (intro evict_lru_order [OF kept]) (auto simp: store split: prod.splits)
  have "map_option response (hm_get (cache (cache_store cfg t k p c)) k) = Some p"
    by (simp add: cache_store_def hm.lookup_put)
  then show ?thesis
    using wf sub lru unfolding c_def [symmetric] Let_def cache_wf_def cached_len_def by blast
qed

theorem cache_bounded_lru_witness:
  "let cfg = \<lparr>ttl = 100, max_entries = 1\<rparr>;
       p = \<lparr>rs_content = ''hi'', rs_input_tokens = 1, rs_output_tokens = 1, rs_finish_reason = Stop,
            rs_cache_read_input_tokens = 0, rs_cache_creation_input_tokens = 0\<rparr>;
       c = foldl (cache_step cfg) cached_new [Store 0 ''k'' p, Store 5 ''l'' p]
   in cached_len c \<le> 1 \<and> map_option response (hm_get (cache (cache_store cfg 7 ''m'' p c)) ''m'') = Some p"
  using cache_bounded_lru [of "\<lparr>ttl = 100, max_entries = 1\<rparr>"
      "[Store 0 ''k'' p, Store 5 ''l'' p]" 7 "''m''" p for p]
  by (auto simp: Let_def)

text \<open>
  C32. A cache hit at time \<open>t\<close> returns the response of the last store under that key, made less
  than the time-to-live before \<open>t\<close> and not followed by a clear, whatever lookups, stores and
  clears of concurrent calls came in between; and a hit is answered without calling the
  provider.
\<close>

theorem cache_hit_origin:
  assumes "fst (cache_lookup cfg t k (foldl (cache_step cfg) cached_new xs)) = Some p"
  shows "(\<exists>before t0 after. xs = before @ Store t0 k p # after \<and> t - t0 < ttl cfg
      \<and> (\<forall>x \<in> set after. \<not> resets k x))
    \<and> (effective (rq_model r) s = (m, s') \<and> now s' = t \<and> cache_key sha256 to_json m r = k \<longrightarrow>
       (case cached_complete sha256 to_json cfg effective now call r (foldl (cache_step cfg) cached_new xs, s) of
          (res, c', s'') \<Rightarrow> res = Inr p \<and> s'' = s'))"
proof
  let ?c = "foldl (cache_step cfg) cached_new xs"
  obtain e where e: "hm_get (cache ?c) k = Some e" "fresh cfg t e" "response e = p"
    using assms by (auto simp: cache_lookup_def split: option.splits if_splits)
  then have "stored_as xs k e"
    by (intro cache_origin [of k e cfg]) (simp add: hm_get_def map_of_SomeD)
  then show "\<exists>before t0 after. xs = before @ Store t0 k p # after \<and> t - t0 < ttl cfg
      \<and> (\<forall>x \<in> set after. \<not> resets k x)"
    using e(2,3) unfolding stored_as_def fresh_def by blast
  show "effective (rq_model r) s = (m, s') \<and> now s' = t \<and> cache_key sha256 to_json m r = k \<longrightarrow>
       (case cached_complete sha256 to_json cfg effective now call r (?c, s) of
          (res, c', s'') \<Rightarrow> res = Inr p \<and> s'' = s')"
    using e by (auto simp: cached_complete_def cache_lookup_def Let_def)
qed

theorem cache_hit_origin_witness:
  "let cfg = \<lparr>ttl = 100, max_entries = 1\<rparr>;
       p = \<lparr>rs_content = ''hi'', rs_input_tokens = 1, rs_output_tokens = 1, rs_finish_reason = Stop,
            rs_cache_read_input_tokens = 0, rs_cache_creation_input_tokens = 0\<rparr>;
       xs = [Store 3 ''k'' p, Lookup 50 ''k'']
   in \<exists>before t0 after. xs = before @ Store t0 ''k'' p # after \<and> 60 - t0 < 100"
proof -
  let ?p = "\<lparr>rs_content = ''hi'', rs_input_tokens = 1, rs_output_tokens = 1, rs_finish_reason = Stop,
            rs_cache_read_input_tokens = 0, rs_cache_creation_input_tokens = 0\<rparr>"
  have "fst (cache_lookup \<lparr>ttl = 100, max_entries = 1\<rparr> 60 ''k''
      (foldl (cache_step \<lparr>ttl = 100, max_entries = 1\<rparr>) cached_new [Store 3 ''k'' ?p, Lookup 50 ''k''])) = Some ?p"
    by (simp add: cached_new_def cache_store_def cache_lookup_def hm_insert_def hm_get_def hm_update_def fresh_def)
  from conjunct1 [OF cache_hit_origin [OF this]] show ?thesis
    by (auto simp: Let_def)
qed

end
