(* ===== verification/Network_Policy.thy ===== *)
theory Network_Policy
  imports Prelude
begin

text \<open>
  \<open>src/sandbox/proxy/allowlist.rs\<close> and \<open>src/sandbox/proxy/policy.rs\<close>: the domain allowlist of
  the sandbox proxy and the decision whether a request is denied, passed or passed with a
  credential. URL parsing belongs to the \<open>url\<close> crate and is an argument; what the code reads of
  a parsed URL is the record \<open>url_parts\<close>.
\<close>

record url_parts =
  url_scheme :: string
  url_username :: string
  url_password :: "string option"
  url_host_str :: "string option"
  url_path :: string

type_synonym url_parser = "string \<Rightarrow> string + url_parts"

definition strip_brackets :: "string \<Rightarrow> string" where
  "strip_brackets h =
     (case strip_prefix h ''['' of
        Some v \<Rightarrow> (case strip_suffix v '']'' of Some w \<Rightarrow> w | None \<Rightarrow> h)
      | None \<Rightarrow> h)"

section \<open>Domain allowlist\<close>

record domain_pattern =
  dp_pattern :: string
  dp_is_wildcard :: bool
  dp_base_domain :: string

definition domain_pattern_new :: "string \<Rightarrow> domain_pattern" where
  "domain_pattern_new p =
     (let w = starts_with p ''*.''
      in \<lparr>dp_pattern = p, dp_is_wildcard = w,
          dp_base_domain = (if w then to_lowercase (drop 2 p) else to_lowercase p)\<rparr>)"

definition domain_matches :: "domain_pattern \<Rightarrow> string \<Rightarrow> bool" where
  "domain_matches p host =
     (let host_lower = to_lowercase host
      in if dp_is_wildcard p
         then host_lower = dp_base_domain p \<or> ends_with host_lower (''.'' @ dp_base_domain p)
         else host_lower = dp_base_domain p)"

datatype domain_validation_result = DomainAllowed | DomainDenied string

definition domain_result_allowed :: "domain_validation_result \<Rightarrow> bool" where
  "domain_result_allowed r = (case r of DomainAllowed \<Rightarrow> True | DomainDenied _ \<Rightarrow> False)"

type_synonym domain_allowlist = "domain_pattern list"

definition domain_allowlist_new :: "string list \<Rightarrow> domain_allowlist" where
  "domain_allowlist_new ds = map domain_pattern_new ds"

definition domain_allowlist_empty :: domain_allowlist where
  "domain_allowlist_empty = []"

definition domain_allowlist_add :: "string \<Rightarrow> domain_allowlist \<Rightarrow> domain_allowlist" where
  "domain_allowlist_add p ps = ps @ [domain_pattern_new p]"

fun any_domain_matches :: "domain_allowlist \<Rightarrow> string \<Rightarrow> bool" where
  "any_domain_matches [] host = False"
| "any_domain_matches (p # ps) host = (if domain_matches p host then True else any_domain_matches ps host)"

definition domain_is_allowed :: "domain_allowlist \<Rightarrow> string \<Rightarrow> domain_validation_result" where
  "domain_is_allowed ps host =
     (if ps = [] then DomainDenied ''empty allowlist''
      else if any_domain_matches ps host then DomainAllowed
      else DomainDenied (''host '' @ [CHR 0x27] @ host @ [CHR 0x27] @ '' not in allowlist: [''
             @ join '', '' (map dp_pattern ps) @ '']''))"

definition extract_host :: "url_parser \<Rightarrow> string \<Rightarrow> string option" where
  "extract_host parse url =
     (case parse url of
        Inl _ \<Rightarrow> None
      | Inr u \<Rightarrow>
          (if url_scheme u \<notin> {''http'', ''https''} then None
           else map_option (\<lambda>h. to_lowercase (strip_brackets h)) (url_host_str u)))"

section \<open>Policy\<close>

datatype credential_location =
    AuthorizationBearer
  | AuthorizationBasic string
  | Header string "string option"
  | QueryParam string
  | UrlPath string

record credential_mapping =
  cm_secret_name :: string
  cm_location :: credential_location
  cm_host_patterns :: "string list"

definition mapping_bearer :: "string \<Rightarrow> string \<Rightarrow> credential_mapping" where
  "mapping_bearer secret host = \<lparr>cm_secret_name = secret, cm_location = AuthorizationBearer, cm_host_patterns = [host]\<rparr>"

definition mapping_header :: "string \<Rightarrow> string \<Rightarrow> string \<Rightarrow> credential_mapping" where
  "mapping_header secret header host =
     \<lparr>cm_secret_name = secret, cm_location = Header header None, cm_host_patterns = [host]\<rparr>"

record network_request =
  nr_method :: string
  nr_url :: string
  nr_host :: string
  nr_path :: string

definition from_url :: "url_parser \<Rightarrow> string \<Rightarrow> string \<Rightarrow> network_request option" where
  "from_url parse meth url =
     (case parse url of
        Inl _ \<Rightarrow> None
      | Inr u \<Rightarrow>
          (if url_scheme u \<notin> {''http'', ''https''} then None
           else case url_host_str u of
                  None \<Rightarrow> None
                | Some h \<Rightarrow> Some \<lparr>nr_method = to_uppercase meth, nr_url = url,
                             nr_host = to_lowercase (strip_brackets h), nr_path = url_path u\<rparr>))"

datatype network_decision =
    Allow
  | AllowWithCredentials string credential_location
  | Deny string

definition decision_allowed :: "network_decision \<Rightarrow> bool" where
  "decision_allowed d = (case d of Deny _ \<Rightarrow> False | _ \<Rightarrow> True)"

definition host_matches_pattern :: "string \<Rightarrow> string \<Rightarrow> bool" where
  "host_matches_pattern host pattern =
     (let pattern_lower = to_lowercase pattern
      in if pattern_lower = host then True
         else case strip_prefix pattern_lower ''*.'' of
                Some suffix \<Rightarrow>
                  (if ends_with host suffix \<and> length suffix < length host
                   then let prefix = take (length host - length suffix) host
                        in ends_with prefix ''.'' \<or> prefix = []
                   else False)
              | None \<Rightarrow> False)"

record default_policy_decider =
  pd_allowlist :: domain_allowlist
  pd_credential_mappings :: "credential_mapping list"

definition find_credential :: "default_policy_decider \<Rightarrow> string \<Rightarrow> credential_mapping option" where
  "find_credential d host =
     (let host_lower = to_lowercase host
      in find (\<lambda>m. list_ex (host_matches_pattern host_lower) (cm_host_patterns m)) (pd_credential_mappings d))"

definition decide :: "default_policy_decider \<Rightarrow> network_request \<Rightarrow> network_decision" where
  "decide d r =
     (case domain_is_allowed (pd_allowlist d) (nr_host r) of
        DomainDenied reason \<Rightarrow> Deny reason
      | DomainAllowed \<Rightarrow>
          (case find_credential d (nr_host r) of
             Some m \<Rightarrow> AllowWithCredentials (cm_secret_name m) (cm_location m)
           | None \<Rightarrow> Allow))"

definition allow_all_decide :: "network_request \<Rightarrow> network_decision" where
  "allow_all_decide r = Allow"

definition deny_all_decide :: "string \<Rightarrow> network_request \<Rightarrow> network_decision" where
  "deny_all_decide reason r = Deny reason"

text \<open>\<open>src/sandbox/config.rs\<close>: the default allowlist and credentials.\<close>

definition default_allowlist :: "string list" where
  "default_allowlist =
     [''crates.io'', ''static.crates.io'', ''index.crates.io'', ''registry.npmjs.org'', ''proxy.golang.org'',
      ''pypi.org'', ''files.pythonhosted.org'', ''docs.rs'', ''doc.rust-lang.org'', ''nodejs.org'', ''go.dev'',
      ''docs.python.org'', ''github.com'', ''raw.githubusercontent.com'', ''api.github.com'',
      ''codeload.github.com'', ''api.openai.com'', ''api.anthropic.com'', ''api.near.ai'']"

definition default_credential_mappings :: "credential_mapping list" where
  "default_credential_mappings =
     [mapping_bearer ''OPENAI_API_KEY'' ''api.openai.com'',
      mapping_header ''ANTHROPIC_API_KEY'' ''x-api-key'' ''api.anthropic.com'',
      mapping_bearer ''NEARAI_API_KEY'' ''api.near.ai'']"

section \<open>What patterns match\<close>

lemma any_domain_matches_iff: "any_domain_matches ps h \<longleftrightarrow> (\<exists>p \<in> set ps. domain_matches p h)"
  by (induction ps) auto

lemma domain_is_allowed_iff:
  "domain_is_allowed ps h = DomainAllowed \<longleftrightarrow> (\<exists>p \<in> set ps. domain_matches p h)"
  by (auto simp: domain_is_allowed_def any_domain_matches_iff)

interpretation domains: allowlist "\<lambda>ps h. domain_is_allowed ps h = DomainAllowed" domain_matches
  by unfold_locales (rule domain_is_allowed_iff)

text \<open>
  A host pattern stands for itself or, with a leading \<open>*.\<close>, for the names below a domain; the
  domain itself is included by the proxy's allowlist and not by credential patterns.
\<close>

definition below_domain :: "string \<Rightarrow> string \<Rightarrow> bool" where
  "below_domain base host \<longleftrightarrow> (\<exists>sub. host = sub @ ''.'' @ base)"

lemma domain_matches_new:
  "domain_matches (domain_pattern_new p) host \<longleftrightarrow>
     (if starts_with p ''*.''
      then to_lowercase host = to_lowercase (drop 2 p) \<or> below_domain (to_lowercase (drop 2 p)) (to_lowercase host)
      else to_lowercase host = to_lowercase p)"
  by (simp add: domain_matches_def domain_pattern_new_def Let_def ends_with_iff below_domain_def)

lemma wildcard_suffix:
  "(ends_with host suffix \<and> length suffix < length host
     \<and> (ends_with (take (length host - length suffix) host) ''.'' \<or> take (length host - length suffix) host = []))
   \<longleftrightarrow> below_domain suffix host"
  by (auto simp: ends_with_iff below_domain_def)

lemma host_matches_pattern_iff:
  "host_matches_pattern host p \<longleftrightarrow>
     host = to_lowercase p \<or> (\<exists>base. to_lowercase p = ''*.'' @ base \<and> below_domain base host)"
proof -
  have "host_matches_pattern host p \<longleftrightarrow> to_lowercase p = host
      \<or> (\<exists>base. strip_prefix (to_lowercase p) ''*.'' = Some base \<and> below_domain base host)"
    unfolding wildcard_suffix [symmetric]
    by (auto simp: host_matches_pattern_def Let_def split: option.splits if_splits)
  then show ?thesis
    by (auto simp: strip_prefix_Some)
qed

lemma find_credential_Some:
  "find_credential d host = Some m \<Longrightarrow>
   m \<in> set (pd_credential_mappings d) \<and> (\<exists>p \<in> set (cm_host_patterns m). host_matches_pattern (to_lowercase host) p)"
  by (auto simp: find_credential_def Let_def list_ex_iff find_Some_iff)

lemma find_credential_None:
  "find_credential d host = None \<longleftrightarrow>
   (\<forall>m \<in> set (pd_credential_mappings d). \<forall>p \<in> set (cm_host_patterns m). \<not> host_matches_pattern (to_lowercase host) p)"
  by (auto simp: find_credential_def Let_def list_ex_iff find_None_iff)

section \<open>Theorems\<close>

text \<open>
  The decision on every request: it is denied unless a pattern of the allowlist covers its
  host; when it goes through with a credential, the credential is one of the configured ones
  and one of its own host patterns covers the host; and it goes through without a credential
  exactly when the host is allowed and no credential pattern covers it.
\<close>

theorem decide_spec:
  "(decision_allowed (decide d r) \<longleftrightarrow> (\<exists>p \<in> set (pd_allowlist d). domain_matches p (nr_host r)))
   \<and> (\<forall>s l. decide d r = AllowWithCredentials s l \<longrightarrow>
        (\<exists>m \<in> set (pd_credential_mappings d). cm_secret_name m = s \<and> cm_location m = l
          \<and> (\<exists>p \<in> set (cm_host_patterns m). host_matches_pattern (to_lowercase (nr_host r)) p)))
   \<and> (decide d r = Allow \<longleftrightarrow>
        (\<exists>p \<in> set (pd_allowlist d). domain_matches p (nr_host r))
        \<and> (\<forall>m \<in> set (pd_credential_mappings d). \<forall>p \<in> set (cm_host_patterns m).
             \<not> host_matches_pattern (to_lowercase (nr_host r)) p))"
proof (cases "domain_is_allowed (pd_allowlist d) (nr_host r)")
  case DomainAllowed
  then show ?thesis
    using domains.permits_iff [of "pd_allowlist d" "nr_host r"] find_credential_Some [of d "nr_host r"]
      find_credential_None [of d "nr_host r"]
    by (cases "find_credential d (nr_host r)") (auto simp: decide_def decision_allowed_def)
next
  case (DomainDenied reason)
  then show ?thesis
    using domains.permits_iff [of "pd_allowlist d" "nr_host r"] by (auto simp: decide_def decision_allowed_def)
qed

theorem decide_spec_witness:
  "let d = \<lparr>pd_allowlist = domain_allowlist_new default_allowlist,
            pd_credential_mappings = default_credential_mappings\<rparr>;
       r = \<lparr>nr_method = ''GET'', nr_url = ''https://evil.example'', nr_host = ''evil.example'', nr_path = ''/''\<rparr>
   in \<not> decision_allowed (decide d r)"
proof -
  have "\<not> (\<exists>p \<in> set (domain_allowlist_new default_allowlist). domain_matches p ''evil.example'')"
    by code_simp
  then show ?thesis
    using conjunct1 [OF decide_spec [of "\<lparr>pd_allowlist = domain_allowlist_new default_allowlist,
            pd_credential_mappings = default_credential_mappings\<rparr>"
        "\<lparr>nr_method = ''GET'', nr_url = ''https://evil.example'', nr_host = ''evil.example'', nr_path = ''/''\<rparr>"]]
    by (simp add: Let_def)
qed

text \<open>
  With the default allowlist and credentials of the sandbox, each API key is only ever added
  to requests for the one host it belongs to, whatever the letter case of the host.
\<close>

theorem default_credentials_confined:
  assumes "decide \<lparr>pd_allowlist = domain_allowlist_new default_allowlist,
      pd_credential_mappings = default_credential_mappings\<rparr> r = AllowWithCredentials secret location"
  shows "(secret, location, to_lowercase (nr_host r)) \<in>
    {(''OPENAI_API_KEY'', AuthorizationBearer, ''api.openai.com''),
     (''ANTHROPIC_API_KEY'', Header ''x-api-key'' None, ''api.anthropic.com''),
     (''NEARAI_API_KEY'', AuthorizationBearer, ''api.near.ai'')}"
proof -
  obtain m p where m: "m \<in> set default_credential_mappings" "p \<in> set (cm_host_patterns m)"
    "host_matches_pattern (to_lowercase (nr_host r)) p" "secret = cm_secret_name m" "location = cm_location m"
    using assms find_credential_Some
    by (fastforce simp: decide_def split: domain_validation_result.splits option.splits)
  have lower: "to_lowercase ''api.openai.com'' = ''api.openai.com''"
    "to_lowercase ''api.anthropic.com'' = ''api.anthropic.com''" "to_lowercase ''api.near.ai'' = ''api.near.ai''"
    by code_simp+
  from m show ?thesis
    by (auto simp: default_credential_mappings_def mapping_bearer_def mapping_header_def
        host_matches_pattern_iff lower)
qed

theorem default_credentials_confined_witness:
  "let d = \<lparr>pd_allowlist = domain_allowlist_new default_allowlist,
            pd_credential_mappings = default_credential_mappings\<rparr>;
       r = \<lparr>nr_method = ''POST'', nr_url = ''https://API.near.ai/v1'', nr_host = ''API.near.ai'', nr_path = ''/v1''\<rparr>
   in decide d r = AllowWithCredentials ''NEARAI_API_KEY'' AuthorizationBearer
      \<and> to_lowercase (nr_host r) = ''api.near.ai''"
proof -
  let ?r = "\<lparr>nr_method = ''POST'', nr_url = ''https://API.near.ai/v1'', nr_host = ''API.near.ai'', nr_path = ''/v1''\<rparr>"
  have "decide \<lparr>pd_allowlist = domain_allowlist_new default_allowlist,
      pd_credential_mappings = default_credential_mappings\<rparr> ?r = AllowWithCredentials ''NEARAI_API_KEY'' AuthorizationBearer"
    by code_simp
  then show ?thesis
    using default_credentials_confined [of ?r "''NEARAI_API_KEY''" AuthorizationBearer] by (simp add: Let_def)
qed

end
