(* ===== verification/Rate_Limiter.thy ===== *)
theory Rate_Limiter
  imports Prelude
begin

text \<open>
  \<open>src/tools/rate_limiter.rs\<close> and its configuration from \<open>src/tools/tool.rs\<close>: per-user,
  per-tool counters over a minute and an hour window. A call reads the clock several times; its
  readings are a function, \<open>clk i\<close> being the \<open>i\<close>-th one. \<open>elapsed\<close> saturates at zero. Counts
  are \<open>u32\<close>.
\<close>

record tool_rate_limit_config =
  requests_per_minute :: u32
  requests_per_hour :: u32

definition tool_rate_limit_config_new :: "u32 \<Rightarrow> u32 \<Rightarrow> tool_rate_limit_config" where
  "tool_rate_limit_config_new m h = \<lparr>requests_per_minute = m, requests_per_hour = h\<rparr>"

definition tool_rate_limit_config_default :: tool_rate_limit_config where
  "tool_rate_limit_config_default = \<lparr>requests_per_minute = 60, requests_per_hour = 1000\<rparr>"

definition MINUTE_SECS :: nat where
  "MINUTE_SECS = 60"

definition HOUR_SECS :: nat where
  "HOUR_SECS = 3600"

datatype limit_type = PerMinute | PerHour

fun show_limit_type :: "limit_type \<Rightarrow> string" where
  "show_limit_type PerMinute = ''per-minute''"
| "show_limit_type PerHour = ''per-hour''"

datatype rate_limit_result =
    RateAllowed u32 u32             \<comment> \<open>remaining in the minute, in the hour\<close>
  | RateLimitedBy duration limit_type

definition rate_allowed :: "rate_limit_result \<Rightarrow> bool" where
  "rate_allowed r = (case r of RateAllowed _ _ \<Rightarrow> True | RateLimitedBy _ _ \<Rightarrow> False)"

record window_state =
  window_start :: instant
  win_count :: u32

definition window_new :: "instant \<Rightarrow> window_state" where
  "window_new now = \<lparr>window_start = now, win_count = 0\<rparr>"

definition maybe_reset :: "duration \<Rightarrow> instant \<Rightarrow> instant \<Rightarrow> window_state \<Rightarrow> window_state" where
  "maybe_reset dur t1 t2 w = (if t1 - window_start w \<ge> dur then \<lparr>window_start = t2, win_count = 0\<rparr> else w)"

definition time_until_reset :: "duration \<Rightarrow> instant \<Rightarrow> window_state \<Rightarrow> duration" where
  "time_until_reset dur t w = (let elapsed = t - window_start w in if elapsed \<ge> dur then 0 else dur - elapsed)"

record tool_rate_limit_state =
  minute_window :: window_state
  hour_window :: window_state

definition rate_state_new :: "instant \<Rightarrow> instant \<Rightarrow> tool_rate_limit_state" where
  "rate_state_new t1 t2 = \<lparr>minute_window = window_new t1, hour_window = window_new t2\<rparr>"

type_synonym rate_limiter = "(string \<times> string, tool_rate_limit_state) hashmap"

definition rate_limiter_new :: rate_limiter where
  "rate_limiter_new = []"

text \<open>The part of \<open>check_internal\<close> that works on the entry of one user and tool.\<close>

definition check_entry ::
  "(nat \<Rightarrow> instant) \<Rightarrow> tool_rate_limit_config \<Rightarrow> bool \<Rightarrow> tool_rate_limit_state
   \<Rightarrow> rate_limit_result \<times> tool_rate_limit_state" where
  "check_entry clk cfg record_it s =
     (let m = maybe_reset (secs MINUTE_SECS) (clk 2) (clk 3) (minute_window s);
          h = maybe_reset (secs HOUR_SECS) (clk 4) (clk 5) (hour_window s)
      in if win_count m \<ge> requests_per_minute cfg
         then (RateLimitedBy (time_until_reset (secs MINUTE_SECS) (clk 6) m) PerMinute,
               \<lparr>minute_window = m, hour_window = h\<rparr>)
         else if win_count h \<ge> requests_per_hour cfg
         then (RateLimitedBy (time_until_reset (secs HOUR_SECS) (clk 6) h) PerHour,
               \<lparr>minute_window = m, hour_window = h\<rparr>)
         else let m = (if record_it then m\<lparr>win_count := win_count m + 1\<rparr> else m);
                  h = (if record_it then h\<lparr>win_count := win_count h + 1\<rparr> else h)
              in (RateAllowed (requests_per_minute cfg - win_count m) (requests_per_hour cfg - win_count h),
                  \<lparr>minute_window = m, hour_window = h\<rparr>))"

definition check_internal ::
  "(nat \<Rightarrow> instant) \<Rightarrow> string \<Rightarrow> string \<Rightarrow> tool_rate_limit_config \<Rightarrow> bool \<Rightarrow> rate_limiter
   \<Rightarrow> rate_limit_result \<times> rate_limiter" where
  "check_internal clk user tool cfg record_it st =
     (let key = (user, tool);
          s = (case hm_get st key of Some s \<Rightarrow> s | None \<Rightarrow> rate_state_new (clk 0) (clk 1))
      in case check_entry clk cfg record_it s of (res, s) \<Rightarrow> (res, hm_insert key s st))"

definition check_and_record ::
  "(nat \<Rightarrow> instant) \<Rightarrow> string \<Rightarrow> string \<Rightarrow> tool_rate_limit_config \<Rightarrow> rate_limiter
   \<Rightarrow> rate_limit_result \<times> rate_limiter" where
  "check_and_record clk user tool cfg st = check_internal clk user tool cfg True st"

definition rate_check ::
  "(nat \<Rightarrow> instant) \<Rightarrow> string \<Rightarrow> string \<Rightarrow> tool_rate_limit_config \<Rightarrow> rate_limiter
   \<Rightarrow> rate_limit_result \<times> rate_limiter" where
  "rate_check clk user tool cfg st = check_internal clk user tool cfg False st"

definition get_usage :: "string \<Rightarrow> string \<Rightarrow> rate_limiter \<Rightarrow> (u32 \<times> u32) option" where
  "get_usage user tool st =
     map_option (\<lambda>s. (win_count (minute_window s), win_count (hour_window s))) (hm_get st (user, tool))"

definition rate_clear :: "string \<Rightarrow> string \<Rightarrow> rate_limiter \<Rightarrow> rate_limiter" where
  "rate_clear user tool st = hm_remove (user, tool) st"

definition rate_clear_all :: "rate_limiter \<Rightarrow> rate_limiter" where
  "rate_clear_all st = []"

definition rate_limit_to_result :: "rate_limit_result \<Rightarrow> (duration \<times> limit_type) + unit" where
  "rate_limit_to_result r = (case r of RateAllowed _ _ \<Rightarrow> Inr () | RateLimitedBy d l \<Rightarrow> Inl (d, l))"

section \<open>Counting in fixed windows\<close>

fun count_calls :: "('c \<Rightarrow> 's \<Rightarrow> bool \<times> 's) \<Rightarrow> 'c list \<Rightarrow> 's \<Rightarrow> nat" where
  "count_calls call [] s = 0"
| "count_calls call (c # cs) s = (if fst (call c s) then 1 else 0) + count_calls call cs (snd (call c s))"

text \<open>
  The interface a fixed-window counter gives its clients. \<open>win\<close> reads the window of one key,
  \<open>call\<close> performs a call and tells whether it was counted against that window, and the law says
  how a call moves the window: not at all, or after a possible reset, by one if it is counted.
  The consequence: in any span no longer than the window, at most twice the limit is let
  through, whatever the state at its start.
\<close>

locale fixed_window =
  fixes call :: "'c \<Rightarrow> 's \<Rightarrow> bool \<times> 's"
    and win :: "'s \<Rightarrow> window_state option"
    and readings :: "'c \<Rightarrow> instant set"
    and limit :: u32
    and dur :: duration
  assumes call_law:
    "(\<not> fst (call c s) \<and> win (snd (call c s)) = win s)
     \<or> (\<exists>t0 t1 t2. {t0, t1, t2} \<subseteq> readings c \<and>
          (let w = maybe_reset dur t1 t2 (case win s of Some w \<Rightarrow> w | None \<Rightarrow> window_new t0)
           in if fst (call c s)
              then win_count w < limit \<and> win (snd (call c s)) = Some (w\<lparr>win_count := win_count w + 1\<rparr>)
              else win (snd (call c s)) = Some w))"
begin

definition moves :: "'c \<Rightarrow> 's \<Rightarrow> window_state \<Rightarrow> bool" where
  "moves c s w \<longleftrightarrow>
     (if fst (call c s)
      then win_count w < limit \<and> win (snd (call c s)) = Some (w\<lparr>win_count := win_count w + 1\<rparr>)
      else win (snd (call c s)) = Some w)"

lemma call_cases:
  obtains (unchanged) "\<not> fst (call c s)" "win (snd (call c s)) = win s"
  | (moved) t0 t1 t2 where "{t0, t1, t2} \<subseteq> readings c"
      "moves c s (maybe_reset dur t1 t2 (case win s of Some w \<Rightarrow> w | None \<Rightarrow> window_new t0))"
  using call_law [of c s] by (auto simp: Let_def moves_def)

lemma counted_step:
  assumes "moves c s w"
    and "\<And>w'. win (snd (call c s)) = Some w' \<Longrightarrow> window_start w' = window_start w
      \<Longrightarrow> count_calls call cs (snd (call c s)) \<le> unat limit - unat (win_count w') + k"
  shows "count_calls call (c # cs) s \<le> unat limit - unat (win_count w) + k"
proof (cases "fst (call c s)")
  case True
  then have w: "win_count w < limit" "win (snd (call c s)) = Some (w\<lparr>win_count := win_count w + 1\<rparr>)"
    using assms(1) by (auto simp: moves_def)
  then have "count_calls call cs (snd (call c s)) \<le> unat limit - Suc (unat (win_count w)) + k"
    using assms(2) [OF w(2)] by (simp add: unat_Suc_less [OF w(1)])
  moreover have "unat (win_count w) < unat limit"
    using w(1) by (simp add: word_less_nat_alt)
  ultimately show ?thesis using True by simp
next
  case False
  then show ?thesis using assms by (simp add: moves_def)
qed

lemma counted_in_window:
  assumes "\<forall>c \<in> set cs. readings c \<subseteq> {a..<a + dur}" and "win s = Some w" and "a \<le> window_start w"
  shows "count_calls call cs s \<le> unat limit - unat (win_count w)"
  using assms
proof (induction cs arbitrary: s w)
  case (Cons c cs)
  show ?case
  proof (cases c s rule: call_cases)
    case unchanged
    then show ?thesis using Cons by simp
  next
    case (moved t0 t1 t2)
    then have "maybe_reset dur t1 t2 w = w"
      using Cons.prems(1,3) by (fastforce simp: maybe_reset_def)
    then have "moves c s w"
      using moved Cons.prems(2) by simp
    then have "count_calls call (c # cs) s \<le> unat limit - unat (win_count w) + 0"
      by (rule counted_step) (use Cons in auto)
    then show ?thesis by simp
  qed
qed simp

lemma counted_from_reset:
  assumes "\<forall>c \<in> set (c # cs). readings c \<subseteq> {a..<a + dur}" and "moves c s w" and "a \<le> window_start w"
  shows "count_calls call (c # cs) s \<le> unat limit"
proof -
  have "count_calls call (c # cs) s \<le> unat limit - unat (win_count w) + 0"
    using assms(2) by (rule counted_step) (use assms counted_in_window [of cs a] in auto)
  then show ?thesis by simp
qed

lemma counted_span_from:
  assumes "\<forall>c \<in> set cs. readings c \<subseteq> {a..<a + dur}"
  shows "count_calls call cs s \<le> (case win s of Some w \<Rightarrow> unat limit - unat (win_count w) | None \<Rightarrow> 0) + unat limit"
  using assms
proof (induction cs arbitrary: s)
  case (Cons c cs)
  show ?case
  proof (cases c s rule: call_cases)
    case unchanged
    then show ?thesis using Cons.IH [of "snd (call c s)"] Cons.prems by simp
  next
    case (moved t0 t1 t2)
    let ?w = "maybe_reset dur t1 t2 (case win s of Some w \<Rightarrow> w | None \<Rightarrow> window_new t0)"
    have t: "a \<le> t0" "a \<le> t2"
      using moved(1) Cons.prems by auto
    show ?thesis
    proof (cases "a \<le> window_start ?w")
      case True
      then show ?thesis
        using counted_from_reset [OF Cons.prems moved(2)] by linarith
    next
      case False
      then obtain w where w: "win s = Some w" "?w = w"
        using t by (auto simp: maybe_reset_def window_new_def split: option.splits if_splits)
      then have "count_calls call (c # cs) s \<le> unat limit - unat (win_count w) + unat limit"
        using moved(2) Cons.IH [of "snd (call c s)"] Cons.prems by (intro counted_step) auto
      then show ?thesis by (simp add: w)
    qed
  qed
qed simp

lemma counted_span:
  assumes "\<forall>c \<in> set cs. readings c \<subseteq> {a..<a + dur}"
  shows "count_calls call cs s \<le> 2 * unat limit"
  using counted_span_from [OF assms, of s] by (auto split: option.splits)

end

section \<open>The two windows of an entry\<close>

text \<open>A call to the limiter, by any user for any tool, with its clock readings.\<close>

record rate_call =
  rc_clk :: "nat \<Rightarrow> instant"
  rc_user :: string
  rc_tool :: string
  rc_config :: tool_rate_limit_config
  rc_record :: bool

text \<open>
  Whether a call is one that is let through and recorded for the given user and tool. Calls
  for that pair use one configuration; the others are arbitrary.
\<close>

definition rate_run :: "string \<times> string \<Rightarrow> tool_rate_limit_config \<Rightarrow> rate_call \<Rightarrow> rate_limiter \<Rightarrow> bool \<times> rate_limiter" where
  "rate_run key cfg c st =
     (let mine = (rc_user c, rc_tool c) = key;
          (res, st') = check_internal (rc_clk c) (rc_user c) (rc_tool c)
                         (if mine then cfg else rc_config c) (rc_record c) st
      in (mine \<and> rc_record c \<and> rate_allowed res, st'))"

lemma rate_run_other:
  "(rc_user c, rc_tool c) \<noteq> key \<Longrightarrow>
   \<not> fst (rate_run key cfg c st) \<and> hm_get (snd (rate_run key cfg c st)) key = hm_get st key"
  by (auto simp: rate_run_def check_internal_def Let_def hm.put_other split: prod.splits)

lemma rate_run_own:
  assumes "(rc_user c, rc_tool c) = key"
  shows "rate_run key cfg c st =
    (case check_entry (rc_clk c) cfg (rc_record c)
        (case hm_get st key of Some s \<Rightarrow> s | None \<Rightarrow> rate_state_new (rc_clk c 0) (rc_clk c 1)) of
       (res, s) \<Rightarrow> (rc_record c \<and> rate_allowed res, hm_insert key s st))"
  using assms by (auto simp: rate_run_def check_internal_def Let_def split: prod.splits)

lemma check_entry_windows:
  assumes "check_entry clk cfg record_it s = (res, s')"
  shows "let m = maybe_reset (secs MINUTE_SECS) (clk 2) (clk 3) (minute_window s)
         in if record_it \<and> rate_allowed res
            then win_count m < requests_per_minute cfg \<and> minute_window s' = m\<lparr>win_count := win_count m + 1\<rparr>
            else minute_window s' = m"
    and "let h = maybe_reset (secs HOUR_SECS) (clk 4) (clk 5) (hour_window s)
         in if record_it \<and> rate_allowed res
            then win_count h < requests_per_hour cfg \<and> hour_window s' = h\<lparr>win_count := win_count h + 1\<rparr>
            else hour_window s' = h"
  using assms
  by (auto simp: check_entry_def rate_allowed_def Let_def not_le split: if_splits)

interpretation minute: fixed_window "rate_run key cfg" "\<lambda>st. map_option minute_window (hm_get st key)"
  "\<lambda>c. range (rc_clk c)" "requests_per_minute cfg" "secs MINUTE_SECS"
proof (unfold_locales, goal_cases)
  case (1 c st)
  show ?case
  proof (cases "(rc_user c, rc_tool c) = key")
    case False
    then show ?thesis by (simp add: rate_run_other)
  next
    case True
    obtain res s' where run: "check_entry (rc_clk c) cfg (rc_record c)
        (case hm_get st key of Some s \<Rightarrow> s | None \<Rightarrow> rate_state_new (rc_clk c 0) (rc_clk c 1)) = (res, s')"
      by fastforce
    have own: "rate_run key cfg c st = (rc_record c \<and> rate_allowed res, hm_insert key s' st)"
      by (simp add: rate_run_own [OF True] run)
    have w: "(case map_option minute_window (hm_get st key) of Some w \<Rightarrow> w | None \<Rightarrow> window_new (rc_clk c 0))
        = minute_window (case hm_get st key of Some s \<Rightarrow> s | None \<Rightarrow> rate_state_new (rc_clk c 0) (rc_clk c 1))"
      by (simp add: rate_state_new_def split: option.split)
    show ?thesis
      using check_entry_windows(1) [OF run] unfolding own
      by (intro disjI2 exI [of _ "rc_clk c 0"] exI [of _ "rc_clk c 2"] exI [of _ "rc_clk c 3"], unfold w)
         (simp add: hm.lookup_put Let_def)
  qed
qed

interpretation hour: fixed_window "rate_run key cfg" "\<lambda>st. map_option hour_window (hm_get st key)"
  "\<lambda>c. range (rc_clk c)" "requests_per_hour cfg" "secs HOUR_SECS"
proof (unfold_locales, goal_cases)
  case (1 c st)
  show ?case
  proof (cases "(rc_user c, rc_tool c) = key")
    case False
    then show ?thesis by (simp add: rate_run_other)
  next
    case True
    obtain res s' where run: "check_entry (rc_clk c) cfg (rc_record c)
        (case hm_get st key of Some s \<Rightarrow> s | None \<Rightarrow> rate_state_new (rc_clk c 0) (rc_clk c 1)) = (res, s')"
      by fastforce
    have own: "rate_run key cfg c st = (rc_record c \<and> rate_allowed res, hm_insert key s' st)"
      by (simp add: rate_run_own [OF True] run)
    have w: "(case map_option hour_window (hm_get st key) of Some w \<Rightarrow> w | None \<Rightarrow> window_new (rc_clk c 1))
        = hour_window (case hm_get st key of Some s \<Rightarrow> s | None \<Rightarrow> rate_state_new (rc_clk c 0) (rc_clk c 1))"
      by (simp add: rate_state_new_def split: option.split)
    show ?thesis
      using check_entry_windows(2) [OF run] unfolding own
      by (intro disjI2 exI [of _ "rc_clk c 1"] exI [of _ "rc_clk c 4"] exI [of _ "rc_clk c 5"], unfold w)
         (simp add: hm.lookup_put Let_def)
  qed
qed

section \<open>Remaining requests\<close>

lemma remaining_exact:
  fixes c l :: u32
  assumes "c < l"
  shows "unat (l - (c + 1)) + unat (c + 1) = unat l" and "unat (l - c) + unat c = unat l"
  using word_inc_le [OF assms] assms
  by (metis unat_sub le_add_diff_inverse2 word_le_nat_alt order_less_imp_le)+

section \<open>Theorems\<close>

text \<open>
  C37. In any 60 seconds at most twice the per-minute limit, and in any hour at most twice the
  hourly limit, of calls is let through for one user and tool, from whatever state, however
  calls of other users and tools are interleaved, and for every combination of clock readings.
\<close>

theorem rate_limit_span:
  "((\<forall>c \<in> set cs. range (rc_clk c) \<subseteq> {a..<a + secs MINUTE_SECS}) \<longrightarrow>
      count_calls (rate_run key cfg) cs st \<le> 2 * unat (requests_per_minute cfg))
   \<and> ((\<forall>c \<in> set cs. range (rc_clk c) \<subseteq> {a..<a + secs HOUR_SECS}) \<longrightarrow>
      count_calls (rate_run key cfg) cs st \<le> 2 * unat (requests_per_hour cfg))"
  by (intro conjI impI) (rule minute.counted_span hour.counted_span; assumption)+

theorem rate_limit_span_witness:
  "let c = \<lparr>rc_clk = (\<lambda>_. secs 59), rc_user = ''u'', rc_tool = ''shell'',
            rc_config = tool_rate_limit_config_default, rc_record = True\<rparr>
   in count_calls (rate_run (''u'', ''shell'') (tool_rate_limit_config_new 1 1)) [c, c, c, c] [] \<le> 2"
proof -
  let ?c = "\<lparr>rc_clk = (\<lambda>_. secs 59), rc_user = ''u'', rc_tool = ''shell'',
            rc_config = tool_rate_limit_config_default, rc_record = True\<rparr>"
  have "\<forall>c \<in> set [?c, ?c, ?c, ?c]. range (rc_clk c) \<subseteq> {0..<0 + secs MINUTE_SECS}"
    by (auto simp: MINUTE_SECS_def)
  then have "count_calls (rate_run (''u'', ''shell'') (tool_rate_limit_config_new 1 1)) [?c, ?c, ?c, ?c] []
      \<le> 2 * unat (requests_per_minute (tool_rate_limit_config_new 1 1))"
    using rate_limit_span [of "[?c, ?c, ?c, ?c]" 0 "(''u'', ''shell'')" "tool_rate_limit_config_new 1 1" "[]"]
    by (rule conjunct1 [THEN mp, rotated])
  moreover have "2 * unat (requests_per_minute (tool_rate_limit_config_new 1 1)) = 2"
    by (simp add: tool_rate_limit_config_new_def)
  ultimately show ?thesis
    unfolding Let_def by (simp only:)
qed

text \<open>
  The result of a check is exact: when it lets a call through, the numbers it reports plus
  the counts it leaves are the configured limits, with no underflow; when it refuses, the
  named limit is used up, nothing is counted, and the advised delay is at most the window. The
  entries of all other users and tools are untouched.
\<close>

theorem rate_check_exact:
  assumes "check_internal clk user tool cfg record_it st = (res, st')"
  shows "\<exists>s. hm_get st' (user, tool) = Some s
    \<and> (case res of
         RateAllowed m h \<Rightarrow>
           unat m + unat (win_count (minute_window s)) = unat (requests_per_minute cfg)
           \<and> unat h + unat (win_count (hour_window s)) = unat (requests_per_hour cfg)
       | RateLimitedBy d PerMinute \<Rightarrow> win_count (minute_window s) \<ge> requests_per_minute cfg \<and> d \<le> secs MINUTE_SECS
       | RateLimitedBy d PerHour \<Rightarrow> win_count (hour_window s) \<ge> requests_per_hour cfg \<and> d \<le> secs HOUR_SECS)
    \<and> (\<forall>key. key \<noteq> (user, tool) \<longrightarrow> hm_get st' key = hm_get st key)"
proof -
  obtain s s' where s': "check_entry clk cfg record_it s = (res, s')" "st' = hm_insert (user, tool) s' st"
    using assms by (auto simp: check_internal_def Let_def split: prod.splits)
  have "case res of
         RateAllowed m h \<Rightarrow>
           unat m + unat (win_count (minute_window s')) = unat (requests_per_minute cfg)
           \<and> unat h + unat (win_count (hour_window s')) = unat (requests_per_hour cfg)
       | RateLimitedBy d PerMinute \<Rightarrow> win_count (minute_window s') \<ge> requests_per_minute cfg \<and> d \<le> secs MINUTE_SECS
       | RateLimitedBy d PerHour \<Rightarrow> win_count (hour_window s') \<ge> requests_per_hour cfg \<and> d \<le> secs HOUR_SECS"
    using s'(1) by (auto simp: check_entry_def Let_def time_until_reset_def not_le remaining_exact split: if_splits)
  then show ?thesis
    by (simp add: s'(2) hm.lookup_put)
qed

theorem rate_check_exact_witness:
  "\<exists>st' s. check_internal (\<lambda>_. 5) ''u'' ''shell'' tool_rate_limit_config_default True [] = (RateAllowed 59 999, st')
     \<and> hm_get st' (''u'', ''shell'') = Some s \<and> 59 + unat (win_count (minute_window s)) = 60"
proof -
  have run: "check_internal (\<lambda>_. 5) ''u'' ''shell'' tool_rate_limit_config_default True []
      = (RateAllowed 59 999, snd (check_internal (\<lambda>_. 5) ''u'' ''shell'' tool_rate_limit_config_default True []))"
    by (simp add: check_internal_def check_entry_def Let_def tool_rate_limit_config_default_def
        rate_state_new_def window_new_def maybe_reset_def MINUTE_SECS_def HOUR_SECS_def)
  from rate_check_exact [OF run] show ?thesis
    using run by (auto simp: tool_rate_limit_config_default_def)
qed

end
