(* ===== verification/Wasm_Host.thy ===== *)
theory Wasm_Host
  imports Network_Policy Rate_Limiter
begin

text \<open>
  The boundary of the WASM sandbox: the capabilities a tool is granted
  (\<open>src/tools/wasm/capabilities.rs\<close>), the endpoint allowlist (\<open>src/tools/wasm/allowlist.rs\<close>) and
  the state behind the host functions (\<open>src/tools/wasm/host.rs\<close>). The \<open>url\<close> and \<open>urlencoding\<close>
  crates are arguments: \<open>parse\<close> gives the parts of a URL, \<open>decode\<close> the percent-decoded segment.
\<close>

section \<open>Capabilities\<close>

record endpoint_pattern =
  ep_host :: string
  ep_path_prefix :: "string option"
  ep_methods :: "string list"

definition endpoint_host :: "string \<Rightarrow> endpoint_pattern" where
  "endpoint_host h = \<lparr>ep_host = h, ep_path_prefix = None, ep_methods = []\<rparr>"

definition with_path_prefix :: "string \<Rightarrow> endpoint_pattern \<Rightarrow> endpoint_pattern" where
  "with_path_prefix p e = e\<lparr>ep_path_prefix := Some p\<rparr>"

definition with_methods :: "string list \<Rightarrow> endpoint_pattern \<Rightarrow> endpoint_pattern" where
  "with_methods ms e = e\<lparr>ep_methods := ms\<rparr>"

definition host_matches :: "endpoint_pattern \<Rightarrow> string \<Rightarrow> bool" where
  "host_matches e url_host =
     (if ep_host e = url_host then True
      else case strip_prefix (ep_host e) ''*.'' of
             Some suffix \<Rightarrow>
               (if ends_with url_host suffix \<and> length suffix < length url_host
                then let prefix = take (length url_host - length suffix) url_host
                     in ends_with prefix ''.'' \<or> prefix = []
                else False)
           | None \<Rightarrow> False)"

definition endpoint_matches :: "endpoint_pattern \<Rightarrow> string \<Rightarrow> string \<Rightarrow> string \<Rightarrow> bool" where
  "endpoint_matches e url_host path meth =
     (if \<not> host_matches e url_host then False
      else if (case ep_path_prefix e of Some p \<Rightarrow> \<not> starts_with path p | None \<Rightarrow> False) then False
      else if ep_methods e \<noteq> [] \<and> \<not> list_ex (\<lambda>m. to_uppercase m = to_uppercase meth) (ep_methods e) then False
      else True)"

record http_capability =
  hc_allowlist :: "endpoint_pattern list"
  hc_credentials :: "(string, credential_mapping) hashmap"
  hc_rate_limit :: tool_rate_limit_config
  hc_max_request_bytes :: nat
  hc_max_response_bytes :: nat
  hc_timeout :: duration

definition http_capability_new :: "endpoint_pattern list \<Rightarrow> http_capability" where
  "http_capability_new ps = \<lparr>hc_allowlist = ps, hc_credentials = [], hc_rate_limit = tool_rate_limit_config_default,
     hc_max_request_bytes = 1024 * 1024, hc_max_response_bytes = 10 * 1024 * 1024, hc_timeout = secs 30\<rparr>"

definition with_credential :: "string \<Rightarrow> credential_mapping \<Rightarrow> http_capability \<Rightarrow> http_capability" where
  "with_credential name m h = h\<lparr>hc_credentials := hm_insert name m (hc_credentials h)\<rparr>"

record tool_invoke_capability =
  aliases :: "(string, string) hashmap"
  ti_rate_limit :: tool_rate_limit_config

definition resolve_alias :: "tool_invoke_capability \<Rightarrow> string \<Rightarrow> string option" where
  "resolve_alias c alias = hm_get (aliases c) alias"

type_synonym secrets_capability = "string list"     \<comment> \<open>\<open>allowed_names\<close>\<close>

fun secrets_is_allowed :: "secrets_capability \<Rightarrow> string \<Rightarrow> bool" where
  "secrets_is_allowed [] name = False"
| "secrets_is_allowed (pattern # ps) name =
     (if pattern = name then True
      else if (case strip_suffix pattern ''*'' of Some prefix \<Rightarrow> starts_with name prefix | None \<Rightarrow> False) then True
      else secrets_is_allowed ps name)"

record workspace_capability =
  allowed_prefixes :: "string list"
  reader :: "(string \<Rightarrow> string option) option"

record capabilities =
  cap_workspace_read :: "workspace_capability option"
  cap_http :: "http_capability option"
  cap_tool_invoke :: "tool_invoke_capability option"
  cap_secrets :: "secrets_capability option"

definition capabilities_none :: capabilities where
  "capabilities_none = \<lparr>cap_workspace_read = None, cap_http = None, cap_tool_invoke = None, cap_secrets = None\<rparr>"

definition with_workspace_read :: "string list \<Rightarrow> capabilities \<Rightarrow> capabilities" where
  "with_workspace_read prefixes c = c\<lparr>cap_workspace_read := Some \<lparr>allowed_prefixes = prefixes, reader = None\<rparr>\<rparr>"

definition with_http :: "http_capability \<Rightarrow> capabilities \<Rightarrow> capabilities" where
  "with_http h c = c\<lparr>cap_http := Some h\<rparr>"

definition with_tool_invoke :: "(string, string) hashmap \<Rightarrow> capabilities \<Rightarrow> capabilities" where
  "with_tool_invoke as c =
     c\<lparr>cap_tool_invoke := Some \<lparr>aliases = as, ti_rate_limit = tool_rate_limit_config_default\<rparr>\<rparr>"

definition with_secrets :: "string list \<Rightarrow> capabilities \<Rightarrow> capabilities" where
  "with_secrets allowed c = c\<lparr>cap_secrets := Some allowed\<rparr>"

section \<open>Endpoint allowlist\<close>

datatype deny_reason =
    InvalidUrl string
  | HostNotAllowed string
  | PathNotAllowed string string
  | MethodNotAllowed string string
  | EmptyAllowlist
  | InsecureScheme string

datatype allowlist_result = EndpointAllowed | EndpointDenied deny_reason

record allowlist_validator =
  av_patterns :: "endpoint_pattern list"
  av_require_https :: bool

definition validator_new :: "endpoint_pattern list \<Rightarrow> allowlist_validator" where
  "validator_new ps = \<lparr>av_patterns = ps, av_require_https = True\<rparr>"

definition allow_http :: "allowlist_validator \<Rightarrow> allowlist_validator" where
  "allow_http v = v\<lparr>av_require_https := False\<rparr>"

text \<open>The loop index only moves forward, by three after a well-formed escape.\<close>

fun has_valid_percent_encoding :: "string \<Rightarrow> bool" where
  "has_valid_percent_encoding [] = True"
| "has_valid_percent_encoding (c # cs) =
     (if c = CHR ''%''
      then (case cs of
              a # b # rest \<Rightarrow> is_hexdigit a \<and> is_hexdigit b \<and> has_valid_percent_encoding rest
            | _ \<Rightarrow> False)
      else has_valid_percent_encoding cs)"

fun normalize_segments :: "(string \<Rightarrow> string option) \<Rightarrow> string list \<Rightarrow> string list \<Rightarrow> string + string list" where
  "normalize_segments decode [] segments = Inr segments"
| "normalize_segments decode (raw # rest) segments =
     (if \<not> has_valid_percent_encoding raw
      then Inl (''Invalid percent-encoding in path segment: '' @ raw)
      else case decode raw of
             None \<Rightarrow> Inl (''Invalid percent-encoding in path segment: '' @ raw)
           | Some segment \<Rightarrow>
               (if CHR ''/'' \<in> set segment \<or> CHR 0x5C \<in> set segment
                then Inl ''Path segment contains encoded path separator''
                else if segment = '''' \<or> segment = ''.'' then normalize_segments decode rest segments
                else if segment = ''..'' then normalize_segments decode rest (butlast segments)
                else normalize_segments decode rest (segments @ [segment])))"

definition normalize_path :: "(string \<Rightarrow> string option) \<Rightarrow> string \<Rightarrow> string + string" where
  "normalize_path decode path =
     (case normalize_segments decode (split_on (CHR ''/'') path) [] of
        Inl e \<Rightarrow> Inl e
      | Inr segments \<Rightarrow>
          (let result = ''/'' @ join ''/'' segments
           in Inr (if 1 < length path \<and> ends_with path ''/'' \<and> \<not> ends_with result ''/'' then result @ ''/'' else result)))"

record parsed_url =
  pu_scheme :: string
  pu_host :: string
  pu_path :: string

definition parse_url :: "url_parser \<Rightarrow> (string \<Rightarrow> string option) \<Rightarrow> string \<Rightarrow> string + parsed_url" where
  "parse_url parse decode url =
     (case parse url of
        Inl e \<Rightarrow> Inl (''URL parse failed: '' @ e)
      | Inr u \<Rightarrow>
          (let scheme = to_lowercase (url_scheme u)
           in if scheme \<noteq> ''http'' \<and> scheme \<noteq> ''https'' then Inl (''Unsupported scheme: '' @ scheme)
              else if url_username u \<noteq> [] \<or> url_password u \<noteq> None
              then Inl ''URL contains userinfo (@) which is not allowed''
              else case url_host_str u of
                     None \<Rightarrow> Inl ''Empty host''
                   | Some h \<Rightarrow>
                       (case normalize_path decode (url_path u) of
                          Inl e \<Rightarrow> Inl e
                        | Inr p \<Rightarrow> Inr \<lparr>pu_scheme = scheme, pu_host = to_lowercase (strip_brackets h), pu_path = p\<rparr>)))"

definition validate :: "url_parser \<Rightarrow> (string \<Rightarrow> string option) \<Rightarrow> allowlist_validator \<Rightarrow> string \<Rightarrow> string \<Rightarrow> allowlist_result" where
  "validate parse decode v url meth =
     (if av_patterns v = [] then EndpointDenied EmptyAllowlist
      else case parse_url parse decode url of
             Inl e \<Rightarrow> EndpointDenied (InvalidUrl e)
           | Inr u \<Rightarrow>
               (if av_require_https v \<and> pu_scheme u \<noteq> ''https''
                then EndpointDenied (InsecureScheme (pu_scheme u))
                else if list_ex (\<lambda>p. endpoint_matches p (pu_host u) (pu_path u) meth) (av_patterns v)
                then EndpointAllowed
                else let host_ok = filter (\<lambda>p. host_matches p (pu_host u)) (av_patterns v)
                     in if host_ok = [] then EndpointDenied (HostNotAllowed (pu_host u))
                        else let path_ok = filter (\<lambda>p. ep_path_prefix p = None
                                   \<or> starts_with (pu_path u) (case ep_path_prefix p of Some x \<Rightarrow> x | None \<Rightarrow> [])) host_ok
                             in if path_ok = [] then EndpointDenied (PathNotAllowed (pu_host u) (pu_path u))
                                else EndpointDenied (MethodNotAllowed meth (pu_host u))))"

definition host_allowed :: "allowlist_validator \<Rightarrow> string \<Rightarrow> bool" where
  "host_allowed v h = list_ex (\<lambda>p. host_matches p h) (av_patterns v)"

definition allowed_hosts :: "allowlist_validator \<Rightarrow> string list" where
  "allowed_hosts v = map ep_host (av_patterns v)"

section \<open>Host state\<close>

datatype wasm_error =
    EngineCreationFailed string
  | CompilationFailed string
  | ValidationFailed string
  | InstantiationFailed string
  | Trapped string
  | ExecutionPanicked string
  | FuelExhausted u64
  | MemoryExceeded u64 u64
  | MissingExport string
  | IoError string
  | ConfigError string
  | HostError string
  | WasmTimeout duration
  | ToolReturnedError string
  | InvalidResponseJson string
  | PathTraversalBlocked string

definition MAX_LOG_ENTRIES :: nat where
  "MAX_LOG_ENTRIES = 1000"

definition MAX_LOG_MESSAGE_BYTES :: nat where
  "MAX_LOG_MESSAGE_BYTES = 4096"

datatype log_level = LTrace | LDebug | LInfo | LWarn | LError

record log_entry =
  le_level :: log_level
  le_message :: string
  le_timestamp_millis :: u64

record host_state =
  hs_logs :: "log_entry list"
  hs_logging_enabled :: bool
  hs_capabilities :: capabilities
  hs_logs_dropped :: nat
  hs_user_id :: "string option"
  hs_http_request_count :: u32
  hs_tool_invoke_count :: u32

definition host_new :: "capabilities \<Rightarrow> host_state" where
  "host_new c = \<lparr>hs_logs = [], hs_logging_enabled = True, hs_capabilities = c, hs_logs_dropped = 0,
     hs_user_id = None, hs_http_request_count = 0, hs_tool_invoke_count = 0\<rparr>"

definition host_new_with_user :: "capabilities \<Rightarrow> string \<Rightarrow> host_state" where
  "host_new_with_user c u = \<lparr>hs_logs = [], hs_logging_enabled = True, hs_capabilities = c, hs_logs_dropped = 0,
     hs_user_id = Some u, hs_http_request_count = 0, hs_tool_invoke_count = 0\<rparr>"

definition host_minimal :: host_state where
  "host_minimal = host_new capabilities_none"

definition host_log :: "u64 \<Rightarrow> log_level \<Rightarrow> string \<Rightarrow> host_state \<Rightarrow> host_state option" where
  "host_log now level message h =
     (if \<not> hs_logging_enabled h then Some (h\<lparr>hs_logs_dropped := hs_logs_dropped h + 1\<rparr>)
      else if length (hs_logs h) \<ge> MAX_LOG_ENTRIES
      then Some (h\<lparr>hs_logging_enabled := False, hs_logs_dropped := hs_logs_dropped h + 1\<rparr>)
      else case (if length message > MAX_LOG_MESSAGE_BYTES
                 then map_option (\<lambda>m. m @ ''... (truncated)'') (slice_to message MAX_LOG_MESSAGE_BYTES)
                 else Some message) of
             None \<Rightarrow> None
           | Some m \<Rightarrow> Some (h\<lparr>hs_logs := hs_logs h @ [\<lparr>le_level = level, le_message = m, le_timestamp_millis = now\<rparr>]\<rparr>))"

definition take_logs :: "host_state \<Rightarrow> log_entry list \<times> host_state" where
  "take_logs h = (hs_logs h, h\<lparr>hs_logs := []\<rparr>)"

text \<open>\<open>path.chars().nth(1)\<close>: the first byte of the second character, if there is one.\<close>

definition second_char :: "string \<Rightarrow> char option" where
  "second_char s =
     (case s of [] \<Rightarrow> None
      | _ # cs \<Rightarrow> (case dropWhile is_continuation cs of [] \<Rightarrow> None | c # _ \<Rightarrow> Some c))"

definition validate_workspace_path :: "string \<Rightarrow> wasm_error + unit" where
  "validate_workspace_path path =
     (if starts_with path ''/'' then Inl (PathTraversalBlocked ''absolute paths not allowed'')
      else if contains_str path ''..''
      then Inl (PathTraversalBlocked ''parent directory references not allowed'')
      else if CHR 0x00 \<in> set path then Inl (PathTraversalBlocked ''null bytes not allowed'')
      else if length path \<ge> 2 \<and> second_char path = Some (CHR '':'')
      then Inl (PathTraversalBlocked ''Windows-style paths not allowed'')
      else Inr ())"

definition workspace_read :: "string \<Rightarrow> host_state \<Rightarrow> wasm_error + string option" where
  "workspace_read path h =
     (case cap_workspace_read (hs_capabilities h) of
        None \<Rightarrow> Inr None
      | Some cap \<Rightarrow>
          (case validate_workspace_path path of
             Inl e \<Rightarrow> Inl e
           | Inr _ \<Rightarrow>
               (if allowed_prefixes cap \<noteq> [] \<and> \<not> list_ex (starts_with path) (allowed_prefixes cap)
                then Inr None
                else case reader cap of Some read \<Rightarrow> Inr (read path) | None \<Rightarrow> Inr None)))"

definition secret_exists :: "string \<Rightarrow> host_state \<Rightarrow> bool" where
  "secret_exists name h =
     (case cap_secrets (hs_capabilities h) of None \<Rightarrow> False | Some cap \<Rightarrow> secrets_is_allowed cap name)"

text \<open>The refusal quotes the result in its debug rendering, the argument \<open>show_debug\<close>.\<close>

definition check_http_allowed ::
  "url_parser \<Rightarrow> (string \<Rightarrow> string option) \<Rightarrow> (allowlist_result \<Rightarrow> string) \<Rightarrow> string \<Rightarrow> string \<Rightarrow> host_state \<Rightarrow> string + unit" where
  "check_http_allowed parse decode show_debug url meth h =
     (case cap_http (hs_capabilities h) of
        None \<Rightarrow> Inl ''HTTP capability not granted''
      | Some cap \<Rightarrow>
          (let result = validate parse decode (validator_new (hc_allowlist cap)) url meth
           in if result = EndpointAllowed then Inr ()
              else Inl (''HTTP request not allowed: '' @ show_debug result)))"

definition check_tool_invoke_allowed :: "string \<Rightarrow> host_state \<Rightarrow> string + string" where
  "check_tool_invoke_allowed alias h =
     (case cap_tool_invoke (hs_capabilities h) of
        None \<Rightarrow> Inl ''Tool invocation capability not granted''
      | Some cap \<Rightarrow>
          (case resolve_alias cap alias of
             Some name \<Rightarrow> Inr name
           | None \<Rightarrow> Inl (''Unknown tool alias: '' @ alias)))"

definition MAX_REQUESTS_PER_EXECUTION :: u32 where
  "MAX_REQUESTS_PER_EXECUTION = 50"

definition record_http_request :: "host_state \<Rightarrow> (string + unit) \<times> host_state" where
  "record_http_request h =
     (case cap_http (hs_capabilities h) of
        None \<Rightarrow> (Inl ''HTTP capability not granted'', h)
      | Some _ \<Rightarrow>
          (let h = h\<lparr>hs_http_request_count := hs_http_request_count h + 1\<rparr>
           in if hs_http_request_count h > MAX_REQUESTS_PER_EXECUTION
              then (Inl (''Too many HTTP requests in single execution (max '' @ show_nat 50 @ '')''), h)
              else (Inr (), h)))"

definition MAX_INVOKES_PER_EXECUTION :: u32 where
  "MAX_INVOKES_PER_EXECUTION = 20"

definition record_tool_invoke :: "host_state \<Rightarrow> (string + unit) \<times> host_state" where
  "record_tool_invoke h =
     (let h = h\<lparr>hs_tool_invoke_count := hs_tool_invoke_count h + 1\<rparr>
      in if hs_tool_invoke_count h > MAX_INVOKES_PER_EXECUTION
         then (Inl (''Too many tool invocations in single execution (max '' @ show_nat 20 @ '')''), h)
         else (Inr (), h))"

section \<open>Matching\<close>

lemma host_matches_iff:
  "host_matches e h \<longleftrightarrow> ep_host e = h \<or> (\<exists>base. ep_host e = ''*.'' @ base \<and> below_domain base h)"
proof -
  have "host_matches e h \<longleftrightarrow> ep_host e = h
      \<or> (\<exists>base. strip_prefix (ep_host e) ''*.'' = Some base \<and> below_domain base h)"
    unfolding wildcard_suffix [symmetric]
    by (auto simp: host_matches_def Let_def split: option.splits if_splits)
  then show ?thesis
    by (auto simp: strip_prefix_Some)
qed

lemma endpoint_matches_iff:
  "endpoint_matches e h path meth \<longleftrightarrow>
     host_matches e h \<and> (\<forall>p. ep_path_prefix e = Some p \<longrightarrow> starts_with path p)
     \<and> (ep_methods e = [] \<or> (\<exists>m \<in> set (ep_methods e). to_uppercase m = to_uppercase meth))"
  by (auto simp: endpoint_matches_def list_ex_iff split: option.splits)

definition request_matches :: "url_parser \<Rightarrow> (string \<Rightarrow> string option) \<Rightarrow> bool \<Rightarrow> endpoint_pattern \<Rightarrow> string \<times> string \<Rightarrow> bool" where
  "request_matches parse decode https p r =
     (case parse_url parse decode (fst r) of
        Inl _ \<Rightarrow> False
      | Inr u \<Rightarrow> (https \<longrightarrow> pu_scheme u = ''https'') \<and> endpoint_matches p (pu_host u) (pu_path u) (snd r))"

lemma validate_iff:
  "validate parse decode v url meth = EndpointAllowed \<longleftrightarrow>
   (\<exists>p \<in> set (av_patterns v). request_matches parse decode (av_require_https v) p (url, meth))"
  by (auto simp: validate_def request_matches_def Let_def list_ex_iff split: sum.splits)

interpretation endpoints: allowlist
  "\<lambda>ps (url, meth). validate parse decode \<lparr>av_patterns = ps, av_require_https = https\<rparr> url meth = EndpointAllowed"
  "request_matches parse decode https"
  by unfold_locales (auto simp: validate_iff)

definition secret_matches :: "string \<Rightarrow> string \<Rightarrow> bool" where
  "secret_matches pattern name \<longleftrightarrow> pattern = name \<or> (\<exists>prefix rest. pattern = prefix @ ''*'' \<and> name = prefix @ rest)"

lemma secrets_is_allowed_Cons:
  "secrets_is_allowed (p # ps) name \<longleftrightarrow> secret_matches p name \<or> secrets_is_allowed ps name"
  by (auto simp: secret_matches_def strip_suffix_def ends_with_iff starts_with_iff split: if_splits)

lemma secrets_is_allowed_iff: "secrets_is_allowed ps name \<longleftrightarrow> (\<exists>p \<in> set ps. secret_matches p name)"
  by (induction ps) (simp_all add: secrets_is_allowed_Cons del: secrets_is_allowed.simps(2))

interpretation secret_names: allowlist secrets_is_allowed secret_matches
  by unfold_locales (rule secrets_is_allowed_iff)

section \<open>Normalized paths\<close>

definition clean_segment :: "string \<Rightarrow> bool" where
  "clean_segment s \<longleftrightarrow> s \<notin> {[], ''.'', ''..''} \<and> CHR ''/'' \<notin> set s \<and> CHR 0x5C \<notin> set s"

lemma normalize_segments_clean:
  "normalize_segments decode raws segments = Inr result \<Longrightarrow> \<forall>s \<in> set segments. clean_segment s
   \<Longrightarrow> \<forall>s \<in> set result. clean_segment s"
proof (induction decode raws segments rule: normalize_segments.induct)
  case (2 decode raw rest segments)
  obtain segment where seg: "decode raw = Some segment" "has_valid_percent_encoding raw"
    "CHR ''/'' \<notin> set segment" "CHR 0x5C \<notin> set segment"
    using "2.prems"(1) by (auto split: if_split_asm option.split_asm)
  consider "segment \<in> {[], ''.''}" | "segment = ''..''" | "clean_segment segment"
    using seg(3,4) by (auto simp: clean_segment_def)
  then show ?case
  proof cases
    case 1
    then show ?thesis using 2 seg by auto
  next
    case 2
    then show ?thesis using "2.IH"(2) [OF _ seg(1)] "2.prems" seg by (auto dest: in_set_butlastD)
  next
    case 3
    then have ne: "segment \<noteq> []" "segment \<noteq> ''.''" "segment \<noteq> ''..''"
      by (simp_all add: clean_segment_def)
    then have "normalize_segments decode rest (segments @ [segment]) = Inr result"
      using "2.prems"(1) seg by simp
    moreover have "\<forall>s \<in> set (segments @ [segment]). clean_segment s"
      using "2.prems"(2) 3 by simp
    ultimately show ?thesis using "2.IH"(3) [OF _ seg(1)] ne seg(2-4) by blast
  qed
qed simp

lemma split_on_snoc: "split_on d (s @ [d]) = split_on d s @ [[]]"
  by (induction s) (auto split: list.splits)

lemma split_on_path:
  assumes "\<forall>s \<in> set segs. clean_segment s"
  shows "split_on (CHR ''/'') (''/'' @ join ''/'' segs) = [] # (if segs = [] then [[]] else segs)"
  using split_on_join [of segs "CHR ''/''"] assms by (simp add: clean_segment_def)

lemma normalize_path_segments:
  assumes "normalize_path decode path = Inr result"
  obtains segs where "\<forall>s \<in> set segs. clean_segment s"
    and "result = ''/'' @ join ''/'' segs \<or> result = (''/'' @ join ''/'' segs) @ ''/''"
proof -
  obtain segs where segs: "normalize_segments decode (split_on (CHR ''/'') path) [] = Inr segs"
    and result: "result \<in> {''/'' @ join ''/'' segs, (''/'' @ join ''/'' segs) @ ''/''}"
    using assms by (auto simp: normalize_path_def Let_def split: sum.splits if_splits)
  have "\<forall>s \<in> set segs. clean_segment s"
    using normalize_segments_clean [OF segs] by simp
  then show thesis
    by (rule that) (use result in blast)
qed

section \<open>Budgets of one execution\<close>

fun http_requests :: "nat \<Rightarrow> host_state \<Rightarrow> nat \<times> host_state" where
  "http_requests 0 h = (0, h)"
| "http_requests (Suc n) h =
     (case record_http_request h of (res, h) \<Rightarrow>
       (case http_requests n h of (k, h) \<Rightarrow> ((if res = Inr () then Suc k else k), h)))"

text \<open>The number of requests still to be granted, before the counter wraps.\<close>

lemma http_requests_granted:
  assumes "cap_http (hs_capabilities h) \<noteq> None" and "unat (hs_http_request_count h) + n < 2 ^ 32"
  shows "fst (http_requests n h) = min n (50 - unat (hs_http_request_count h))"
  using assms
proof (induction n arbitrary: h)
  case (Suc n)
  let ?h = "h\<lparr>hs_http_request_count := hs_http_request_count h + 1\<rparr>"
  have inc: "unat (hs_http_request_count h + 1) = Suc (unat (hs_http_request_count h))"
    using Suc.prems(2) by (simp add: unat_word_ariths)
  have step: "record_http_request h = (fst (record_http_request h), ?h)"
    "fst (record_http_request h) = Inr () \<longleftrightarrow> unat (hs_http_request_count h) < 50"
    using Suc.prems(1) inc
    by (auto simp: record_http_request_def Let_def MAX_REQUESTS_PER_EXECUTION_def word_less_nat_alt split: if_splits)
  have "fst (http_requests n ?h) = min n (50 - unat (hs_http_request_count ?h))"
    using Suc inc by (intro Suc.IH) auto
  then show ?case
    using step inc by (subst http_requests.simps, subst step(1)) (auto split: prod.splits)
qed simp

section \<open>Logging\<close>

definition logs_wf :: "host_state \<Rightarrow> bool" where
  "logs_wf h \<longleftrightarrow> length (hs_logs h) \<le> MAX_LOG_ENTRIES
     \<and> (\<forall>e \<in> set (hs_logs h). length (le_message e) \<le> MAX_LOG_MESSAGE_BYTES + 15)"

lemma host_log_wf: "logs_wf h \<Longrightarrow> host_log now level m h = Some h' \<Longrightarrow> logs_wf h'"
  by (auto simp: logs_wf_def host_log_def slice_to_def split: if_splits option.splits)

text \<open>
  A message longer than 4096 bytes whose 4097th byte continues a character makes the slice in
  \<open>log\<close> panic, although the message comes from the untrusted tool.
\<close>

theorem host_log_panics:
  "host_log now level (replicate 4096 (CHR ''a'') @ [char_of (128 :: nat), CHR ''a'']) (host_new c) = None"
  by (simp add: host_log_def host_new_def MAX_LOG_ENTRIES_def MAX_LOG_MESSAGE_BYTES_def slice_to_def
      is_char_boundary_def is_continuation_def nth_append)

text \<open>The user of the execution plays no role in \<open>secret_exists\<close>.\<close>

theorem secret_exists_without_user: "secret_exists name (h\<lparr>hs_user_id := None\<rparr>) = secret_exists name h"
  by (simp add: secret_exists_def)

section \<open>Theorems\<close>

text \<open>
  A request of a WASM tool passes the endpoint allowlist exactly when its URL parses, the
  scheme is HTTPS (unless plain HTTP is enabled), and one pattern agrees with it in all three
  respects: the host is the pattern's or lies strictly below its wildcard domain, the normalized
  path starts with the prefix, and the method is listed, in any letter case, or no method is.
\<close>

theorem endpoint_allowed_spec:
  "validate parse decode v url meth = EndpointAllowed \<longleftrightarrow>
   (\<exists>u. parse_url parse decode url = Inr u \<and> (av_require_https v \<longrightarrow> pu_scheme u = ''https'')
     \<and> (\<exists>p \<in> set (av_patterns v).
          (ep_host p = pu_host u \<or> (\<exists>base. ep_host p = ''*.'' @ base \<and> below_domain base (pu_host u)))
          \<and> (\<forall>prefix. ep_path_prefix p = Some prefix \<longrightarrow> starts_with (pu_path u) prefix)
          \<and> (ep_methods p = [] \<or> (\<exists>m \<in> set (ep_methods p). to_uppercase m = to_uppercase meth))))"
proof -
  have "validate parse decode v url meth = EndpointAllowed \<longleftrightarrow>
      (\<exists>p \<in> set (av_patterns v). request_matches parse decode (av_require_https v) p (url, meth))"
    by (rule validate_iff)
  then show ?thesis
    unfolding request_matches_def endpoint_matches_iff host_matches_iff
    by (cases "parse_url parse decode url") simp_all
qed

theorem endpoint_allowed_spec_witness:
  "let parse = (\<lambda>_. Inr \<lparr>url_scheme = ''https'', url_username = [], url_password = None,
                       url_host_str = Some ''API.example.com'', url_path = ''/v1/../admin''\<rparr>);
       v = validator_new [with_path_prefix ''/v1'' (endpoint_host ''api.example.com'')]
   in validate parse Some v ''https://API.example.com/v1/../admin'' ''GET'' \<noteq> EndpointAllowed"
proof -
  let ?parse = "\<lambda>_. Inr \<lparr>url_scheme = ''https'', url_username = [], url_password = None,
      url_host_str = Some ''API.example.com'', url_path = ''/v1/../admin''\<rparr>"
  have "parse_url ?parse Some ''https://API.example.com/v1/../admin''
      = Inr \<lparr>pu_scheme = ''https'', pu_host = ''api.example.com'', pu_path = ''/admin''\<rparr>"
    by code_simp
  moreover have "\<not> starts_with ''/admin'' ''/v1''"
    by code_simp
  ultimately show ?thesis
    using endpoint_allowed_spec [of ?parse Some
        "validator_new [with_path_prefix ''/v1'' (endpoint_host ''api.example.com'')]"
        "''https://API.example.com/v1/../admin''" "''GET''"]
    by (simp add: Let_def validator_new_def with_path_prefix_def endpoint_host_def)
qed

text \<open>
  Whatever the URL parser and the percent-decoder return, the path that is matched against
  the allowlist is absolute and has no dot segment and no separator smuggled in by decoding:
  none of its segments is \<open>.\<close> or \<open>..\<close>, and it contains no backslash. The URL then carries no
  user information and has scheme HTTP or HTTPS.
\<close>

theorem parsed_path_clean:
  assumes "parse_url parse decode url = Inr u"
  shows "starts_with (pu_path u) ''/'' \<and> CHR 0x5C \<notin> set (pu_path u)
    \<and> {''.'', ''..''} \<inter> set (split_on (CHR ''/'') (pu_path u)) = {}
    \<and> pu_scheme u \<in> {''http'', ''https''}
    \<and> (\<exists>parts. parse url = Inr parts \<and> url_username parts = [] \<and> url_password parts = None)"
proof -
  obtain parts where parts: "parse url = Inr parts" "url_username parts = []" "url_password parts = None"
    "pu_scheme u \<in> {''http'', ''https''}" "normalize_path decode (url_path parts) = Inr (pu_path u)"
    using assms by (auto simp: parse_url_def Let_def split: sum.splits if_splits option.splits)
  obtain segs where segs: "\<forall>s \<in> set segs. clean_segment s"
    "pu_path u = ''/'' @ join ''/'' segs \<or> pu_path u = (''/'' @ join ''/'' segs) @ ''/''"
    using parts(5) by (rule normalize_path_segments)
  have pieces: "set (split_on (CHR ''/'') (pu_path u)) \<subseteq> insert [] (set segs)"
    using segs(2) split_on_path [OF segs(1)] split_on_snoc [of "CHR ''/''" "''/'' @ join ''/'' segs"]
    by (auto split: if_splits)
  have "set (pu_path u) = set (join ''/'' (split_on (CHR ''/'') (pu_path u)))"
    by (simp add: join_split_on)
  also have "\<dots> \<subseteq> insert (CHR ''/'') (\<Union> (set ` set (split_on (CHR ''/'') (pu_path u))))"
    using set_join [of "''/''"] by auto
  also have "\<dots> \<subseteq> insert (CHR ''/'') (\<Union> (set ` set segs))"
    using pieces by fastforce
  finally have "CHR 0x5C \<notin> set (pu_path u)"
    using segs(1) by (auto simp: clean_segment_def subset_iff)
  moreover have "{''.'', ''..''} \<inter> set (split_on (CHR ''/'') (pu_path u)) = {}"
    using pieces segs(1) by (auto simp: clean_segment_def)
  ultimately show ?thesis
    using segs(2) parts by (auto simp: starts_with_iff)
qed

theorem parsed_path_clean_witness:
  "let parse = (\<lambda>_. Inr \<lparr>url_scheme = ''https'', url_username = [], url_password = None,
                       url_host_str = Some ''h'', url_path = ''/a/./b/../c/''\<rparr>)
   in \<exists>u. parse_url parse Some ''x'' = Inr u \<and> pu_path u = ''/a/c/''
        \<and> {''.'', ''..''} \<inter> set (split_on (CHR ''/'') (pu_path u)) = {}"
proof -
  let ?parse = "\<lambda>_. Inr \<lparr>url_scheme = ''https'', url_username = [], url_password = None,
                       url_host_str = Some ''h'', url_path = ''/a/./b/../c/''\<rparr>"
  have "parse_url ?parse Some ''x'' = Inr \<lparr>pu_scheme = ''https'', pu_host = ''h'', pu_path = ''/a/c/''\<rparr>"
    by code_simp
  with parsed_path_clean [OF this] show ?thesis
    by (simp add: Let_def)
qed

text \<open>
  What a tool reads from the workspace comes from the reader it was granted, at a relative
  path without parent references or NUL bytes, under one of its allowed prefixes if any are
  configured. A tool without capabilities can read nothing, see no secret, reach no endpoint
  and invoke no tool.
\<close>

theorem workspace_read_confined:
  assumes "workspace_read path h = Inr (Some content)"
  shows "(\<exists>cap read. cap_workspace_read (hs_capabilities h) = Some cap \<and> reader cap = Some read \<and> read path = Some content
      \<and> (allowed_prefixes cap = [] \<or> (\<exists>p \<in> set (allowed_prefixes cap). starts_with path p)))
    \<and> \<not> starts_with path ''/'' \<and> (\<nexists>a b. path = a @ ''..'' @ b) \<and> CHR 0x00 \<notin> set path
    \<and> workspace_read path host_minimal = Inr None \<and> \<not> secret_exists name host_minimal
    \<and> check_http_allowed parse decode show_debug url meth host_minimal \<noteq> Inr ()
    \<and> (\<forall>tool. check_tool_invoke_allowed alias host_minimal \<noteq> Inr tool)"
proof -
  obtain cap where cap: "cap_workspace_read (hs_capabilities h) = Some cap" "validate_workspace_path path = Inr ()"
    "allowed_prefixes cap = [] \<or> list_ex (starts_with path) (allowed_prefixes cap)"
    "\<exists>read. reader cap = Some read \<and> read path = Some content"
    using assms by (auto simp: workspace_read_def split: option.splits sum.splits if_splits)
  then show ?thesis
    by (auto simp: validate_workspace_path_def contains_str_iff list_ex_iff workspace_read_def secret_exists_def
        check_http_allowed_def check_tool_invoke_allowed_def host_minimal_def host_new_def capabilities_none_def
        split: if_splits)
qed

theorem workspace_read_confined_witness:
  "let h = host_new (capabilities_none\<lparr>cap_workspace_read :=
        Some \<lparr>allowed_prefixes = [''context/''], reader = Some (\<lambda>_. Some ''text'')\<rparr>\<rparr>)
   in workspace_read ''context/a.md'' h = Inr (Some ''text'') \<and> \<not> starts_with ''context/a.md'' ''/''"
proof -
  let ?h = "host_new (capabilities_none\<lparr>cap_workspace_read :=
        Some \<lparr>allowed_prefixes = [''context/''], reader = Some (\<lambda>_. Some ''text'')\<rparr>\<rparr>)"
  have "workspace_read ''context/a.md'' ?h = Inr (Some ''text'')"
    by code_simp
  with workspace_read_confined [OF this] show ?thesis
    unfolding Let_def by blast
qed

text \<open>
  However many HTTP requests one execution of a tool attempts (below the range of the
  counter), exactly the first 50 are granted.
\<close>

theorem execution_request_budget:
  assumes "cap_http c \<noteq> None" and "n < 2 ^ 32"
  shows "fst (http_requests n (host_new c)) = min n 50"
  using http_requests_granted [of "host_new c" n] assms by (simp add: host_new_def)

theorem execution_request_budget_witness:
  "fst (http_requests 1000 (host_new (with_http (http_capability_new []) capabilities_none))) = 50"
  using execution_request_budget [of "with_http (http_capability_new []) capabilities_none" 1000]
  by (simp add: with_http_def)

end
