(* ===== verification/Cost_Guard.thy ===== *)
theory Cost_Guard
  imports Prelude
begin

text \<open>
  \<open>src/llm/costs.rs\<close>, the price table, and \<open>src/agent/cost_guard.rs\<close>, the guard that refuses
  LLM calls above a daily budget or an hourly rate. \<open>Decimal\<close> amounts are rationals; dates are
  day numbers. A call of the guard is atomic here, and its clock readings are arguments. Log
  messages are left out.
\<close>

section \<open>Prices\<close>

text \<open>Amounts of the table, in hundred-millionths of a dollar.\<close>

definition usd :: "nat \<Rightarrow> rat" where
  "usd n = of_nat n / 100000000"

definition price_table :: "(string list \<times> rat \<times> rat) list" where
  "price_table =
     [
      ([''gpt-5.3-codex'', ''gpt-5.3-codex-spark''], usd 200, usd 800),
      ([''gpt-5.2-codex'', ''gpt-5.2-pro'', ''gpt-5.2''], usd 200, usd 800),
      ([''gpt-5.1-codex'', ''gpt-5.1-codex-max'', ''gpt-5.1''], usd 200, usd 800),
      ([''gpt-5.1-codex-mini''], usd 30, usd 120),
      ([''gpt-5-codex'', ''gpt-5-pro'', ''gpt-5''], usd 200, usd 800),
      ([''gpt-5-mini'', ''gpt-5-nano''], usd 30, usd 120),
      ([''gpt-4.1''], usd 200, usd 800),
      ([''gpt-4.1-mini''], usd 40, usd 160),
      ([''gpt-4.1-nano''], usd 10, usd 40),
      ([''gpt-4o'', ''gpt-4o-2024-11-20'', ''gpt-4o-2024-08-06''], usd 250, usd 1000),
      ([''gpt-4o-mini'', ''gpt-4o-mini-2024-07-18''], usd 15, usd 60),
      ([''gpt-4-turbo'', ''gpt-4-turbo-2024-04-09''], usd 1000, usd 3000),
      ([''gpt-4'', ''gpt-4-0613''], usd 3000, usd 6000),
      ([''gpt-3.5-turbo'', ''gpt-3.5-turbo-0125''], usd 50, usd 150),
      ([''o3''], usd 200, usd 800),
      ([''o3-mini'', ''o3-mini-2025-01-31''], usd 110, usd 440),
      ([''o4-mini''], usd 110, usd 440),
      ([''o1'', ''o1-2024-12-17''], usd 1500, usd 6000),
      ([''o1-mini'', ''o1-mini-2024-09-12''], usd 300, usd 1200),
      ([''claude-opus-4-6'', ''claude-opus-4-5'', ''claude-opus-4-5-20251101'', ''claude-opus-4-1'',
        ''claude-opus-4-1-20250805'', ''claude-opus-4-0'', ''claude-opus-4-20250514'', ''claude-3-opus-20240229'',
        ''claude-3-opus-latest''], usd 1500, usd 7500),
      ([''claude-sonnet-4-6'', ''claude-sonnet-4-5'', ''claude-sonnet-4-5-20250929'', ''claude-sonnet-4-0'',
        ''claude-sonnet-4-20250514'', ''claude-3-7-sonnet-20250219'', ''claude-3-7-sonnet-latest'', ''claude-3-5-sonnet-20241022'',
        ''claude-3-5-sonnet-latest''], usd 300, usd 1500),
      ([''claude-haiku-4-5'', ''claude-haiku-4-5-20251001'', ''claude-3-5-haiku-20241022'',
        ''claude-3-5-haiku-latest''], usd 80, usd 400),
      ([''claude-3-haiku-20240307''], usd 25, usd 125)
     ]"

definition is_local_model :: "string \<Rightarrow> bool" where
  "is_local_model model =
     (let lower = to_lowercase model
      in list_ex (starts_with lower)
           [''llama'', ''mistral'', ''mixtral'', ''phi'', ''gemma'', ''qwen'', ''codellama'', ''deepseek'',
            ''starcoder'', ''vicuna'', ''yi'']
         \<or> contains_str lower '':latest'' \<or> contains_str lower '':instruct'')"

text \<open>\<open>rsplit_once('/')\<close>: what follows the last slash, the whole name if there is none.\<close>

definition strip_provider :: "string \<Rightarrow> string" where
  "strip_provider model = last (split_on (CHR ''/'') model)"

definition model_cost :: "string \<Rightarrow> (rat \<times> rat) option" where
  "model_cost model =
     (if ends_with model '':free'' \<or> model = ''openrouter/free'' \<or> model = ''free'' then Some (0, 0)
      else let name = strip_provider model
           in case find (\<lambda>(names, _). name \<in> set names) price_table of
                Some (_, rates) \<Rightarrow> Some rates
              | None \<Rightarrow> (if is_local_model name then Some (0, 0) else None))"

definition default_cost :: "rat \<times> rat" where
  "default_cost = (usd 250, usd 1000)"

section \<open>The guard\<close>

record cost_guard_config =
  max_cost_per_day_cents :: "u64 option"
  max_actions_per_hour :: "u64 option"

datatype cost_limit_exceeded =
    DailyBudget u64 u64
  | HourlyRate u64 u64

record model_tokens =
  mt_input_tokens :: u64
  mt_output_tokens :: u64
  mt_cost :: rat

record cost_guard =
  cg_config :: cost_guard_config
  daily_total :: rat
  reset_date :: int
  action_window :: "instant list"
  cg_budget_exceeded :: bool
  cg_model_tokens :: "(string, model_tokens) hashmap"

definition cost_guard_new :: "cost_guard_config \<Rightarrow> int \<Rightarrow> cost_guard" where
  "cost_guard_new cfg today = \<lparr>cg_config = cfg, daily_total = 0, reset_date = today, action_window = [],
     cg_budget_exceeded = False, cg_model_tokens = []\<rparr>"

text \<open>
  Truncation to whole cents; what does not parse as \<open>u64\<close> (a negative or a too large amount)
  counts as 0.
\<close>

definition to_cents :: "rat \<Rightarrow> u64" where
  "to_cents amount =
     (let c = amount * 100; t = (if c < 0 then - floor (- c) else floor c)
      in if 0 \<le> c \<and> t < 2 ^ 64 then of_int t else 0)"

fun drain_expired :: "instant \<Rightarrow> instant list \<Rightarrow> instant list" where
  "drain_expired now [] = []"
| "drain_expired now (t # ts) = (if t + secs 3600 < now then drain_expired now ts else t # ts)"

definition check_budget :: "cost_guard \<Rightarrow> (cost_limit_exceeded + unit) \<times> cost_guard" where
  "check_budget g =
     (case max_cost_per_day_cents (cg_config g) of
        None \<Rightarrow> (Inr (), g)
      | Some limit \<Rightarrow>
          (if to_cents (daily_total g) \<ge> limit
           then (Inl (DailyBudget (to_cents (daily_total g)) limit), g\<lparr>cg_budget_exceeded := True\<rparr>)
           else (Inr (), g)))"

definition check_rate :: "instant \<Rightarrow> cost_guard \<Rightarrow> (cost_limit_exceeded + unit) \<times> cost_guard" where
  "check_rate now g =
     (case max_actions_per_hour (cg_config g) of
        None \<Rightarrow> (Inr (), g)
      | Some limit \<Rightarrow>
          (let window = drain_expired now (action_window g); count = of_nat (length window)
           in (if count \<ge> limit then Inl (HourlyRate count limit) else Inr (), g\<lparr>action_window := window\<rparr>)))"

definition check_allowed :: "instant \<Rightarrow> cost_guard \<Rightarrow> (cost_limit_exceeded + unit) \<times> cost_guard" where
  "check_allowed now g =
     (if cg_budget_exceeded g
      then (Inl (DailyBudget (to_cents (daily_total g))
              (case max_cost_per_day_cents (cg_config g) of Some l \<Rightarrow> l | None \<Rightarrow> 0)), g)
      else case check_budget g of
             (Inl e, g) \<Rightarrow> (Inl e, g)
           | (Inr _, g) \<Rightarrow> check_rate now g)"

record llm_usage =
  us_model :: string
  us_input_tokens :: u32
  us_output_tokens :: u32
  us_cache_read :: u32
  us_cache_creation :: u32
  us_read_discount :: rat
  us_write_multiplier :: rat
  us_cost_per_token :: "(rat \<times> rat) option"

definition call_cost :: "llm_usage \<Rightarrow> rat" where
  "call_cost u =
     (let (input_rate, output_rate) =
            (case us_cost_per_token u of
               Some rates \<Rightarrow> rates
             | None \<Rightarrow> (case model_cost (us_model u) of Some rates \<Rightarrow> rates | None \<Rightarrow> default_cost));
          cached_total = min (2 ^ 32 - 1) (unat (us_cache_read u) + unat (us_cache_creation u));
          uncached_input = unat (us_input_tokens u) - cached_total;
          effective_discount = (if us_read_discount u = 0 then 1 else us_read_discount u);
          cache_read_cost = input_rate * of_nat (unat (us_cache_read u)) / effective_discount;
          cache_write_cost = input_rate * of_nat (unat (us_cache_creation u)) * us_write_multiplier u
      in input_rate * of_nat uncached_input + cache_read_cost + cache_write_cost
         + output_rate * of_nat (unat (us_output_tokens u)))"

definition add_daily_cost :: "int \<Rightarrow> rat \<Rightarrow> cost_guard \<Rightarrow> cost_guard" where
  "add_daily_cost today cost g =
     (let g = (if today \<noteq> reset_date g
               then g\<lparr>daily_total := 0, reset_date := today, cg_budget_exceeded := False\<rparr> else g);
          g = g\<lparr>daily_total := daily_total g + cost\<rparr>
      in case max_cost_per_day_cents (cg_config g) of
           Some limit \<Rightarrow> (if to_cents (daily_total g) \<ge> limit then g\<lparr>cg_budget_exceeded := True\<rparr> else g)
         | None \<Rightarrow> g)"

definition track_tokens :: "llm_usage \<Rightarrow> rat \<Rightarrow> (string, model_tokens) hashmap \<Rightarrow> (string, model_tokens) hashmap" where
  "track_tokens u cost m =
     (let e = (case hm_get m (us_model u) of
                 Some e \<Rightarrow> e | None \<Rightarrow> \<lparr>mt_input_tokens = 0, mt_output_tokens = 0, mt_cost = 0\<rparr>)
      in hm_insert (us_model u)
           (e\<lparr>mt_input_tokens := mt_input_tokens e + ucast (us_input_tokens u),
             mt_output_tokens := mt_output_tokens e + ucast (us_output_tokens u), mt_cost := mt_cost e + cost\<rparr>) m)"

definition record_llm_call :: "int \<Rightarrow> instant \<Rightarrow> llm_usage \<Rightarrow> cost_guard \<Rightarrow> rat \<times> cost_guard" where
  "record_llm_call today now u g =
     (let cost = call_cost u;
          g = add_daily_cost today cost g;
          g = g\<lparr>action_window := action_window g @ [now]\<rparr>;
          g = g\<lparr>cg_model_tokens := track_tokens u cost (cg_model_tokens g)\<rparr>
      in (cost, g))"

definition daily_spend :: "int \<Rightarrow> cost_guard \<Rightarrow> rat" where
  "daily_spend today g = (if today \<noteq> reset_date g then 0 else daily_total g)"

definition actions_this_hour :: "instant \<Rightarrow> cost_guard \<Rightarrow> u64 \<times> cost_guard" where
  "actions_this_hour now g =
     (let window = drain_expired now (action_window g) in (of_nat (length window), g\<lparr>action_window := window\<rparr>))"

definition model_usage :: "cost_guard \<Rightarrow> (string, model_tokens) hashmap" where
  "model_usage g = cg_model_tokens g"

section \<open>Guarded calls\<close>

text \<open>
  The discipline of the dispatcher (\<open>src/agent/dispatcher.rs\<close>): the guard is asked before an LLM
  call, and the call is recorded when it has completed. A call has the time of the check, the
  date and time of the record, and its usage.
\<close>

record guarded_call =
  gc_check :: instant
  gc_today :: int
  gc_done :: instant
  gc_usage :: llm_usage

definition guard_call :: "guarded_call \<Rightarrow> cost_guard \<Rightarrow> bool \<times> cost_guard" where
  "guard_call c g =
     (case check_allowed (gc_check c) g of
        (Inl _, g) \<Rightarrow> (False, g)
      | (Inr _, g) \<Rightarrow> (True, snd (record_llm_call (gc_today c) (gc_done c) (gc_usage c) g)))"

fun granted :: "guarded_call list \<Rightarrow> cost_guard \<Rightarrow> instant list" where
  "granted [] g = []"
| "granted (c # cs) g = (if fst (guard_call c g) then [gc_done c] else []) @ granted cs (snd (guard_call c g))"

fun in_order :: "instant \<Rightarrow> guarded_call list \<Rightarrow> bool" where
  "in_order now [] = True"
| "in_order now (c # cs) = (now \<le> gc_check c \<and> gc_check c \<le> gc_done c \<and> in_order (gc_done c) cs)"

lemma cg_config_add_daily [simp]: "cg_config (add_daily_cost today cost g) = cg_config g"
  and action_window_add_daily [simp]: "action_window (add_daily_cost today cost g) = action_window g"
  by (simp_all add: add_daily_cost_def Let_def split: option.split)

lemma record_llm_call_window [simp]:
  "action_window (snd (record_llm_call today now u g)) = action_window g @ [now]"
  "cg_config (snd (record_llm_call today now u g)) = cg_config g"
  by (simp_all add: record_llm_call_def Let_def)

lemma check_allowed_Inr:
  assumes "check_allowed now g = (Inr (), g')" and "max_actions_per_hour (cg_config g) = Some limit"
  shows "g' = g\<lparr>action_window := drain_expired now (action_window g)\<rparr>
    \<and> of_nat (length (drain_expired now (action_window g))) < limit"
  using assms
  by (auto simp: check_allowed_def check_budget_def check_rate_def Let_def not_le split: if_splits option.splits)

lemma check_allowed_config: "cg_config (snd (check_allowed now g)) = cg_config g"
  by (auto simp: check_allowed_def check_budget_def check_rate_def Let_def split: option.splits)

lemma check_allowed_window:
  "action_window (snd (check_allowed now g)) \<in> {action_window g, drain_expired now (action_window g)}"
  by (auto simp: check_allowed_def check_budget_def check_rate_def Let_def split: option.splits)

lemma drain_expired_suffix: "\<exists>d. ts = d @ drain_expired now ts \<and> (\<forall>t \<in> set d. t + secs 3600 < now)"
proof (induction now ts rule: drain_expired.induct)
  case (2 now t ts)
  then obtain d where "t + secs 3600 < now \<Longrightarrow> ts = d @ drain_expired now ts \<and> (\<forall>t \<in> set d. t + secs 3600 < now)"
    by blast
  then show ?case
    by (cases "t + secs 3600 < now") (simp_all, metis append_Cons set_ConsD)
qed simp

definition in_hour :: "instant \<Rightarrow> instant list \<Rightarrow> instant list" where
  "in_hour a ts = filter (\<lambda>t. a \<le> t \<and> t \<le> a + secs 3600) ts"

text \<open>
  The window is the recent part of the history: what has been dropped from it is more than an
  hour old.
\<close>

definition window_of :: "instant list \<Rightarrow> instant \<Rightarrow> cost_guard \<Rightarrow> bool" where
  "window_of history now g \<longleftrightarrow>
     (\<exists>dropped. history = dropped @ action_window g \<and> (\<forall>t \<in> set dropped. t + secs 3600 < now))"

lemma window_of_check:
  assumes "window_of h now g" and "now \<le> tc"
  shows "window_of h tc (snd (check_allowed tc g))"
proof -
  obtain d where d: "h = d @ action_window g" "\<forall>t \<in> set d. t + secs 3600 < now"
    using assms(1) by (auto simp: window_of_def)
  obtain d' where d': "action_window g = d' @ drain_expired tc (action_window g)" "\<forall>t \<in> set d'. t + secs 3600 < tc"
    using drain_expired_suffix by blast
  consider "action_window (snd (check_allowed tc g)) = action_window g"
    | "action_window (snd (check_allowed tc g)) = drain_expired tc (action_window g)"
    using check_allowed_window [of tc g] by auto
  then show ?thesis
  proof cases
    case 1
    then show ?thesis using d assms(2) by (fastforce simp: window_of_def)
  next
    case 2
    then have "h = (d @ d') @ action_window (snd (check_allowed tc g))"
      using d(1) d'(1) by simp
    then show ?thesis using d(2) d'(2) assms(2) unfolding window_of_def by fastforce
  qed
qed

lemma guard_call_False: "\<not> fst (guard_call c g) \<Longrightarrow> snd (guard_call c g) = snd (check_allowed (gc_check c) g)"
  by (auto simp: guard_call_def split: prod.splits sum.splits)

lemma guard_call_True:
  assumes "fst (guard_call c g)"
  obtains g' where "check_allowed (gc_check c) g = (Inr (), g')"
    and "snd (guard_call c g) = snd (record_llm_call (gc_today c) (gc_done c) (gc_usage c) g')"
  using assms by (auto simp: guard_call_def split: prod.splits sum.splits)

lemma guard_call_window:
  assumes "window_of h now g" and "now \<le> gc_check c" and "gc_check c \<le> gc_done c"
  shows "window_of (h @ (if fst (guard_call c g) then [gc_done c] else [])) (gc_done c) (snd (guard_call c g))"
proof -
  have w: "window_of h (gc_check c) (snd (check_allowed (gc_check c) g))"
    using assms(1,2) by (rule window_of_check)
  then have w': "window_of h (gc_done c) (snd (check_allowed (gc_check c) g))"
    using assms(3) by (fastforce simp: window_of_def)
  show ?thesis
  proof (cases "fst (guard_call c g)")
    case True
    then obtain g' where "check_allowed (gc_check c) g = (Inr (), g')"
      "snd (guard_call c g) = snd (record_llm_call (gc_today c) (gc_done c) (gc_usage c) g')"
      by (rule guard_call_True)
    then show ?thesis using True w' by (auto simp: window_of_def)
  next
    case False
    then show ?thesis using w' by (simp add: guard_call_False)
  qed
qed

lemma guard_call_config: "cg_config (snd (guard_call c g)) = cg_config g"
  using check_allowed_config [of "gc_check c" g] by (auto simp: guard_call_def split: prod.splits sum.splits)

lemma in_hour_bound:
  assumes "window_of h (gc_check c) g" and "a \<le> gc_done c" and "gc_done c \<le> a + secs 3600" and "gc_check c \<le> gc_done c"
  shows "length (in_hour a h) \<le> length (action_window g)"
proof -
  obtain d where d: "h = d @ action_window g" "\<forall>t \<in> set d. t + secs 3600 < gc_check c"
    using assms(1) by (auto simp: window_of_def)
  then have "in_hour a d = []"
    using assms(2-4) by (fastforce simp: in_hour_def filter_empty_conv)
  then have "in_hour a h = in_hour a (action_window g)"
    by (simp add: in_hour_def d(1))
  then show ?thesis
    by (simp add: in_hour_def)
qed

lemma granted_sliding:
  assumes "window_of h now g" and "max_actions_per_hour (cg_config g) = Some limit"
    and "in_order now cs" and "length h + length cs < 2 ^ 64" and "\<forall>a. length (in_hour a h) \<le> unat limit"
  shows "length (in_hour a (h @ granted cs g)) \<le> unat limit"
  using assms
proof (induction cs arbitrary: h now g)
  case (Cons c cs)
  let ?g = "snd (guard_call c g)"
  let ?h = "h @ (if fst (guard_call c g) then [gc_done c] else [])"
  have ord: "now \<le> gc_check c" "gc_check c \<le> gc_done c" using Cons.prems(3) by auto
  have win: "window_of ?h (gc_done c) ?g"
    using Cons.prems(1) ord by (rule guard_call_window)
  have bound: "length (in_hour a ?h) \<le> unat limit" for a
  proof (cases "fst (guard_call c g) \<and> a \<le> gc_done c \<and> gc_done c \<le> a + secs 3600")
    case True
    then obtain g' where g': "check_allowed (gc_check c) g = (Inr (), g')"
      using guard_call_True by blast
    have small: "of_nat (length (action_window g')) < limit"
      using check_allowed_Inr [OF g' Cons.prems(2)] by simp
    have "window_of h (gc_check c) g'"
      using window_of_check [OF Cons.prems(1) ord(1)] g' by simp
    then have le: "length (in_hour a h) \<le> length (action_window g')" "length (action_window g') \<le> length h"
      using in_hour_bound [of h c g' a] True ord by (auto simp: window_of_def)
    have "unat (of_nat (length (action_window g')) :: u64) = length (action_window g')"
      using le(2) Cons.prems(4) by (simp add: unat_of_nat)
    then have "length (action_window g') < unat limit"
      using small by (simp add: word_less_nat_alt)
    then show ?thesis
      using le(1) True by (simp add: in_hour_def)
  next
    case False
    then show ?thesis
      using Cons.prems(5) by (auto simp: in_hour_def)
  qed
  have "length (in_hour a (?h @ granted cs ?g)) \<le> unat limit"
    using win bound Cons.prems by (intro Cons.IH) (auto simp: guard_call_config)
  then show ?case by simp
qed simp

section \<open>A blown budget\<close>

lemma exceeded_blocks: "cg_budget_exceeded g \<Longrightarrow> \<not> fst (guard_call c g) \<and> snd (guard_call c g) = g"
  by (simp add: guard_call_def check_allowed_def)

lemma exceeded_grants_none: "cg_budget_exceeded g \<Longrightarrow> granted cs g = []"
  by (induction cs) (simp_all add: exceeded_blocks)

text \<open>
  The counter and the flag are only reset when a call is recorded, and a call is only recorded
  after the guard let it through: once the guard has refused a call for the daily budget, it
  refuses every later call, on every later day.
\<close>

theorem budget_block_is_permanent:
  assumes "fst (check_allowed now g) = Inl (DailyBudget spent limit)"
  shows "granted cs (snd (check_allowed now g)) = []"
  using assms
  by (intro exceeded_grants_none)
     (auto simp: check_allowed_def check_budget_def check_rate_def Let_def split: if_splits option.splits)

section \<open>Theorems\<close>



text \<open>
  With a daily limit, a call is only granted while the total recorded for the day is below
  the limit, and it adds exactly its cost to the total of the day (which starts at zero on a
  new date), so that the limit is exceeded by less than the cost of one call; a refused call
  leaves the total as it is.
\<close>

theorem daily_budget_overshoot:
  assumes "max_cost_per_day_cents (cg_config g) = Some limit"
  shows "if fst (guard_call c g)
    then to_cents (daily_total g) < limit
      \<and> daily_total (snd (guard_call c g))
        = (if gc_today c = reset_date g then daily_total g else 0) + call_cost (gc_usage c)
    else daily_total (snd (guard_call c g)) = daily_total g"
  using assms
  by (auto simp: guard_call_def check_allowed_def check_budget_def check_rate_def record_llm_call_def
      add_daily_cost_def Let_def not_le split: prod.splits sum.splits option.splits if_splits)

theorem daily_budget_overshoot_witness:
  "let g = cost_guard_new \<lparr>max_cost_per_day_cents = Some 0, max_actions_per_hour = None\<rparr> 7;
       c = \<lparr>gc_check = 1, gc_today = 8, gc_done = 2, gc_usage =
              \<lparr>us_model = ''gpt-4o'', us_input_tokens = 10, us_output_tokens = 10, us_cache_read = 0,
               us_cache_creation = 0, us_read_discount = 1, us_write_multiplier = 1, us_cost_per_token = None\<rparr>\<rparr>
   in \<not> fst (guard_call c g) \<and> daily_total (snd (guard_call c g)) = 0"
proof -
  let ?g = "cost_guard_new \<lparr>max_cost_per_day_cents = Some 0, max_actions_per_hour = None\<rparr> 7"
  have "max_cost_per_day_cents (cg_config ?g) = Some 0" "daily_total ?g = 0"
    by (simp_all add: cost_guard_new_def)
  then show ?thesis
    unfolding Let_def using daily_budget_overshoot [of ?g 0] by (metis word_not_simps(1))
qed

end
