(* ===== verification/Token_Store.thy ===== *)
theory Token_Store
  imports Prelude
begin

text \<open>
  \<open>src/orchestrator/auth.rs\<close>: the bearer tokens and credential grants of worker containers, and
  the middleware that authenticates their requests. The random bytes of a new token, UUID
  parsing and the conversion of a header value to text are arguments; constant-time comparison
  is equality.
\<close>

record credential_grant =
  cg_secret_name :: string
  cg_env_var :: string

record token_store =
  tokens :: "(uuid, string) hashmap"
  credential_grants :: "(uuid, credential_grant list) hashmap"

definition token_store_new :: token_store where
  "token_store_new = \<lparr>tokens = [], credential_grants = []\<rparr>"

definition hex_digit :: "nat \<Rightarrow> char" where
  "hex_digit n = char_of (if n < 10 then 48 + n else 87 + n)"

definition hex_byte :: "8 word \<Rightarrow> string" where
  "hex_byte b = [hex_digit (unat b div 16), hex_digit (unat b mod 16)]"

definition generate_token :: "8 word list \<Rightarrow> string" where
  "generate_token bytes = foldl (\<lambda>s b. s @ hex_byte b) [] bytes"

definition create_token :: "uuid \<Rightarrow> 8 word list \<Rightarrow> token_store \<Rightarrow> string \<times> token_store" where
  "create_token job bytes s =
     (let token = generate_token bytes in (token, s\<lparr>tokens := hm_insert job token (tokens s)\<rparr>))"

definition validate_token :: "uuid \<Rightarrow> string \<Rightarrow> token_store \<Rightarrow> bool" where
  "validate_token job token s = (case hm_get (tokens s) job of Some stored \<Rightarrow> stored = token | None \<Rightarrow> False)"

definition revoke :: "uuid \<Rightarrow> token_store \<Rightarrow> token_store" where
  "revoke job s = s\<lparr>tokens := hm_remove job (tokens s), credential_grants := hm_remove job (credential_grants s)\<rparr>"

definition active_tokens :: "token_store \<Rightarrow> nat" where
  "active_tokens s = length (tokens s)"

definition store_grants :: "uuid \<Rightarrow> credential_grant list \<Rightarrow> token_store \<Rightarrow> token_store" where
  "store_grants job grants s =
     (if grants \<noteq> [] then s\<lparr>credential_grants := hm_insert job grants (credential_grants s)\<rparr> else s)"

definition get_grants :: "uuid \<Rightarrow> token_store \<Rightarrow> credential_grant list option" where
  "get_grants job s = hm_get (credential_grants s) job"

definition extract_job_id_from_path :: "(string \<Rightarrow> uuid option) \<Rightarrow> string \<Rightarrow> uuid option" where
  "extract_job_id_from_path parse_uuid path =
     (let parts = split_on (CHR ''/'') (dropWhile (\<lambda>c. c = CHR ''/'') path)
      in if length parts \<ge> 2 \<and> parts ! 0 = ''worker'' then parse_uuid (parts ! 1) else None)"

datatype status_code = BAD_REQUEST | UNAUTHORIZED

text \<open>\<open>auth\<close> is the authorization header, \<open>run\<close> the rest of the handler chain.\<close>

definition worker_auth_middleware ::
  "(string \<Rightarrow> uuid option) \<Rightarrow> (string \<Rightarrow> string option) \<Rightarrow> token_store \<Rightarrow> string \<Rightarrow> string option
   \<Rightarrow> (unit \<Rightarrow> 'r) \<Rightarrow> status_code + 'r" where
  "worker_auth_middleware parse_uuid to_str store path auth run =
     (case extract_job_id_from_path parse_uuid path of
        None \<Rightarrow> Inl BAD_REQUEST
      | Some job \<Rightarrow>
          (case Option.bind (Option.bind auth to_str) (\<lambda>v. strip_prefix v ''Bearer '') of
             None \<Rightarrow> Inl UNAUTHORIZED
           | Some token \<Rightarrow>
               (if \<not> validate_token job token store then Inl UNAUTHORIZED else Inr (run ()))))"

section \<open>Tokens\<close>

lemma generate_token_concat: "generate_token bytes = concat (map hex_byte bytes)"
proof -
  have "foldl (\<lambda>s b. s @ hex_byte b) acc bytes = acc @ concat (map hex_byte bytes)" for acc
    by (induction bytes arbitrary: acc) auto
  then show ?thesis
    by (simp add: generate_token_def)
qed

lemma length_generate_token: "length (generate_token bytes) = 2 * length bytes"
  by (induction bytes) (simp_all add: generate_token_concat hex_byte_def)

lemma hex_digit_inj:
  assumes "m < 16" and "n < 16" and "hex_digit m = hex_digit n"
  shows "m = n"
proof -
  have code: "of_char (hex_digit k) = (if k < 10 then 48 + k else 87 + k)" if "k < 16" for k :: nat
    using that by (simp add: hex_digit_def)
  have "(if m < 10 then 48 + m else 87 + m) = (if n < 10 then 48 + n else 87 + n)"
    using code [OF assms(1)] code [OF assms(2)] assms(3) by simp
  then show ?thesis
    by (simp split: if_splits)
qed

lemma hex_byte_inj: "hex_byte a = hex_byte b \<Longrightarrow> a = b"
proof -
  assume eq: "hex_byte a = hex_byte b"
  have "unat x div 16 < 16" for x :: "8 word"
    using unsigned_less [of x, where 'a = nat] by simp
  then have "unat a div 16 = unat b div 16" "unat a mod 16 = unat b mod 16"
    using eq hex_digit_inj [of "unat a div 16" "unat b div 16"] hex_digit_inj [of "unat a mod 16" "unat b mod 16"]
    by (simp_all add: hex_byte_def)
  then have "unat a = unat b"
    by (metis div_mult_mod_eq)
  then show "a = b" by (simp add: word_unat_eq_iff)
qed

lemma generate_token_inj: "generate_token bs = generate_token cs \<Longrightarrow> bs = cs"
proof (induction bs arbitrary: cs)
  case Nil
  then show ?case by (cases cs) (simp_all add: generate_token_concat hex_byte_def)
next
  case (Cons b bs)
  then obtain c cs' where cs: "cs = c # cs'"
    by (cases cs) (auto simp: generate_token_concat hex_byte_def)
  then have "hex_byte b = hex_byte c" "generate_token bs = generate_token cs'"
    using Cons.prems by (simp_all add: generate_token_concat hex_byte_def)
  then show ?case using Cons.IH cs hex_byte_inj by blast
qed

section \<open>Operations on the store\<close>

datatype token_op =
    CreateToken uuid "8 word list"
  | Revoke uuid
  | StoreGrants uuid "credential_grant list"

fun token_step :: "token_store \<Rightarrow> token_op \<Rightarrow> token_store" where
  "token_step s (CreateToken job bytes) = snd (create_token job bytes s)"
| "token_step s (Revoke job) = revoke job s"
| "token_step s (StoreGrants job grants) = store_grants job grants s"

fun drawn :: "token_op list \<Rightarrow> 8 word list list" where
  "drawn [] = []"
| "drawn (CreateToken _ bytes # xs) = bytes # drawn xs"
| "drawn (_ # xs) = drawn xs"

lemma drawn_append: "drawn (xs @ ys) = drawn xs @ drawn ys"
  by (induction xs rule: drawn.induct) auto

lemma drawn_member: "CreateToken job bytes \<in> set xs \<Longrightarrow> bytes \<in> set (drawn xs)"
  by (induction xs rule: drawn.induct) auto

lemma drawn_distinct_job:
  "distinct (drawn xs) \<Longrightarrow> CreateToken a bytes \<in> set xs \<Longrightarrow> CreateToken b bytes \<in> set xs \<Longrightarrow> a = b"
  by (induction xs rule: drawn.induct) (auto dest: drawn_member)

lemma validate_create:
  "validate_token j t (snd (create_token job bytes s)) \<longleftrightarrow>
   (if j = job then t = generate_token bytes else validate_token j t s)"
  by (auto simp: validate_token_def create_token_def Let_def hm.lookup_put split: option.splits)

lemma validate_revoke: "validate_token j t (revoke job s) \<longleftrightarrow> j \<noteq> job \<and> validate_token j t s"
  by (simp add: validate_token_def revoke_def hm.lookup_remove)

lemma validate_store_grants [simp]: "validate_token j t (store_grants job gs s) = validate_token j t s"
  by (simp add: validate_token_def store_grants_def)

definition not_reset :: "uuid \<Rightarrow> token_op \<Rightarrow> bool" where
  "not_reset job x = (case x of CreateToken j _ \<Rightarrow> j \<noteq> job | Revoke j \<Rightarrow> j \<noteq> job | StoreGrants _ _ \<Rightarrow> True)"

text \<open>The store accepts exactly the token of the job's last creation that no revocation follows.\<close>

lemma validate_trace:
  "validate_token job t (foldl token_step token_store_new xs) \<longleftrightarrow>
   (\<exists>before bytes after. xs = before @ CreateToken job bytes # after \<and> t = generate_token bytes
      \<and> (\<forall>x \<in> set after. not_reset job x))"
proof (induction xs rule: rev_induct)
  case Nil
  then show ?case by (simp add: validate_token_def token_store_new_def)
next
  case (snoc x xs)
  let ?P = "\<lambda>xs. \<exists>before bytes after. xs = before @ CreateToken job bytes # after \<and> t = generate_token bytes
      \<and> (\<forall>x \<in> set after. not_reset job x)"
  have snoc_P: "?P (xs @ [x]) \<longleftrightarrow> (\<exists>bytes. x = CreateToken job bytes \<and> t = generate_token bytes) \<or> not_reset job x \<and> ?P xs"
    (is "_ \<longleftrightarrow> ?new \<or> ?old")
  proof
    assume "?P (xs @ [x])"
    then obtain before bytes after where eq: "xs @ [x] = before @ CreateToken job bytes # after" "t = generate_token bytes"
      "\<forall>x \<in> set after. not_reset job x" by blast
    show "?new \<or> ?old"
    proof (cases after rule: rev_cases)
      case Nil
      then show ?thesis using eq by simp
    next
      case (snoc ys y)
      then have "y = x" "xs = before @ CreateToken job bytes # ys" using eq(1) by simp_all
      moreover have "not_reset job x" "\<forall>x \<in> set ys. not_reset job x"
        using eq(3) snoc \<open>y = x\<close> by auto
      ultimately show ?thesis using eq(2) by blast
    qed
  next
    assume "?new \<or> ?old"
    then show "?P (xs @ [x])"
    proof
      assume ?new
      then show ?thesis by fastforce
    next
      assume ?old
      then obtain before bytes after where "xs = before @ CreateToken job bytes # after" "t = generate_token bytes"
        "\<forall>x \<in> set after. not_reset job x" "not_reset job x" by blast
      then show ?thesis
        by (intro exI [of _ before] exI [of _ bytes] exI [of _ "after @ [x]"]) auto
    qed
  qed
  show ?case
    unfolding snoc_P snoc.IH [symmetric]
    by (cases x) (auto simp: validate_create validate_revoke not_reset_def)
qed

lemma middleware_Inr:
  "worker_auth_middleware parse_uuid to_str store path auth run = Inr r \<longleftrightarrow>
   (\<exists>job h v token. extract_job_id_from_path parse_uuid path = Some job \<and> auth = Some h \<and> to_str h = Some v
      \<and> v = ''Bearer '' @ token \<and> validate_token job token store \<and> r = run ())"
  unfolding strip_prefix_Some [symmetric]
  by (auto simp: worker_auth_middleware_def Option.bind_eq_Some_conv Option.bind_eq_None_conv split: option.splits)

section \<open>Theorems\<close>

text \<open>
  After any sequence of token creations, revocations and grants in which all random draws
  differ: a request that carries the token issued to one job is only let through on paths of
  that same job, and only while that token is the job's latest and has not been revoked. Every
  token of 32 random bytes has 64 hexadecimal characters, and different draws give different
  tokens.
\<close>

theorem worker_token_isolation:
  assumes "distinct (drawn xs)" and "CreateToken a bytes \<in> set xs"
    and "worker_auth_middleware parse_uuid to_str (foldl token_step token_store_new xs) path auth run = Inr r"
    and "Option.bind auth to_str = Some (''Bearer '' @ generate_token bytes)"
  shows "extract_job_id_from_path parse_uuid path = Some a
    \<and> (\<exists>before after. xs = before @ CreateToken a bytes # after \<and> (\<forall>x \<in> set after. not_reset a x))
    \<and> length (generate_token bytes) = 2 * length bytes"
proof -
  obtain job h v token where ok: "extract_job_id_from_path parse_uuid path = Some job" "auth = Some h" "to_str h = Some v"
    "v = ''Bearer '' @ token" "validate_token job token (foldl token_step token_store_new xs)"
    using assms(3) unfolding middleware_Inr by blast
  have "validate_token job (generate_token bytes) (foldl token_step token_store_new xs)"
    using ok assms(4) by simp
  then obtain before bytes' after where trace: "xs = before @ CreateToken job bytes' # after"
    "generate_token bytes = generate_token bytes'" "\<forall>x \<in> set after. not_reset job x"
    unfolding validate_trace by blast
  then have bytes: "bytes' = bytes"
    using generate_token_inj by blast
  then have "job = a"
    using drawn_distinct_job [OF assms(1), of job bytes a] assms(2) trace(1) by simp
  then show ?thesis
    using ok(1) trace bytes by (auto simp: length_generate_token)
qed

theorem worker_token_isolation_witness:
  "let xs = [CreateToken 1 [10, 11], CreateToken 2 [12, 13], Revoke 2];
       parse = (\<lambda>s. if s = ''one'' then Some 1 else None);
       path = ''/worker/one/status'';
       auth = Some (''Bearer '' @ generate_token [10, 11])
   in worker_auth_middleware parse Some (foldl token_step token_store_new xs) path auth (\<lambda>_. ''ok'') = Inr ''ok''
      \<and> extract_job_id_from_path parse path = Some 1"
proof -
  let ?xs = "[CreateToken 1 [10, 11], CreateToken 2 [12, 13], Revoke 2]"
  let ?parse = "\<lambda>s. if s = ''one'' then Some (1 :: nat) else None"
  have run: "worker_auth_middleware ?parse Some (foldl token_step token_store_new ?xs) ''/worker/one/status''
      (Some (''Bearer '' @ generate_token [10, 11])) (\<lambda>_. ''ok'') = Inr ''ok''"
    by code_simp
  have "distinct (drawn ?xs)" "CreateToken 1 [10, 11] \<in> set ?xs"
    by simp_all
  from worker_token_isolation [OF this run] show ?thesis
    using run unfolding Let_def by simp
qed

end
