(* ===== verification/Skills.thy ===== *)
theory Skills
  imports Llm_Types
begin

text \<open>
  \<open>src/skills/mod.rs\<close>, \<open>src/skills/attenuation.rs\<close> and \<open>src/skills/selector.rs\<close>: skills with
  their trust, the limits on what a manifest may declare, the escaping of skill text, the
  deterministic prefilter and the attenuation of the tool list. Compiled regular expressions are
  predicates on the message; the two fixed expressions of the sources are written out for ASCII
  text. Token counts are \<open>usize\<close> on a 64-bit machine and scores are \<open>u32\<close>.
\<close>

section \<open>Skills\<close>

definition MAX_KEYWORDS_PER_SKILL :: nat where "MAX_KEYWORDS_PER_SKILL = 20"

definition MAX_PATTERNS_PER_SKILL :: nat where "MAX_PATTERNS_PER_SKILL = 5"

definition MAX_TAGS_PER_SKILL :: nat where "MAX_TAGS_PER_SKILL = 10"

definition MIN_KEYWORD_TAG_LENGTH :: nat where "MIN_KEYWORD_TAG_LENGTH = 3"

text \<open>\<open>^[a-zA-Z0-9][a-zA-Z0-9._-]{0,63}$\<close>\<close>

definition validate_skill_name :: "string \<Rightarrow> bool" where
  "validate_skill_name name =
     (case name of
        [] \<Rightarrow> False
      | c # cs \<Rightarrow> is_alnum c \<and> length cs \<le> 63 \<and> list_all (\<lambda>d. is_alnum d \<or> d \<in> set ''._-'') cs)"

datatype skill_trust = Installed | Trusted

text \<open>The order the security model relies on: \<open>Installed < Trusted\<close>.\<close>

instantiation skill_trust :: linorder
begin

fun less_eq_skill_trust :: "skill_trust \<Rightarrow> skill_trust \<Rightarrow> bool" where
  "less_eq_skill_trust Installed _ = True"
| "less_eq_skill_trust Trusted Installed = False"
| "less_eq_skill_trust Trusted Trusted = True"

definition less_skill_trust :: "skill_trust \<Rightarrow> skill_trust \<Rightarrow> bool" where
  "less_skill_trust a b \<longleftrightarrow> a \<le> b \<and> \<not> b \<le> a"

instance
proof
  fix x y z :: skill_trust
  show "(x < y) = (x \<le> y \<and> \<not> y \<le> x)" by (simp add: less_skill_trust_def)
  show "x \<le> x" by (cases x) auto
  show "x \<le> y \<Longrightarrow> y \<le> z \<Longrightarrow> x \<le> z" by (cases x; cases y; cases z) auto
  show "x \<le> y \<Longrightarrow> y \<le> x \<Longrightarrow> x = y" by (cases x; cases y) auto
  show "x \<le> y \<or> y \<le> x" by (cases x; cases y) auto
qed

end

datatype skill_source = Workspace string | User_dir string | Bundled string

record activation_criteria =
  ac_keywords :: "string list"
  ac_patterns :: "string list"
  ac_tags :: "string list"
  ac_max_context_tokens :: u64

definition enforce_limits :: "activation_criteria \<Rightarrow> activation_criteria" where
  "enforce_limits a = a\<lparr>
     ac_keywords := take MAX_KEYWORDS_PER_SKILL (filter (\<lambda>k. length k \<ge> MIN_KEYWORD_TAG_LENGTH) (ac_keywords a)),
     ac_patterns := take MAX_PATTERNS_PER_SKILL (ac_patterns a),
     ac_tags := take MAX_TAGS_PER_SKILL (filter (\<lambda>t. length t \<ge> MIN_KEYWORD_TAG_LENGTH) (ac_tags a))\<rparr>"

record skill_manifest =
  sm_name :: string
  sm_version :: string
  sm_description :: string
  sm_activation :: activation_criteria

record loaded_skill =
  sk_manifest :: skill_manifest
  sk_prompt_content :: string
  sk_trust :: skill_trust
  sk_source :: skill_source
  sk_content_hash :: string
  sk_compiled_patterns :: "(string \<Rightarrow> bool) list"
  sk_lowercased_keywords :: "string list"
  sk_lowercased_tags :: "string list"

definition compile_patterns :: "(string \<Rightarrow> (string \<Rightarrow> bool) option) \<Rightarrow> string list \<Rightarrow> (string \<Rightarrow> bool) list" where
  "compile_patterns build ps = List.map_filter build ps"

definition escape_xml_attr :: "string \<Rightarrow> string" where
  "escape_xml_attr s =
     replace_char (CHR ''>'') ''&gt;''
       (replace_char (CHR ''<'') ''&lt;''
         (replace_char (CHR 0x27) ''&apos;''
           (replace_char (CHR 0x22) ''&quot;'' (replace_char (CHR ''&'') ''&amp;'' s))))"

text \<open>
  What follows the \<open><\<close> of a match of \<open>(?i)</?[\s\x00]*skill\<close>; the match is replaced by itself
  with \<open>&lt;\<close> in place of the \<open><\<close>. Since a match has no second \<open><\<close>, the scan may go on behind
  the replaced character.
\<close>

definition skill_tag_rest :: "string \<Rightarrow> bool" where
  "skill_tag_rest s =
     (let s = (case s of c # cs \<Rightarrow> (if c = CHR ''/'' then cs else s) | [] \<Rightarrow> s)
      in starts_with (to_lowercase (dropWhile (\<lambda>c. is_ws c \<or> c = CHR 0x00) s)) ''skill'')"

fun escape_skill_content :: "string \<Rightarrow> string" where
  "escape_skill_content [] = []"
| "escape_skill_content (c # cs) =
     (if c = CHR ''<'' \<and> skill_tag_rest cs then ''&lt;'' @ escape_skill_content cs
      else c # escape_skill_content cs)"

fun replace_crlf :: "string \<Rightarrow> string" where
  "replace_crlf [] = []"
| "replace_crlf [c] = [c]"
| "replace_crlf (c # d # cs) =
     (if c = CHR 0x0D \<and> d = CHR 0x0A then CHR 0x0A # replace_crlf cs else c # replace_crlf (d # cs))"

definition normalize_line_endings :: "string \<Rightarrow> string" where
  "normalize_line_endings s = replace_char (CHR 0x0D) [CHR 0x0A] (replace_crlf s)"

section \<open>Attenuation\<close>

definition READ_ONLY_TOOLS :: "string list" where
  "READ_ONLY_TOOLS = [''memory_search'', ''memory_read'', ''memory_tree'', ''time'', ''echo'', ''json'',
     ''skill_list'', ''skill_search'']"

record attenuation_result =
  at_tools :: "tool_definition list"
  at_min_trust :: skill_trust
  at_explanation :: string
  at_removed_tools :: "string list"

fun min_trust :: "skill_trust list \<Rightarrow> skill_trust" where
  "min_trust [] = Trusted"
| "min_trust (t # ts) = min t (min_trust ts)"

fun partition_tools :: "tool_definition list \<Rightarrow> tool_definition list \<Rightarrow> string list \<Rightarrow> tool_definition list \<times> string list" where
  "partition_tools [] kept removed = (kept, removed)"
| "partition_tools (t # ts) kept removed =
     (if td_name t \<in> set READ_ONLY_TOOLS then partition_tools ts (kept @ [t]) removed
      else partition_tools ts kept (removed @ [td_name t]))"

definition attenuate_tools :: "tool_definition list \<Rightarrow> loaded_skill list \<Rightarrow> attenuation_result" where
  "attenuate_tools tools skills =
     (if skills = []
      then \<lparr>at_tools = tools, at_min_trust = Trusted,
            at_explanation = ''No skills active, all tools available'', at_removed_tools = []\<rparr>
      else case min_trust (map sk_trust skills) of
             Trusted \<Rightarrow> \<lparr>at_tools = tools, at_min_trust = Trusted,
               at_explanation = ''All active skills are trusted (full trust), all tools available'',
               at_removed_tools = []\<rparr>
           | Installed \<Rightarrow>
               (let (kept, removed) = partition_tools tools [] []
                in \<lparr>at_tools = kept, at_min_trust = Installed,
                    at_explanation = ''Installed skill present: restricted to read-only tools, removed ''
                      @ show_nat (length removed) @ '' tool(s): '' @ join '', '' removed,
                    at_removed_tools = removed\<rparr>))"

section \<open>Selection\<close>

definition MAX_KEYWORD_SCORE :: u32 where "MAX_KEYWORD_SCORE = 30"

definition MAX_TAG_SCORE :: u32 where "MAX_TAG_SCORE = 15"

definition MAX_REGEX_SCORE :: u32 where "MAX_REGEX_SCORE = 40"

definition trim_non_alnum :: "string \<Rightarrow> string" where
  "trim_non_alnum w = rev (dropWhile (\<lambda>c. \<not> is_alnum c) (rev (dropWhile (\<lambda>c. \<not> is_alnum c) w)))"

definition keyword_points :: "string \<Rightarrow> string \<Rightarrow> u32" where
  "keyword_points message_lower kw =
     (if list_ex (\<lambda>w. trim_non_alnum w = kw) (split_whitespace message_lower) then 10
      else if contains_str message_lower kw then 5 else 0)"

definition score_skill :: "loaded_skill \<Rightarrow> string \<Rightarrow> string \<Rightarrow> u32" where
  "score_skill s message_lower message =
     (let keyword_score = foldl (\<lambda>n kw. n + keyword_points message_lower kw) 0 (sk_lowercased_keywords s);
          tag_score = foldl (\<lambda>n t. if contains_str message_lower t then n + 3 else n) 0 (sk_lowercased_tags s);
          regex_score = foldl (\<lambda>n re. if re message then n + 20 else n) 0 (sk_compiled_patterns s)
      in min keyword_score MAX_KEYWORD_SCORE + min tag_score MAX_TAG_SCORE + min regex_score MAX_REGEX_SCORE)"

definition token_cost :: "loaded_skill \<Rightarrow> u64" where
  "token_cost s =
     (let declared = ac_max_context_tokens (sm_activation (sk_manifest s));
          approx = of_nat (length (sk_prompt_content s) div 4);
          raw = (if approx > declared * 2 then approx else declared)
      in max raw 1)"

fun take_within_budget :: "nat \<Rightarrow> u64 \<Rightarrow> loaded_skill list \<Rightarrow> loaded_skill list \<Rightarrow> loaded_skill list" where
  "take_within_budget max_candidates budget [] result = result"
| "take_within_budget max_candidates budget (s # ss) result =
     (if length result \<ge> max_candidates then result
      else if token_cost s \<le> budget
      then take_within_budget max_candidates (budget - token_cost s) ss (result @ [s])
      else take_within_budget max_candidates budget ss result)"

definition prefilter_skills :: "string \<Rightarrow> loaded_skill list \<Rightarrow> nat \<Rightarrow> u64 \<Rightarrow> loaded_skill list" where
  "prefilter_skills message available max_candidates max_context_tokens =
     (if available = [] \<or> message = [] then []
      else let lower = to_lowercase message;
               scored = filter (\<lambda>(_, n). n > 0) (map (\<lambda>s. (s, score_skill s lower message)) available);
               scored = sort_key (\<lambda>(_, n). - int (unat n)) scored
           in take_within_budget max_candidates max_context_tokens (map fst scored) [])"

section \<open>Attenuation facts\<close>

lemma min_trust_Installed: "min_trust ts = Installed \<longleftrightarrow> Installed \<in> set ts"
proof (induction ts)
  case (Cons t ts)
  then show ?case by (cases t; cases "min_trust ts") (auto simp: min_def)
qed simp

lemma partition_tools_eq:
  "partition_tools ts kept removed =
   (kept @ filter (\<lambda>t. td_name t \<in> set READ_ONLY_TOOLS) ts,
    removed @ map td_name (filter (\<lambda>t. td_name t \<notin> set READ_ONLY_TOOLS) ts))"
  by (induction ts arbitrary: kept removed) auto

lemma attenuate_tools_eq:
  "at_tools (attenuate_tools tools skills) =
     (if Installed \<in> sk_trust ` set skills then filter (\<lambda>t. td_name t \<in> set READ_ONLY_TOOLS) tools else tools)"
  "at_removed_tools (attenuate_tools tools skills) =
     (if Installed \<in> sk_trust ` set skills
      then map td_name (filter (\<lambda>t. td_name t \<notin> set READ_ONLY_TOOLS) tools) else [])"
  using min_trust_Installed [of "map sk_trust skills"]
  by (auto simp: attenuate_tools_def partition_tools_eq split: skill_trust.splits)

section \<open>Selection facts\<close>

lemma take_within_budget_cost:
  "sum_list (map (unat \<circ> token_cost) (take_within_budget k budget ss result))
   \<le> sum_list (map (unat \<circ> token_cost) result) + unat budget"
proof (induction k budget ss result rule: take_within_budget.induct)
  case (2 k budget s ss result)
  have "unat (budget - token_cost s) + unat (token_cost s) = unat budget" if "token_cost s \<le> budget"
    using that by (simp add: unat_sub word_le_nat_alt)
  then show ?case
    using 2 by (auto simp: o_def)
qed simp

lemma take_within_budget_length:
  "length result \<le> k \<Longrightarrow> length (take_within_budget k budget ss result) \<le> k"
  by (induction k budget ss result rule: take_within_budget.induct) auto

lemma take_within_budget_subseq:
  "\<exists>q. take_within_budget k budget ss result = result @ nths ss q"
proof (induction k budget ss result rule: take_within_budget.induct)
  case (2 k budget s ss result)
  have keep: "s # nths ss q = nths (s # ss) (insert 0 (Suc ` q))" and skip: "nths ss q = nths (s # ss) (Suc ` q)" for q
    by (auto simp: nths_Cons image_iff intro!: arg_cong [where f = "nths ss"])
  show ?case
  proof (cases "length result \<ge> k")
    case True
    then show ?thesis by (auto intro!: exI [of _ "{}"])
  next
    case False
    then show ?thesis
      using 2 by (cases "token_cost s \<le> budget") (simp_all, metis keep, metis skip)
  qed
qed (auto intro!: exI [of _ "{}"])

lemma token_cost_pos [simp]: "max (Suc 0) (unat (token_cost s)) = unat (token_cost s)"
proof -
  have "1 \<le> token_cost s"
    by (simp add: token_cost_def Let_def)
  then show ?thesis
    by (simp add: word_le_nat_alt)
qed

lemma map_scored:
  "\<forall>y \<in> set ys. f (fst y) = snd y \<Longrightarrow> map (\<lambda>s. - int (unat (f s))) (map fst ys) = map (\<lambda>(_, n). - int (unat n)) ys"
  by (induction ys) auto

lemma ranked_by_score:
  "sorted (map (\<lambda>s. - int (unat (f s))) (map fst (sort_key (\<lambda>(_, n). - int (unat n))
     (filter (\<lambda>(_, n). n > 0) (map (\<lambda>s. (s, f s)) xs)))))" for f :: "'a \<Rightarrow> u32"
proof -
  let ?key = "\<lambda>(_ :: 'a, n :: u32). - int (unat n)"
  let ?ys = "filter (\<lambda>(_, n). n > 0) (map (\<lambda>s. (s, f s)) xs)"
  have "\<forall>y \<in> set (sort_key ?key ?ys). f (fst y) = snd y"
    by auto
  then have "map (\<lambda>s. - int (unat (f s))) (map fst (sort_key ?key ?ys)) = map ?key (sort_key ?key ?ys)"
    by (rule map_scored)
  then show ?thesis
    by (simp only: sorted_sort_key)
qed

lemma score_skill_bound: "unat (score_skill s l m) \<le> 85"
proof -
  have "unat (min a 30 + min b 15 + min c 40) \<le> 85" for a b c :: u32
  proof -
    have "unat (min a 30) \<le> 30" "unat (min b 15) \<le> 15" "unat (min c 40) \<le> 40"
      by (simp_all add: min_def word_le_nat_alt)
    then show ?thesis
      by (simp add: unat_word_ariths)
  qed
  then show ?thesis
    by (simp add: score_skill_def MAX_KEYWORD_SCORE_def MAX_TAG_SCORE_def MAX_REGEX_SCORE_def)
qed

section \<open>Skill tags\<close>

definition blank :: "char \<Rightarrow> bool" where
  "blank c \<longleftrightarrow> is_ws c \<or> c = CHR 0x00"

definition tag_prefix :: "string \<Rightarrow> bool" where
  "tag_prefix p \<longleftrightarrow> (\<exists>slash ws k. p = slash @ ws @ k \<and> slash \<in> {[], ''/''} \<and> (\<forall>c \<in> set ws. blank c)
     \<and> to_lowercase k = ''skill'')"

lemma lower_char_special: "lower_char c \<in> set ''skill'' \<Longrightarrow> c \<noteq> CHR ''<'' \<and> c \<noteq> CHR ''&'' \<and> c \<noteq> CHR ''/'' \<and> \<not> blank c"
  by (auto simp: blank_def is_ws_def lower_char_def Let_def split: if_splits)

lemma blank_special: "blank c \<Longrightarrow> c \<noteq> CHR ''<'' \<and> c \<noteq> CHR ''&'' \<and> c \<noteq> CHR ''/''"
  by (auto simp: blank_def is_ws_def Let_def)

lemma tag_prefix_chars:
  assumes "tag_prefix p" and "c \<in> set p"
  shows "c \<noteq> CHR ''<'' \<and> c \<noteq> CHR ''&''"
proof -
  obtain slash ws k where p: "p = slash @ ws @ k" "slash \<in> {[], ''/''}" "\<forall>c \<in> set ws. blank c" "to_lowercase k = ''skill''"
    using assms(1) by (auto simp: tag_prefix_def)
  have "set (map lower_char k) = set ''skill''"
    using p(4) by (simp add: to_lowercase_def)
  then have "\<forall>c \<in> set k. lower_char c \<in> set ''skill''"
    by auto
  then show ?thesis
    using assms(2) p(1-3) lower_char_special blank_special by auto
qed

lemma dropWhile_blank_skill:
  assumes "\<forall>c \<in> set ws. blank c" and "to_lowercase k = ''skill''"
  shows "dropWhile (\<lambda>c. is_ws c \<or> c = CHR 0x00) (ws @ k @ r) = k @ r"
proof -
  obtain c cs where k: "k = c # cs" "lower_char c = CHR ''s''"
    using assms(2) by (auto simp: to_lowercase_def map_eq_Cons_conv)
  then have "\<not> blank c"
    using lower_char_special [of c] by simp
  moreover have "\<forall>c \<in> set ws. is_ws c \<or> c = CHR 0x00"
    using assms(1) by (simp add: blank_def)
  ultimately show ?thesis
    by (simp add: dropWhile_append2 k(1) blank_def)
qed

lemma skill_tag_rest_iff: "skill_tag_rest s \<longleftrightarrow> (\<exists>p r. s = p @ r \<and> tag_prefix p)"
proof
  assume tag: "skill_tag_rest s"
  define t where "t = (case s of c # cs \<Rightarrow> (if c = CHR ''/'' then cs else s) | [] \<Rightarrow> s)"
  have "s = [] @ t \<or> s = ''/'' @ t"
    by (cases s) (auto simp: t_def)
  then obtain slash where slash: "s = slash @ t" "slash \<in> {[], ''/''}"
    by blast
  let ?b = "\<lambda>c. is_ws c \<or> c = CHR 0x00"
  have "starts_with (to_lowercase (dropWhile ?b t)) ''skill''"
    using tag by (simp add: skill_tag_rest_def t_def Let_def)
  then have k: "to_lowercase (take 5 (dropWhile ?b t)) = ''skill''"
    by (simp add: starts_with_def to_lowercase_def take_map eval_nat_numeral)
  have "s = (slash @ takeWhile ?b t @ take 5 (dropWhile ?b t)) @ drop 5 (dropWhile ?b t)"
    using slash(1) by simp
  moreover have "tag_prefix (slash @ takeWhile ?b t @ take 5 (dropWhile ?b t))"
    unfolding tag_prefix_def
  proof (intro exI conjI)
    show "slash \<in> {[], ''/''}" by (rule slash(2))
    show "\<forall>c \<in> set (takeWhile ?b t). blank c" by (auto simp: blank_def dest: set_takeWhileD)
    show "to_lowercase (take 5 (dropWhile ?b t)) = ''skill''" by (rule k)
  qed simp
  ultimately show "\<exists>p r. s = p @ r \<and> tag_prefix p" by blast
next
  assume "\<exists>p r. s = p @ r \<and> tag_prefix p"
  then obtain pre r where "s = pre @ r" "tag_prefix pre" by blast
  then obtain slash ws k where s: "s = slash @ ws @ k @ r" and p: "slash \<in> {[], ''/''}" "\<forall>c \<in> set ws. blank c"
    "to_lowercase k = ''skill''"
    unfolding tag_prefix_def by (metis append.assoc)
  have head: "hd (ws @ k @ r) \<noteq> CHR ''/''" "ws @ k @ r \<noteq> []"
  proof -
    obtain c cs where "k = c # cs" "lower_char c = CHR ''s''"
      using p(3) by (auto simp: to_lowercase_def map_eq_Cons_conv)
    then show "hd (ws @ k @ r) \<noteq> CHR ''/''" "ws @ k @ r \<noteq> []"
      using p(2) blank_special lower_char_special [of c] by (cases ws; auto)+
  qed
  have "starts_with (to_lowercase (k @ r)) ''skill''"
    using p(3) by (simp add: to_lowercase_append starts_with_iff)
  then show "skill_tag_rest s"
    using p(1) head dropWhile_blank_skill [OF p(2,3), of r]
    by (auto simp: skill_tag_rest_def s Let_def split: list.splits)
qed

lemma escape_skill_content_prefix:
  "\<exists>u v w. cs = u @ w \<and> escape_skill_content cs = u @ v \<and> (v = [] \<or> hd v \<in> {CHR ''<'', CHR ''&''})"
proof (induction cs)
  case (Cons c cs)
  then obtain u v w where "cs = u @ w" "escape_skill_content cs = u @ v" "v = [] \<or> hd v \<in> {CHR ''<'', CHR ''&''}"
    by blast
  then show ?case
  proof (cases "c = CHR ''<''")
    case True
    then show ?thesis
      by (intro exI [of _ "[]"] exI [of _ "escape_skill_content (c # cs)"] exI [of _ "c # cs"]) auto
  next
    case False
    then show ?thesis
      using \<open>cs = u @ w\<close> \<open>escape_skill_content cs = u @ v\<close> \<open>v = [] \<or> _\<close>
      by (intro exI [of _ "c # u"] exI [of _ v] exI [of _ w]) auto
  qed
qed simp

lemma escape_keeps_no_tag: "skill_tag_rest (escape_skill_content cs) \<Longrightarrow> skill_tag_rest cs"
proof -
  assume "skill_tag_rest (escape_skill_content cs)"
  then obtain p r where p: "escape_skill_content cs = p @ r" "tag_prefix p"
    by (auto simp: skill_tag_rest_iff)
  obtain u v w where u: "cs = u @ w" "escape_skill_content cs = u @ v" "v = [] \<or> hd v \<in> {CHR ''<'', CHR ''&''}"
    using escape_skill_content_prefix by blast
  have "length p \<le> length u"
  proof (rule ccontr)
    assume "\<not> length p \<le> length u"
    then obtain q where "p = u @ q" "q \<noteq> []" "v = q @ r"
      using p(1) u(2) by (auto simp: append_eq_append_conv2)
    then have "hd v \<in> set p" "v \<noteq> []" by auto
    then show False using u(3) tag_prefix_chars [OF p(2)] by blast
  qed
  then obtain q where "u = p @ q"
    using p(1) u(2) by (auto simp: append_eq_append_conv2)
  then show ?thesis
    using u(1) p(2) by (auto simp: skill_tag_rest_iff)
qed

section \<open>Theorems\<close>

text \<open>
  The tool ceiling: with an installed skill active, only read-only tools reach the LLM;
  otherwise all tools do. What is kept and what is reported as removed together are exactly the
  tools, in their order, and activating further skills never adds a tool.
\<close>

theorem attenuation_ceiling:
  "(if Installed \<in> sk_trust ` set skills
    then at_tools (attenuate_tools tools skills) = filter (\<lambda>t. td_name t \<in> set READ_ONLY_TOOLS) tools
      \<and> at_removed_tools (attenuate_tools tools skills) = map td_name (filter (\<lambda>t. td_name t \<notin> set READ_ONLY_TOOLS) tools)
    else at_tools (attenuate_tools tools skills) = tools \<and> at_removed_tools (attenuate_tools tools skills) = [])
   \<and> set (at_tools (attenuate_tools tools (skills @ extra))) \<subseteq> set (at_tools (attenuate_tools tools skills))
   \<and> (skills \<noteq> [] \<longrightarrow> at_min_trust (attenuate_tools tools skills) = Min (sk_trust ` set skills))"
proof -
  have "min_trust ts = Min (set ts)" if "ts \<noteq> []" for ts
    using that
  proof (induction ts rule: list_nonempty_induct)
    case (single x)
    then show ?case by (cases x) (simp_all add: min_def)
  next
    case (cons x xs)
    then show ?case by simp
  qed
  from this [of "map sk_trust skills"]
  have "skills \<noteq> [] \<longrightarrow> at_min_trust (attenuate_tools tools skills) = Min (sk_trust ` set skills)"
    by (auto simp: attenuate_tools_def partition_tools_eq split: skill_trust.splits)
  then show ?thesis
    by (auto simp: attenuate_tools_eq)
qed

theorem attenuation_ceiling_witness:
  "let skill = \<lparr>sk_manifest = \<lparr>sm_name = ''s'', sm_version = ''1'', sm_description = [],
                  sm_activation = \<lparr>ac_keywords = [], ac_patterns = [], ac_tags = [], ac_max_context_tokens = 100\<rparr>\<rparr>,
               sk_prompt_content = [], sk_trust = Installed, sk_source = User_dir ''x'', sk_content_hash = [],
               sk_compiled_patterns = [], sk_lowercased_keywords = [], sk_lowercased_tags = []\<rparr>;
       tools = map (\<lambda>n. \<lparr>td_name = n, td_description = [], td_parameters = JNull\<rparr>) [''echo'', ''shell'']
   in map td_name (at_tools (attenuate_tools tools [skill])) = [''echo'']"
proof -
  let ?skill = "\<lparr>sk_manifest = \<lparr>sm_name = ''s'', sm_version = ''1'', sm_description = [],
                  sm_activation = \<lparr>ac_keywords = [], ac_patterns = [], ac_tags = [], ac_max_context_tokens = 100\<rparr>\<rparr>,
               sk_prompt_content = [], sk_trust = Installed, sk_source = User_dir ''x'', sk_content_hash = [],
               sk_compiled_patterns = [], sk_lowercased_keywords = [], sk_lowercased_tags = []\<rparr>"
  let ?tools = "map (\<lambda>n. \<lparr>td_name = n, td_description = [], td_parameters = JNull\<rparr>) [''echo'', ''shell'']"
  have "filter (\<lambda>t. td_name t \<in> set READ_ONLY_TOOLS) ?tools = [\<lparr>td_name = ''echo'', td_description = [], td_parameters = JNull\<rparr>]"
    by (simp add: READ_ONLY_TOOLS_def)
  then show ?thesis
    using conjunct1 [OF attenuation_ceiling [of "[?skill]" ?tools "[]"]] by (simp add: Let_def)
qed

text \<open>
  The skills selected for a message all matched it, come in order of decreasing score, are
  no more than the candidate limit, and their estimated prompt sizes together fit the token
  budget, each counting at least one token, whatever their manifests declare. No score exceeds
  85.
\<close>

theorem prefilter_within_budget:
  "let sel = prefilter_skills message available k budget;
       score = (\<lambda>s. score_skill s (to_lowercase message) message)
   in length sel \<le> k
      \<and> sum_list (map (\<lambda>s. max 1 (unat (token_cost s))) sel) \<le> unat budget
      \<and> sorted_wrt (\<lambda>a b. score b \<le> score a) sel
      \<and> (\<forall>s \<in> set sel. s \<in> set available \<and> 0 < score s \<and> unat (score s) \<le> 85)"
proof -
  define score where "score = (\<lambda>s. score_skill s (to_lowercase message) message)"
  define ranked where "ranked = map fst (sort_key (\<lambda>(_, n). - int (unat n))
      (filter (\<lambda>(_, n). n > 0) (map (\<lambda>s. (s, score s)) available)))"
  define sel where "sel = prefilter_skills message available k budget"
  have sel: "sel = [] \<or> sel = take_within_budget k budget ranked []"
    by (simp add: sel_def prefilter_skills_def ranked_def score_def Let_def)
  have ranked_sorted: "sorted (map (\<lambda>s. - int (unat (score s))) ranked)"
    unfolding ranked_def by (rule ranked_by_score)
  have ranked_set: "\<forall>s \<in> set ranked. s \<in> set available \<and> 0 < score s"
    by (auto simp: ranked_def)
  obtain q where q: "sel = nths ranked q"
    using sel take_within_budget_subseq [of k budget ranked "[]"] by (metis append_Nil nths_empty)
  have "sorted (map (\<lambda>s. - int (unat (score s))) sel)"
    unfolding q nths_map [symmetric] by (rule sorted_nths [OF ranked_sorted])
  then have "sorted_wrt (\<lambda>a b. score b \<le> score a) sel"
    by (simp add: sorted_map word_le_def)
  moreover have "\<forall>s \<in> set sel. s \<in> set available \<and> 0 < score s \<and> unat (score s) \<le> 85"
    using ranked_set by (auto simp: q score_def score_skill_bound dest: in_set_nthsD)
  moreover have "length sel \<le> k"
    using sel take_within_budget_length [of "[]" k budget ranked] by auto
  moreover have "sum_list (map (\<lambda>s. max 1 (unat (token_cost s))) sel) \<le> unat budget"
    using sel take_within_budget_cost [of k budget ranked "[]"] by (auto simp: token_cost_pos o_def)
  ultimately show ?thesis
    unfolding Let_def sel_def score_def by blast
qed

theorem prefilter_within_budget_witness:
  "let skill = (\<lambda>tokens. \<lparr>sk_manifest = \<lparr>sm_name = ''s'', sm_version = ''1'', sm_description = [],
                  sm_activation = \<lparr>ac_keywords = [], ac_patterns = [], ac_tags = [], ac_max_context_tokens = tokens\<rparr>\<rparr>,
               sk_prompt_content = ''text'', sk_trust = Trusted, sk_source = User_dir ''x'', sk_content_hash = [],
               sk_compiled_patterns = [\<lambda>_. True], sk_lowercased_keywords = [], sk_lowercased_tags = []\<rparr>)
   in length (prefilter_skills ''hello'' [skill 100, skill 200, skill 50] 2 300) \<le> 2"
  unfolding Let_def
  by (rule conjunct1 [OF prefilter_within_budget [unfolded Let_def]])

text \<open>
  Escaped skill text cannot break out of its delimiters: no \<open><\<close> in it is followed by an
  optional slash, blanks or NUL bytes, and the word \<open>skill\<close> in any letter case.
\<close>

theorem escape_skill_content_safe:
  "escape_skill_content s = a @ CHR ''<'' # b \<Longrightarrow> \<not> skill_tag_rest b"
proof (induction s arbitrary: a)
  case (Cons c cs)
  then show ?case
  proof (cases "c = CHR ''<'' \<and> skill_tag_rest cs")
    case True
    then have "''&lt;'' @ escape_skill_content cs = a @ CHR ''<'' # b" using Cons.prems by simp
    then obtain a' where "escape_skill_content cs = a' @ CHR ''<'' # b"
      by (auto simp: Cons_eq_append_conv)
    then show ?thesis using Cons.IH by blast
  next
    case False
    then have eq: "c # escape_skill_content cs = a @ CHR ''<'' # b" using Cons.prems by auto
    show ?thesis
    proof (cases a)
      case Nil
      then have "c = CHR ''<''" "b = escape_skill_content cs" using eq by auto
      then show ?thesis using False escape_keeps_no_tag by blast
    next
      case (Cons d a')
      then show ?thesis using eq Cons.IH [of a'] by simp
    qed
  qed
qed simp

theorem escape_skill_content_safe_witness:
  "escape_skill_content ''a</SKILL><b'' = ''a&lt;/SKILL>'' @ CHR ''<'' # ''b'' \<and> \<not> skill_tag_rest ''b''"
proof -
  have "escape_skill_content ''a</SKILL><b'' = ''a&lt;/SKILL>'' @ CHR ''<'' # ''b''"
    by code_simp
  with escape_skill_content_safe [OF this] show ?thesis by blast
qed

end
