(* ===== verification/Hooks.thy ===== *)
theory Hooks
  imports Prelude
begin

text \<open>
  \<open>src/hooks/hook.rs\<close> and \<open>src/hooks/registry.rs\<close>: lifecycle hooks, their registry and the chain
  that runs them. A hook is code behind a trait, so its \<open>execute\<close> is a component of its record:
  a function of the event and the world that completes with an outcome or an error, or exceeds
  its timeout. Parsing and printing of JSON are arguments. Hooks are cloned out of the lock
  before they run, so the registry does not change during a run.
\<close>

datatype hook_point =
    BeforeInbound | BeforeToolCall | BeforeOutbound | OnSessionStart | OnSessionEnd | TransformResponse

fun hook_point_as_str :: "hook_point \<Rightarrow> string" where
  "hook_point_as_str BeforeInbound = ''beforeInbound''"
| "hook_point_as_str BeforeToolCall = ''beforeToolCall''"
| "hook_point_as_str BeforeOutbound = ''beforeOutbound''"
| "hook_point_as_str OnSessionStart = ''onSessionStart''"
| "hook_point_as_str OnSessionEnd = ''onSessionEnd''"
| "hook_point_as_str TransformResponse = ''transformResponse''"

text \<open>The arguments are in the order of the fields of the source.\<close>

datatype hook_event =
    Inbound string string string "string option"
  | ToolCallEvent string json string string
  | Outbound string string string "string option"
  | SessionStart string string
  | SessionEnd string string
  | ResponseTransform string string string

fun hook_point_of :: "hook_event \<Rightarrow> hook_point" where
  "hook_point_of (Inbound _ _ _ _) = BeforeInbound"
| "hook_point_of (ToolCallEvent _ _ _ _) = BeforeToolCall"
| "hook_point_of (Outbound _ _ _ _) = BeforeOutbound"
| "hook_point_of (SessionStart _ _) = OnSessionStart"
| "hook_point_of (SessionEnd _ _) = OnSessionEnd"
| "hook_point_of (ResponseTransform _ _ _) = TransformResponse"

fun apply_modification :: "(string \<Rightarrow> json option) \<Rightarrow> string \<Rightarrow> hook_event \<Rightarrow> hook_event" where
  "apply_modification from_json v (Inbound u c content t) = Inbound u c v t"
| "apply_modification from_json v (Outbound u c content t) = Outbound u c v t"
| "apply_modification from_json v (ToolCallEvent n params u c) =
     (case from_json v of Some parsed \<Rightarrow> ToolCallEvent n parsed u c | None \<Rightarrow> ToolCallEvent n params u c)"
| "apply_modification from_json v (ResponseTransform u t response) = ResponseTransform u t v"
| "apply_modification from_json v e = e"

datatype hook_outcome = Continue "string option" | Reject string

definition outcome_ok :: hook_outcome where
  "outcome_ok = Continue None"

definition outcome_modify :: "string \<Rightarrow> hook_outcome" where
  "outcome_modify v = Continue (Some v)"

definition outcome_reject :: "string \<Rightarrow> hook_outcome" where
  "outcome_reject reason = Reject reason"

datatype hook_failure_mode = FailOpen | FailClosed

datatype hook_error =
    ExecutionFailed string
  | HookTimeout duration
  | Rejected string

fun show_hook_error :: "(duration \<Rightarrow> string) \<Rightarrow> hook_error \<Rightarrow> string" where
  "show_hook_error show_duration (ExecutionFailed r) = ''Hook execution failed: '' @ r"
| "show_hook_error show_duration (HookTimeout t) = ''Hook timed out after '' @ show_duration t"
| "show_hook_error show_duration (Rejected r) = ''Hook rejected: '' @ r"

datatype hook_result = Completed "hook_error + hook_outcome" | Elapsed

record 's hook =
  hk_name :: string
  hk_points :: "hook_point list"
  hk_failure_mode :: hook_failure_mode
  hk_timeout :: duration
  hk_execute :: "hook_event \<Rightarrow> 's \<Rightarrow> hook_result \<times> 's"

record 's hook_entry =
  he_hook :: "'s hook"
  he_priority :: u32

type_synonym 's hook_registry = "'s hook_entry list"

definition registry_new :: "'s hook_registry" where
  "registry_new = []"

fun replace_named :: "'s hook \<Rightarrow> u32 \<Rightarrow> 's hook_registry \<Rightarrow> 's hook_registry option" where
  "replace_named h p [] = None"
| "replace_named h p (e # es) =
     (if hk_name (he_hook e) = hk_name h then Some (\<lparr>he_hook = h, he_priority = p\<rparr> # es)
      else map_option (\<lambda>es. e # es) (replace_named h p es))"

definition register_with_priority :: "'s hook \<Rightarrow> u32 \<Rightarrow> 's hook_registry \<Rightarrow> 's hook_registry" where
  "register_with_priority h p es =
     sort_key he_priority
       (case replace_named h p es of
          Some es' \<Rightarrow> es'
        | None \<Rightarrow> es @ [\<lparr>he_hook = h, he_priority = p\<rparr>])"

definition register :: "'s hook \<Rightarrow> 's hook_registry \<Rightarrow> 's hook_registry" where
  "register h es = register_with_priority h 100 es"

definition unregister :: "string \<Rightarrow> 's hook_registry \<Rightarrow> bool \<times> 's hook_registry" where
  "unregister name es =
     (let es' = filter (\<lambda>e. hk_name (he_hook e) \<noteq> name) es in (length es' < length es, es'))"

definition list_hooks :: "'s hook_registry \<Rightarrow> string list" where
  "list_hooks es = map (\<lambda>e. hk_name (he_hook e)) es"

fun extract_content :: "(json \<Rightarrow> string option) \<Rightarrow> hook_event \<Rightarrow> string" where
  "extract_content to_json (Inbound _ _ content _) = content"
| "extract_content to_json (Outbound _ _ content _) = content"
| "extract_content to_json (ToolCallEvent _ params _ _) = (case to_json params of Some s \<Rightarrow> s | None \<Rightarrow> [])"
| "extract_content to_json (ResponseTransform _ _ response) = response"
| "extract_content to_json (SessionStart _ session) = session"
| "extract_content to_json (SessionEnd _ session) = session"

text \<open>The loop over the matching hooks; \<open>show_err\<close> renders the error of a hook.\<close>

fun run_chain ::
  "(string \<Rightarrow> json option) \<Rightarrow> (hook_error \<Rightarrow> string) \<Rightarrow> 's hook list \<Rightarrow> hook_event \<Rightarrow> 's
   \<Rightarrow> (hook_error + hook_event) \<times> 's" where
  "run_chain from_json show_err [] e s = (Inr e, s)"
| "run_chain from_json show_err (h # hs) e s =
     (case hk_execute h e s of
        (Completed (Inr (Reject reason)), s) \<Rightarrow> (Inl (Rejected reason), s)
      | (Completed (Inr (Continue (Some v))), s) \<Rightarrow>
          run_chain from_json show_err hs (apply_modification from_json v e) s
      | (Completed (Inr (Continue None)), s) \<Rightarrow> run_chain from_json show_err hs e s
      | (Completed (Inl err), s) \<Rightarrow>
          (case hk_failure_mode h of
             FailOpen \<Rightarrow> run_chain from_json show_err hs e s
           | FailClosed \<Rightarrow>
               (Inl (ExecutionFailed (''Hook '' @ [CHR 0x27] @ hk_name h @ [CHR 0x27] @ '' failed: '' @ show_err err)), s))
      | (Elapsed, s) \<Rightarrow>
          (case hk_failure_mode h of
             FailOpen \<Rightarrow> run_chain from_json show_err hs e s
           | FailClosed \<Rightarrow> (Inl (HookTimeout (hk_timeout h)), s)))"

definition matching_hooks :: "hook_point \<Rightarrow> 's hook_registry \<Rightarrow> 's hook list" where
  "matching_hooks p es = map he_hook (filter (\<lambda>e. p \<in> set (hk_points (he_hook e))) es)"

definition run_hooks ::
  "(string \<Rightarrow> json option) \<Rightarrow> (json \<Rightarrow> string option) \<Rightarrow> (hook_error \<Rightarrow> string) \<Rightarrow> 's hook_registry \<Rightarrow> hook_event \<Rightarrow> 's
   \<Rightarrow> (hook_error + hook_outcome) \<times> 's" where
  "run_hooks from_json to_json show_err es e s =
     (let matching = matching_hooks (hook_point_of e) es
      in if matching = [] then (Inr outcome_ok, s)
         else case run_chain from_json show_err matching e s of
                (Inl err, s) \<Rightarrow> (Inl err, s)
              | (Inr e', s) \<Rightarrow>
                  (let modified = extract_content to_json e'; original = extract_content to_json e
                   in if modified \<noteq> original then (Inr (outcome_modify modified), s) else (Inr outcome_ok, s)))"

section \<open>Registry\<close>

definition registry_wf :: "'s hook_registry \<Rightarrow> bool" where
  "registry_wf es \<longleftrightarrow> sorted (map he_priority es) \<and> distinct (list_hooks es)"

datatype 's registry_op = Register "'s hook" u32 | Unregister string

fun registry_step :: "'s hook_registry \<Rightarrow> 's registry_op \<Rightarrow> 's hook_registry" where
  "registry_step es (Register h p) = register_with_priority h p es"
| "registry_step es (Unregister n) = snd (unregister n es)"

lemma replace_named_None: "replace_named h p es = None \<longleftrightarrow> hk_name h \<notin> set (list_hooks es)"
  by (induction es) (auto simp: list_hooks_def)

lemma replace_named_names: "replace_named h p es = Some es' \<Longrightarrow> list_hooks es' = list_hooks es"
  by (induction es arbitrary: es') (auto simp: list_hooks_def split: if_splits)

lemma replace_named_set:
  "replace_named h p es = Some es' \<Longrightarrow> distinct (list_hooks es) \<Longrightarrow>
   set es' = insert \<lparr>he_hook = h, he_priority = p\<rparr> {e \<in> set es. hk_name (he_hook e) \<noteq> hk_name h}"
  by (induction es arbitrary: es') (fastforce simp: list_hooks_def image_iff split: if_splits)+

lemma distinct_list_hooks_sort: "distinct (list_hooks (sort_key f es)) = distinct (list_hooks es)"
  by (rule mset_eq_imp_distinct_iff) (simp add: list_hooks_def)

lemma register_wf: "registry_wf es \<Longrightarrow> registry_wf (register_with_priority h p es)"
  using replace_named_None [of h p es] replace_named_names [of h p es]
  by (auto simp: registry_wf_def register_with_priority_def distinct_list_hooks_sort split: option.splits)
     (auto simp: list_hooks_def)

lemma register_set:
  assumes "registry_wf es"
  shows "set (register_with_priority h p es) =
    insert \<lparr>he_hook = h, he_priority = p\<rparr> {e \<in> set es. hk_name (he_hook e) \<noteq> hk_name h}"
proof (cases "replace_named h p es")
  case None
  then have "{e \<in> set es. hk_name (he_hook e) \<noteq> hk_name h} = set es"
    by (auto simp: replace_named_None list_hooks_def image_iff)
  then show ?thesis using None by (simp add: register_with_priority_def)
next
  case (Some es')
  then show ?thesis
    using assms replace_named_set [OF Some] by (simp add: registry_wf_def register_with_priority_def)
qed

lemma filter_shrinks: "length (filter q xs) < length xs \<longleftrightarrow> (\<exists>x \<in> set xs. \<not> q x)"
  by (induction xs) (auto simp: less_Suc_eq_le)

lemma unregister_wf: "registry_wf es \<Longrightarrow> registry_wf (snd (unregister n es))"
  by (auto simp: registry_wf_def unregister_def Let_def list_hooks_def distinct_map_filter sorted_filter)

interpretation registry_machine: invariant_machine registry_step registry_wf
proof
  show "registry_wf es \<Longrightarrow> registry_wf (registry_step es x)" for es :: "'a hook_registry" and x
    by (cases x) (simp_all add: register_wf unregister_wf)
qed

section \<open>The chain\<close>

text \<open>
  Whether a hook lets an event through, and the event it passes on. Rejections always block;
  errors and timeouts block if the hook is fail-closed.
\<close>

definition hook_passes :: "'s hook \<Rightarrow> hook_event \<Rightarrow> 's \<Rightarrow> bool" where
  "hook_passes h e s =
     (case fst (hk_execute h e s) of
        Completed (Inr (Reject _)) \<Rightarrow> False
      | Completed (Inr (Continue _)) \<Rightarrow> True
      | _ \<Rightarrow> hk_failure_mode h = FailOpen)"

definition passed_on :: "(string \<Rightarrow> json option) \<Rightarrow> 's hook \<Rightarrow> hook_event \<Rightarrow> 's \<Rightarrow> hook_event" where
  "passed_on from_json h e s =
     (case fst (hk_execute h e s) of
        Completed (Inr (Continue (Some v))) \<Rightarrow> apply_modification from_json v e
      | _ \<Rightarrow> e)"

inductive chain_passes :: "(string \<Rightarrow> json option) \<Rightarrow> 's hook list \<Rightarrow> hook_event \<Rightarrow> 's \<Rightarrow> hook_event \<Rightarrow> 's \<Rightarrow> bool"
  for from_json where
  chain_Nil: "chain_passes from_json [] e s e s"
| chain_Cons: "hook_passes h e s \<Longrightarrow> chain_passes from_json hs (passed_on from_json h e s) (snd (hk_execute h e s)) e' s'
    \<Longrightarrow> chain_passes from_json (h # hs) e s e' s'"

inductive_simps chain_passes_simps [simp]:
  "chain_passes from_json [] e s e' s'" "chain_passes from_json (h # hs) e s e' s'"

lemma run_chain_Cons:
  "run_chain from_json show_err (h # hs) e s =
     (if hook_passes h e s
      then run_chain from_json show_err hs (passed_on from_json h e s) (snd (hk_execute h e s))
      else run_chain from_json show_err [h] e s)"
  and run_chain_blocked:
  "\<not> hook_passes h e s \<Longrightarrow> \<exists>err. run_chain from_json show_err [h] e s = (Inl err, snd (hk_execute h e s))"
  by (auto simp: hook_passes_def passed_on_def split: prod.splits hook_result.splits sum.splits hook_outcome.splits
      option.splits hook_failure_mode.splits)

declare run_chain.simps(2) [simp del]

lemma run_chain_Inr:
  "run_chain from_json show_err hs e s = (Inr e', s') \<longleftrightarrow> chain_passes from_json hs e s e' s'"
proof (induction hs arbitrary: e s)
  case (Cons h hs)
  then show ?case
    using run_chain_blocked [of h e s from_json show_err] by (auto simp: run_chain_Cons [of _ _ h hs])
qed auto

lemma run_chain_Inl:
  "run_chain from_json show_err hs e s = (Inl err, s') \<Longrightarrow>
   \<exists>before h after e1 s1. hs = before @ h # after \<and> chain_passes from_json before e s e1 s1
     \<and> \<not> hook_passes h e1 s1 \<and> s' = snd (hk_execute h e1 s1)"
proof (induction hs arbitrary: e s)
  case (Cons h hs)
  show ?case
  proof (cases "hook_passes h e s")
    case True
    then have "run_chain from_json show_err hs (passed_on from_json h e s) (snd (hk_execute h e s)) = (Inl err, s')"
      using Cons.prems by (simp add: run_chain_Cons [of _ _ h hs])
    from Cons.IH [OF this] obtain before h' after e1 s1 where
      "hs = before @ h' # after" "chain_passes from_json before (passed_on from_json h e s) (snd (hk_execute h e s)) e1 s1"
      "\<not> hook_passes h' e1 s1" "s' = snd (hk_execute h' e1 s1)" by blast
    then show ?thesis
      using True by (intro exI [of _ "h # before"] exI [of _ h'] exI [of _ after] exI [of _ e1] exI [of _ s1]) simp
  next
    case False
    then have "s' = snd (hk_execute h e s)"
      using Cons.prems run_chain_blocked [OF False, of from_json show_err] by (auto simp: run_chain_Cons [of _ _ h hs])
    then show ?thesis
      using False by (intro exI [of _ "[]"] exI [of _ h] exI [of _ hs] exI [of _ e] exI [of _ s]) simp
  qed
qed simp

lemma matching_sorted:
  "registry_wf es \<Longrightarrow> \<exists>ps. length ps = length (matching_hooks p es) \<and> sorted ps
     \<and> (\<forall>i < length ps. \<lparr>he_hook = matching_hooks p es ! i, he_priority = ps ! i\<rparr> \<in> set es)"
proof -
  assume wf: "registry_wf es"
  let ?es = "filter (\<lambda>e. p \<in> set (hk_points (he_hook e))) es"
  have eta: "\<lparr>he_hook = he_hook e, he_priority = he_priority e\<rparr> = e" for e :: "'a hook_entry"
    by simp
  have "sorted (map he_priority ?es)"
    using wf by (simp add: registry_wf_def sorted_filter)
  moreover have "\<forall>i < length ?es. \<lparr>he_hook = map he_hook ?es ! i, he_priority = map he_priority ?es ! i\<rparr> \<in> set es"
    using nth_mem [of _ ?es] by (auto simp: eta)
  ultimately show ?thesis
    unfolding matching_hooks_def by (intro exI [of _ "map he_priority ?es"]) simp
qed

section \<open>Theorems\<close>

text \<open>
  After every sequence of registrations and removals the hooks are in priority order under
  distinct names; a registration puts exactly the new hook in place of any of the same name,
  and a removal reports whether there was one.
\<close>

theorem registry_reachable_wf:
  "let es = foldl registry_step registry_new xs
   in registry_wf es
      \<and> set (register_with_priority h p es)
        = insert \<lparr>he_hook = h, he_priority = p\<rparr> {e \<in> set es. hk_name (he_hook e) \<noteq> hk_name h}
      \<and> (fst (unregister n es) \<longleftrightarrow> n \<in> set (list_hooks es))
      \<and> n \<notin> set (list_hooks (snd (unregister n es)))"
proof -
  define es where "es = foldl registry_step registry_new xs"
  have wf: "registry_wf es"
    unfolding es_def by (rule registry_machine.run_inv) (simp add: registry_wf_def registry_new_def list_hooks_def)
  have "fst (unregister n es) \<longleftrightarrow> n \<in> set (list_hooks es)"
    by (auto simp: unregister_def Let_def list_hooks_def filter_shrinks image_iff)
  moreover have "n \<notin> set (list_hooks (snd (unregister n es)))"
    by (auto simp: unregister_def Let_def list_hooks_def)
  ultimately show ?thesis
    using wf register_set [OF wf] unfolding es_def [symmetric] Let_def by blast
qed

text \<open>
  An event passes the hooks exactly when every matching hook, run in order on the event as
  modified so far, lets it through: none rejects it and no fail-closed hook fails or times out.
  Otherwise the first hook that does not decides, and no hook after it is run. The reported
  modification is the content of the final event, and none is reported if it is unchanged.
\<close>

theorem hooks_gate:
  "case run_hooks from_json to_json show_err es e s of
     (Inr outcome, s') \<Rightarrow>
       (\<exists>e'. chain_passes from_json (matching_hooks (hook_point_of e) es) e s e' s'
          \<and> outcome = (if extract_content to_json e' = extract_content to_json e then Continue None
                       else Continue (Some (extract_content to_json e'))))
   | (Inl err, s') \<Rightarrow>
       (\<exists>before h after e1 s1. matching_hooks (hook_point_of e) es = before @ h # after
          \<and> chain_passes from_json before e s e1 s1 \<and> \<not> hook_passes h e1 s1 \<and> s' = snd (hk_execute h e1 s1))"
proof (cases "run_chain from_json show_err (matching_hooks (hook_point_of e) es) e s")
  case (Pair res s')
  show ?thesis
  proof (cases res)
    case (Inl err)
    then show ?thesis
      using run_chain_Inl [of from_json show_err "matching_hooks (hook_point_of e) es" e s err s'] Pair
      by (auto simp: run_hooks_def Let_def outcome_ok_def)
  next
    case (Inr e')
    then have "chain_passes from_json (matching_hooks (hook_point_of e) es) e s e' s'"
      using Pair by (simp add: run_chain_Inr [symmetric, where show_err = show_err])
    then show ?thesis
      using Pair Inr by (auto simp: run_hooks_def Let_def outcome_ok_def outcome_modify_def)
  qed
qed

end
