(* ===== verification/Preflight.thy ===== *)
theory Preflight
  imports Session Hooks
begin

text \<open>
  The preflight of the tool calls of a turn: the loop of \<open>src/agent/dispatcher.rs\<close> that runs the
  hooks on every call with its sensitive parameters redacted, puts those parameters back, and
  stops at the first call that needs the user's approval; and from \<open>src/tools/tool.rs\<close> the
  approval requirements, the context of autonomous jobs and \<open>redact_params\<close>. A tool is code
  behind a trait; the record holds what the loop asks of it. The session and the tool registry
  do not change during the loop.
\<close>

section \<open>Approval\<close>

datatype approval_requirement = Never | UnlessAutoApproved | Always

definition is_required :: "approval_requirement \<Rightarrow> bool" where
  "is_required r = (r \<noteq> Never)"

datatype approval_context = Autonomous "string set"

definition autonomous :: approval_context where
  "autonomous = Autonomous {}"

definition autonomous_with_tools :: "string list \<Rightarrow> approval_context" where
  "autonomous_with_tools tools = Autonomous (set tools)"

fun is_blocked :: "approval_context \<Rightarrow> string \<Rightarrow> approval_requirement \<Rightarrow> bool" where
  "is_blocked (Autonomous allowed) tool Never = False"
| "is_blocked (Autonomous allowed) tool UnlessAutoApproved = False"
| "is_blocked (Autonomous allowed) tool Always = (tool \<notin> allowed)"

definition is_blocked_or_default :: "approval_context option \<Rightarrow> string \<Rightarrow> approval_requirement \<Rightarrow> bool" where
  "is_blocked_or_default ctx tool r = (case ctx of Some c \<Rightarrow> is_blocked c tool r | None \<Rightarrow> is_required r)"

section \<open>Parameters\<close>

record tool =
  tool_sensitive_params :: "string list"
  tool_requires_approval :: "json \<Rightarrow> approval_requirement"

definition obj_insert :: "string \<Rightarrow> json \<Rightarrow> (string \<times> json) list \<Rightarrow> (string \<times> json) list" where
  "obj_insert k v kvs = AList.update k v kvs"

definition redact_params :: "json \<Rightarrow> string list \<Rightarrow> json" where
  "redact_params params sensitive =
     (if sensitive = [] then params
      else case params of
             JObject kvs \<Rightarrow>
               JObject (foldl (\<lambda>kvs k. if k \<in> fst ` set kvs then obj_insert k (JString ''[REDACTED]'') kvs else kvs)
                          kvs sensitive)
           | _ \<Rightarrow> params)"

definition restore_sensitive :: "string list \<Rightarrow> json \<Rightarrow> json \<Rightarrow> json" where
  "restore_sensitive sensitive original parsed =
     (case parsed of
        JObject kvs \<Rightarrow>
          JObject (foldl (\<lambda>kvs k. case json_get original k of Some v \<Rightarrow> obj_insert k v kvs | None \<Rightarrow> kvs) kvs sensitive)
      | _ \<Rightarrow> parsed)"

section \<open>The loop\<close>

datatype preflight_outcome = PfRejected string | PfRunnable

record 's preflight_env =
  pe_tools :: "string \<Rightarrow> tool option"
  pe_hooks :: "'s hook_registry"
  pe_session :: session
  pe_user_id :: string
  pe_auto_approve_tools :: bool
  pe_from_json :: "string \<Rightarrow> json option"
  pe_to_json :: "json \<Rightarrow> string option"
  pe_show_err :: "hook_error \<Rightarrow> string"

definition sensitive_of :: "'s preflight_env \<Rightarrow> tool_call \<Rightarrow> string list" where
  "sensitive_of env tc = (case pe_tools env (tc_name tc) of Some t \<Rightarrow> tool_sensitive_params t | None \<Rightarrow> [])"

definition hook_event_for :: "'s preflight_env \<Rightarrow> tool_call \<Rightarrow> hook_event" where
  "hook_event_for env tc =
     ToolCallEvent (tc_name tc) (redact_params (tc_arguments tc) (sensitive_of env tc)) (pe_user_id env) ''chat''"

text \<open>The hook phase of one call: the text of a rejection, or the call with its final parameters.\<close>

definition hook_phase :: "'s preflight_env \<Rightarrow> tool_call \<Rightarrow> 's \<Rightarrow> (string + tool_call) \<times> 's" where
  "hook_phase env tc s =
     (case run_hooks (pe_from_json env) (pe_to_json env) (pe_show_err env) (pe_hooks env) (hook_event_for env tc) s of
        (Inl (Rejected reason), s) \<Rightarrow> (Inl (''Tool call rejected by hook: '' @ reason), s)
      | (Inl err, s) \<Rightarrow> (Inl (''Tool call blocked by hook policy: '' @ pe_show_err env err), s)
      | (Inr (Continue (Some new_params)), s) \<Rightarrow>
          (case pe_from_json env new_params of
             Some parsed \<Rightarrow>
               (Inr (tc\<lparr>tc_arguments := restore_sensitive (sensitive_of env tc) (tc_arguments tc) parsed\<rparr>), s)
           | None \<Rightarrow> (Inr tc, s))
      | (Inr _, s) \<Rightarrow> (Inr tc, s))"

definition needs_approval :: "'s preflight_env \<Rightarrow> tool_call \<Rightarrow> bool" where
  "needs_approval env tc =
     (\<not> pe_auto_approve_tools env
      \<and> (case pe_tools env (tc_name tc) of
           None \<Rightarrow> False
         | Some t \<Rightarrow>
             (case tool_requires_approval t (tc_arguments tc) of
                Never \<Rightarrow> False
              | UnlessAutoApproved \<Rightarrow> \<not> is_tool_auto_approved (pe_session env) (tc_name tc)
              | Always \<Rightarrow> True)))"

record preflight_state =
  pf_preflight :: "(tool_call \<times> preflight_outcome) list"
  pf_runnable :: "(nat \<times> tool_call) list"
  pf_approval_needed :: "(nat \<times> tool_call) option"

fun preflight_loop :: "'s preflight_env \<Rightarrow> nat \<Rightarrow> tool_call list \<Rightarrow> preflight_state \<Rightarrow> 's \<Rightarrow> preflight_state \<times> 's" where
  "preflight_loop env idx [] st s = (st, s)"
| "preflight_loop env idx (tc # tcs) st s =
     (case hook_phase env tc s of
        (Inl reason, s) \<Rightarrow>
          preflight_loop env (Suc idx) tcs (st\<lparr>pf_preflight := pf_preflight st @ [(tc, PfRejected reason)]\<rparr>) s
      | (Inr tc, s) \<Rightarrow>
          (if needs_approval env tc then (st\<lparr>pf_approval_needed := Some (idx, tc)\<rparr>, s)
           else preflight_loop env (Suc idx) tcs
                  (st\<lparr>pf_preflight := pf_preflight st @ [(tc, PfRunnable)],
                     pf_runnable := pf_runnable st @ [(length (pf_preflight st), tc)]\<rparr>) s))"

definition preflight :: "'s preflight_env \<Rightarrow> tool_call list \<Rightarrow> 's \<Rightarrow> preflight_state \<times> 's" where
  "preflight env tcs s =
     preflight_loop env 0 tcs \<lparr>pf_preflight = [], pf_runnable = [], pf_approval_needed = None\<rparr> s"

section \<open>Parameters before and after hooks\<close>

lemma json_get_obj_insert: "json_get (JObject (obj_insert k v kvs)) k' = (if k' = k then Some v else json_get (JObject kvs) k')"
  by (simp add: obj_insert_def update_conv')

lemma redact_fold:
  "map_of (foldl (\<lambda>kvs k. if k \<in> fst ` set kvs then obj_insert k (JString ''[REDACTED]'') kvs else kvs) kvs ks) k
   = (if k \<in> set ks \<and> map_of kvs k \<noteq> None then Some (JString ''[REDACTED]'') else map_of kvs k)"
proof (induction ks arbitrary: kvs)
  case (Cons x xs)
  have "map_of (if x \<in> fst ` set kvs then obj_insert x (JString ''[REDACTED]'') kvs else kvs) k
    = (if k = x \<and> map_of kvs k \<noteq> None then Some (JString ''[REDACTED]'') else map_of kvs k)"
    by (auto simp: obj_insert_def update_conv' map_of_eq_None_iff)
  with Cons show ?case by simp
qed simp

lemma redacted: "k \<in> set sensitive \<Longrightarrow> json_get (redact_params params sensitive) k \<in> {None, Some (JString ''[REDACTED]'')}"
  by (cases params) (auto simp: redact_params_def redact_fold)

lemma redact_other: "k \<notin> set sensitive \<Longrightarrow> json_get (redact_params params sensitive) k = json_get params k"
  by (cases params) (auto simp: redact_params_def redact_fold)

lemma restore_fold:
  "map_of (foldl (\<lambda>kvs k. case json_get original k of Some v \<Rightarrow> obj_insert k v kvs | None \<Rightarrow> kvs) kvs ks) k
   = (if k \<in> set ks \<and> json_get original k \<noteq> None then json_get original k else map_of kvs k)"
proof (induction ks arbitrary: kvs)
  case (Cons x xs)
  have "map_of (case json_get original x of Some v \<Rightarrow> obj_insert x v kvs | None \<Rightarrow> kvs) k
    = (if k = x \<and> json_get original k \<noteq> None then json_get original k else map_of kvs k)"
    by (auto simp: obj_insert_def update_conv' split: option.splits)
  with Cons show ?case by auto
qed simp

definition keeps_sensitive :: "string list \<Rightarrow> json \<Rightarrow> json \<Rightarrow> bool" where
  "keeps_sensitive sensitive original final \<longleftrightarrow>
     (\<forall>k v. k \<in> set sensitive \<longrightarrow> json_get original k = Some v \<longrightarrow> (\<exists>kvs. final = JObject kvs) \<longrightarrow> json_get final k = Some v)"

lemma restore_sensitive_keeps: "keeps_sensitive sensitive original (restore_sensitive sensitive original parsed)"
  unfolding keeps_sensitive_def by (cases parsed) (auto simp: restore_sensitive_def restore_fold)

lemma keeps_sensitive_refl: "keeps_sensitive sensitive params params"
  by (simp add: keeps_sensitive_def)

lemma hook_phase_Inr:
  "hook_phase env tc s = (Inr tc', s') \<Longrightarrow>
   tc_name tc' = tc_name tc \<and> tc_id tc' = tc_id tc \<and> keeps_sensitive (sensitive_of env tc) (tc_arguments tc) (tc_arguments tc')"
  by (auto simp: hook_phase_def keeps_sensitive_refl restore_sensitive_keeps
      split: prod.splits sum.splits hook_error.splits hook_outcome.splits option.splits)

section \<open>Invariant of the loop\<close>

text \<open>
  How a call relates to its preflight entry: hooks may change its parameters but neither its
  name nor its sensitive parameters, and it is only marked runnable without a pending approval.
\<close>

definition cleared :: "'s preflight_env \<Rightarrow> tool_call \<Rightarrow> tool_call \<times> preflight_outcome \<Rightarrow> bool" where
  "cleared env tc entry \<longleftrightarrow>
     tc_name (fst entry) = tc_name tc \<and> tc_id (fst entry) = tc_id tc
     \<and> keeps_sensitive (sensitive_of env tc) (tc_arguments tc) (tc_arguments (fst entry))
     \<and> (snd entry = PfRunnable \<longrightarrow> \<not> needs_approval env (fst entry))"

definition runnable_of :: "(tool_call \<times> preflight_outcome) list \<Rightarrow> (nat \<times> tool_call) list" where
  "runnable_of xs = map (\<lambda>(i, tc, _). (i, tc)) (filter (\<lambda>(_, _, out). out = PfRunnable) (enumerate 0 xs))"

lemma runnable_of_snoc:
  "runnable_of (xs @ [(tc, out)]) = runnable_of xs @ (if out = PfRunnable then [(length xs, tc)] else [])"
  by (simp add: runnable_of_def enumerate_append_eq)

definition loop_inv :: "'s preflight_env \<Rightarrow> tool_call list \<Rightarrow> preflight_state \<Rightarrow> bool" where
  "loop_inv env past st \<longleftrightarrow> list_all2 (cleared env) past (pf_preflight st)
     \<and> pf_runnable st = runnable_of (pf_preflight st) \<and> pf_approval_needed st = None"

lemma loop_inv_step:
  assumes "loop_inv env past st" and "cleared env tc (tc', out)"
  shows "loop_inv env (past @ [tc]) (st\<lparr>pf_preflight := pf_preflight st @ [(tc', out)],
    pf_runnable := runnable_of (pf_preflight st @ [(tc', out)])\<rparr>)"
  using assms by (auto simp: loop_inv_def intro: list_all2_appendI)

definition stops_at :: "'s preflight_env \<Rightarrow> tool_call list \<Rightarrow> tool_call list \<Rightarrow> preflight_state \<Rightarrow> bool" where
  "stops_at env past rest st \<longleftrightarrow>
     list_all2 (cleared env) past (pf_preflight st) \<and> pf_runnable st = runnable_of (pf_preflight st)
     \<and> (case pf_approval_needed st of
          None \<Rightarrow> rest = []
        | Some (i, tc) \<Rightarrow> i = length past \<and> rest \<noteq> [] \<and> needs_approval env tc
            \<and> tc_name tc = tc_name (hd rest) \<and> tc_id tc = tc_id (hd rest)
            \<and> keeps_sensitive (sensitive_of env (hd rest)) (tc_arguments (hd rest)) (tc_arguments tc))"

lemma preflight_loop_stops:
  assumes "loop_inv env past st" and "idx = length past"
  shows "\<exists>mid rest. tcs = mid @ rest \<and> stops_at env (past @ mid) rest (fst (preflight_loop env idx tcs st s))"
  using assms
proof (induction tcs arbitrary: past st idx s)
  case Nil
  then show ?case by (auto simp: loop_inv_def stops_at_def)
next
  case (Cons tc tcs)
  obtain res s1 where phase: "hook_phase env tc s = (res, s1)" by fastforce
  have continue: ?case
    if clr: "cleared env tc (tc', out)" and run: "fst (preflight_loop env idx (tc # tcs) st s)
        = fst (preflight_loop env (Suc idx) tcs (st\<lparr>pf_preflight := pf_preflight st @ [(tc', out)],
            pf_runnable := runnable_of (pf_preflight st @ [(tc', out)])\<rparr>) s1)" for tc' out
  proof -
    obtain mid rest where "tcs = mid @ rest" "stops_at env ((past @ [tc]) @ mid) rest
        (fst (preflight_loop env (Suc idx) tcs (st\<lparr>pf_preflight := pf_preflight st @ [(tc', out)],
            pf_runnable := runnable_of (pf_preflight st @ [(tc', out)])\<rparr>) s1))"
      using Cons.IH [OF loop_inv_step [OF Cons.prems(1) clr], of "Suc idx" s1] Cons.prems(2)
      by (metis length_append_singleton)
    then show ?thesis
      using run by (intro exI [of _ "tc # mid"] exI [of _ rest]) simp
  qed
  have keep: "pf_runnable st = runnable_of (pf_preflight st)" "length past = length (pf_preflight st)"
    using Cons.prems(1) by (auto simp: loop_inv_def dest: list_all2_lengthD)
  show ?case
  proof (cases res)
    case (Inl reason)
    have "cleared env tc (tc, PfRejected reason)"
      by (simp add: cleared_def keeps_sensitive_refl)
    then show ?thesis
      by (rule continue) (simp add: phase Inl runnable_of_snoc keep(1) [symmetric])
  next
    case (Inr tc')
    have same: "tc_name tc' = tc_name tc" "tc_id tc' = tc_id tc"
      "keeps_sensitive (sensitive_of env tc) (tc_arguments tc) (tc_arguments tc')"
      using hook_phase_Inr [of env tc s tc' s1] phase Inr by simp_all
    show ?thesis
    proof (cases "needs_approval env tc'")
      case True
      then have "stops_at env (past @ []) (tc # tcs) (fst (preflight_loop env idx (tc # tcs) st s))"
        using Cons.prems same by (auto simp: phase Inr loop_inv_def stops_at_def)
      then show ?thesis by (metis append_Nil)
    next
      case False
      then have "cleared env tc (tc', PfRunnable)"
        using same by (simp add: cleared_def)
      then show ?thesis
        by (rule continue) (use False in \<open>simp add: phase Inr runnable_of_snoc keep\<close>)
    qed
  qed
qed

lemma preflight_stops: "\<exists>past rest. tcs = past @ rest \<and> stops_at env past rest (fst (preflight env tcs s))"
proof -
  have "loop_inv env [] \<lparr>pf_preflight = [], pf_runnable = [], pf_approval_needed = None\<rparr>"
    by (simp add: loop_inv_def runnable_of_def)
  from preflight_loop_stops [OF this, of 0 tcs s] show ?thesis
    by (auto simp: preflight_def)
qed

lemma runnable_cleared:
  assumes "stops_at env past rest st" and "(i, tc) \<in> set (pf_runnable st)"
  shows "i < length past \<and> cleared env (past ! i) (tc, PfRunnable)"
proof -
  have "i < length (pf_preflight st) \<and> pf_preflight st ! i = (tc, PfRunnable)"
    using assms by (auto simp: stops_at_def runnable_of_def in_set_enumerate_eq)
  moreover have "list_all2 (cleared env) past (pf_preflight st)"
    using assms(1) by (simp add: stops_at_def)
  ultimately show ?thesis
    by (metis list_all2_conv_all_nth)
qed

lemma runnable_without_approval:
  "(i, tc) \<in> set (pf_runnable (fst (preflight env tcs s))) \<Longrightarrow> \<not> needs_approval env tc"
  using preflight_stops [of tcs env s] runnable_cleared by (fastforce simp: cleared_def)

section \<open>Theorems\<close>



end
