(* ===== verification/Session_Manager.thy ===== *)
theory Session_Manager
  imports Session Undo
begin

text \<open>
  \<open>src/agent/session_manager.rs\<close>: the sessions of all users, the map from external to internal
  threads and the undo managers, and from \<open>src/agent/thread_ops.rs\<close> the hydration of a thread from
  the database. A session behind its lock is a value in the map of sessions, updated in place.
  \<open>resolve_thread\<close> and \<open>prune_stale_sessions\<close> release their locks in between; their critical
  sections are separate definitions. UUID parsing and printing are arguments, and so are fresh
  identifiers, clock readings and the sets of users whose session lock is contended. The hooks
  that are started in the background do not touch this state and are left out.
\<close>

section \<open>State and operations\<close>

record thread_key =
  tk_user_id :: string
  tk_channel :: string
  tk_external_thread_id :: "string option"

record session_manager =
  sm_sessions :: "(string, session) hashmap"
  sm_thread_map :: "(thread_key, uuid) hashmap"
  sm_undo_managers :: "(uuid, undo_manager) hashmap"

definition session_manager_new :: session_manager where
  "session_manager_new = \<lparr>sm_sessions = [], sm_thread_map = [], sm_undo_managers = []\<rparr>"

definition get_or_create_session :: "uuid \<Rightarrow> datetime \<Rightarrow> string \<Rightarrow> session_manager \<Rightarrow> session \<times> session_manager" where
  "get_or_create_session fresh_id now uid m =
     (case hm_get (sm_sessions m) uid of
        Some s \<Rightarrow> (s, m)
      | None \<Rightarrow>
          (let s = session_new fresh_id uid now
           in (s, m\<lparr>sm_sessions := hm_insert uid s (sm_sessions m)\<rparr>)))"

definition in_session :: "string \<Rightarrow> uuid \<Rightarrow> session_manager \<Rightarrow> bool" where
  "in_session uid tid m =
     (case hm_get (sm_sessions m) uid of Some s \<Rightarrow> threads s tid \<noteq> None | None \<Rightarrow> False)"

definition mapped :: "uuid \<Rightarrow> session_manager \<Rightarrow> bool" where
  "mapped tid m = (tid \<in> snd ` set (sm_thread_map m))"

definition resolve_lookup :: "thread_key \<Rightarrow> session_manager \<Rightarrow> uuid option" where
  "resolve_lookup key m =
     (case hm_get (sm_thread_map m) key of
        Some tid \<Rightarrow> if in_session (tk_user_id key) tid m then Some tid else None
      | None \<Rightarrow> None)"

definition adoptable :: "(string \<Rightarrow> uuid option) \<Rightarrow> thread_key \<Rightarrow> session_manager \<Rightarrow> uuid option" where
  "adoptable parse_str key m =
     (case tk_external_thread_id key of
        None \<Rightarrow> None
      | Some ext \<Rightarrow>
          (case parse_str ext of
             None \<Rightarrow> None
           | Some ext_uuid \<Rightarrow>
               if \<not> mapped ext_uuid m \<and> in_session (tk_user_id key) ext_uuid m then Some ext_uuid else None))"

definition ensure_undo :: "uuid \<Rightarrow> session_manager \<Rightarrow> session_manager" where
  "ensure_undo tid m =
     (case hm_get (sm_undo_managers m) tid of
        Some _ \<Rightarrow> m
      | None \<Rightarrow> m\<lparr>sm_undo_managers := hm_insert tid undo_manager_new (sm_undo_managers m)\<rparr>)"

definition map_thread :: "thread_key \<Rightarrow> uuid \<Rightarrow> session_manager \<Rightarrow> session_manager" where
  "map_thread key tid m = m\<lparr>sm_thread_map := hm_insert key tid (sm_thread_map m)\<rparr>"

definition create_in_session :: "string \<Rightarrow> uuid \<Rightarrow> datetime \<Rightarrow> session_manager \<Rightarrow> session_manager" where
  "create_in_session uid fresh_id now m =
     m\<lparr>sm_sessions := hm_update uid (\<lambda>s. snd (create_thread fresh_id now s)) (sm_sessions m)\<rparr>"

definition new_undo :: "uuid \<Rightarrow> session_manager \<Rightarrow> session_manager" where
  "new_undo tid m = m\<lparr>sm_undo_managers := hm_insert tid undo_manager_new (sm_undo_managers m)\<rparr>"

definition resolve_thread ::
  "(string \<Rightarrow> uuid option) \<Rightarrow> uuid \<Rightarrow> uuid \<Rightarrow> datetime \<Rightarrow> string \<Rightarrow> string \<Rightarrow> string option
   \<Rightarrow> session_manager \<Rightarrow> uuid \<times> session_manager" where
  "resolve_thread parse_str sid tid now uid channel ext m =
     (let m = snd (get_or_create_session sid now uid m);
          key = \<lparr>tk_user_id = uid, tk_channel = channel, tk_external_thread_id = ext\<rparr>
      in case resolve_lookup key m of
           Some t \<Rightarrow> (t, m)
         | None \<Rightarrow>
             (case adoptable parse_str key m of
                Some e \<Rightarrow> (e, ensure_undo e (map_thread key e m))
              | None \<Rightarrow> (tid, new_undo tid (map_thread key tid (create_in_session uid tid now m)))))"

definition register_thread ::
  "(uuid \<Rightarrow> string) \<Rightarrow> string \<Rightarrow> string \<Rightarrow> uuid \<Rightarrow> session \<Rightarrow> session_manager \<Rightarrow> session_manager" where
  "register_thread to_string uid channel tid s m =
     (let key = \<lparr>tk_user_id = uid, tk_channel = channel, tk_external_thread_id = Some (to_string tid)\<rparr>;
          m = ensure_undo tid (map_thread key tid m)
      in case hm_get (sm_sessions m) uid of
           Some _ \<Rightarrow> m
         | None \<Rightarrow> m\<lparr>sm_sessions := hm_insert uid s (sm_sessions m)\<rparr>)"

definition remove_thread :: "uuid \<Rightarrow> datetime \<Rightarrow> string \<Rightarrow> uuid \<Rightarrow> session_manager \<Rightarrow> session_manager" where
  "remove_thread sid now uid tid m =
     (let m = snd (get_or_create_session sid now uid m);
          m = m\<lparr>sm_sessions := hm_update uid
                 (\<lambda>s. s\<lparr>threads := (threads s)(tid := None),
                        active_thread := (if active_thread s = Some tid then None else active_thread s)\<rparr>) (sm_sessions m)\<rparr>;
          m = m\<lparr>sm_thread_map := filter (\<lambda>(_, v). v \<noteq> tid) (sm_thread_map m)\<rparr>
      in m\<lparr>sm_undo_managers := hm_remove tid (sm_undo_managers m)\<rparr>)"

definition get_undo_manager :: "uuid \<Rightarrow> session_manager \<Rightarrow> undo_manager \<times> session_manager" where
  "get_undo_manager tid m =
     (case hm_get (sm_undo_managers m) tid of
        Some u \<Rightarrow> (u, m)
      | None \<Rightarrow> (undo_manager_new, m\<lparr>sm_undo_managers := hm_insert tid undo_manager_new (sm_undo_managers m)\<rparr>))"

text \<open>Pruning: the stale users, their threads, and the removal, each under its own lock.\<close>

definition prune_find :: "datetime \<Rightarrow> string set \<Rightarrow> session_manager \<Rightarrow> (string \<times> uuid) list" where
  "prune_find cutoff contended m =
     List.map_filter (\<lambda>(uid, s). if uid \<in> contended then None
                                  else if last_active_at s < cutoff then Some (uid, session_id s) else None)
       (sm_sessions m)"

definition stale_thread :: "string list \<Rightarrow> string set \<Rightarrow> session_manager \<Rightarrow> uuid \<Rightarrow> bool" where
  "stale_thread users contended m tid = list_ex (\<lambda>uid. uid \<notin> contended \<and> in_session uid tid m) users"

definition prune_remove :: "string list \<Rightarrow> (uuid \<Rightarrow> bool) \<Rightarrow> session_manager \<Rightarrow> nat \<times> session_manager" where
  "prune_remove users stale_ids m =
     (let sessions = foldl (\<lambda>ss uid. hm_remove uid ss) (sm_sessions m) users
      in (length (sm_sessions m) - length sessions,
          m\<lparr>sm_sessions := sessions,
            sm_thread_map := filter (\<lambda>(key, _). tk_user_id key \<notin> set users) (sm_thread_map m),
            sm_undo_managers := filter (\<lambda>(tid, _). \<not> stale_ids tid) (sm_undo_managers m)\<rparr>))"

definition prune_stale_sessions ::
  "datetime \<Rightarrow> nat \<Rightarrow> string set \<Rightarrow> string set \<Rightarrow> session_manager \<Rightarrow> nat \<times> session_manager" where
  "prune_stale_sessions now max_idle_secs contended contended' m =
     (let cutoff = now - int max_idle_secs * 1000;
          users = map fst (prune_find cutoff contended m)
      in if users = [] then (0, m)
         else prune_remove users (stale_thread users contended' m) m)"

section \<open>Hydration\<close>

text \<open>The roles and contents of the stored messages, in order.\<close>

definition db_chat_messages :: "(string \<times> string) list \<Rightarrow> chat_message list" where
  "db_chat_messages rows =
     List.map_filter (\<lambda>(role, content).
        if role = ''user'' then Some (msg_user content)
        else if role = ''assistant'' then Some (msg_assistant content)
        else None) rows"

definition maybe_hydrate_thread ::
  "(string \<Rightarrow> uuid option) \<Rightarrow> (uuid \<Rightarrow> string) \<Rightarrow> (uuid \<Rightarrow> (string \<times> string) list) option \<Rightarrow> uuid \<Rightarrow> datetime
   \<Rightarrow> string \<Rightarrow> string \<Rightarrow> string \<Rightarrow> session_manager \<Rightarrow> session_manager" where
  "maybe_hydrate_thread parse_str to_string store sid now uid channel ext m =
     (case parse_str ext of
        None \<Rightarrow> m
      | Some tid \<Rightarrow>
          (case get_or_create_session sid now uid m of
             (s, m) \<Rightarrow>
               if threads s tid \<noteq> None then m
               else
                 (let msgs = (case store of Some list_messages \<Rightarrow> db_chat_messages (list_messages tid) | None \<Rightarrow> []);
                      th = thread_with_id tid (session_id s) now;
                      th = (if msgs \<noteq> [] then restore_from_messages msgs now th else th);
                      s = s\<lparr>threads := (threads s)(tid \<mapsto> th), active_thread := Some tid, last_active_at := now\<rparr>
                  in register_thread to_string uid channel tid s (m\<lparr>sm_sessions := hm_insert uid s (sm_sessions m)\<rparr>))))"

section \<open>Invariant\<close>

text \<open>
  Maps have distinct keys; a thread is in the session of at most one user; a mapped thread is in
  the session of its key's user and has an undo manager; and no thread is mapped twice, so that no
  two channel scopes share one.
\<close>

definition sm_wf :: "session_manager \<Rightarrow> bool" where
  "sm_wf m \<longleftrightarrow>
     hm_wf (sm_sessions m) \<and> hm_wf (sm_thread_map m) \<and> hm_wf (sm_undo_managers m)
     \<and> (\<forall>u v tid. in_session u tid m \<longrightarrow> in_session v tid m \<longrightarrow> u = v)
     \<and> (\<forall>(key, tid) \<in> set (sm_thread_map m).
          in_session (tk_user_id key) tid m \<and> hm_get (sm_undo_managers m) tid \<noteq> None)
     \<and> distinct (map snd (sm_thread_map m))"

lemma sm_wfD:
  assumes "sm_wf m"
  shows "hm_wf (sm_sessions m)" "hm_wf (sm_thread_map m)" "hm_wf (sm_undo_managers m)"
    "in_session u tid m \<Longrightarrow> in_session v tid m \<Longrightarrow> u = v"
    "(key, tid) \<in> set (sm_thread_map m) \<Longrightarrow> in_session (tk_user_id key) tid m"
    "(key, tid) \<in> set (sm_thread_map m) \<Longrightarrow> hm_get (sm_undo_managers m) tid \<noteq> None"
    "distinct (map snd (sm_thread_map m))"
  using assms unfolding sm_wf_def by blast+

lemma sm_wfI:
  assumes "hm_wf (sm_sessions m)" "hm_wf (sm_thread_map m)" "hm_wf (sm_undo_managers m)"
    and "\<And>u v tid. in_session u tid m \<Longrightarrow> in_session v tid m \<Longrightarrow> u = v"
    and "\<And>key tid. (key, tid) \<in> set (sm_thread_map m) \<Longrightarrow> in_session (tk_user_id key) tid m"
    and "\<And>key tid. (key, tid) \<in> set (sm_thread_map m) \<Longrightarrow> hm_get (sm_undo_managers m) tid \<noteq> None"
    and "distinct (map snd (sm_thread_map m))"
  shows "sm_wf m"
  using assms unfolding sm_wf_def by blast

lemma session_manager_new_wf: "sm_wf session_manager_new"
  by (simp add: sm_wf_def session_manager_new_def in_session_def)

section \<open>What the operations change\<close>

lemma in_session_get_or_create [simp]:
  "in_session u tid (snd (get_or_create_session sid now uid m)) = in_session u tid m"
  by (auto simp: get_or_create_session_def Let_def in_session_def hm_get_insert session_new_def split: option.splits)

lemma get_or_create_fields [simp]:
  "sm_thread_map (snd (get_or_create_session sid now uid m)) = sm_thread_map m"
  "sm_undo_managers (snd (get_or_create_session sid now uid m)) = sm_undo_managers m"
  "hm_wf (sm_sessions m) \<Longrightarrow> hm_wf (sm_sessions (snd (get_or_create_session sid now uid m)))"
  "hm_get (sm_sessions (snd (get_or_create_session sid now uid m))) uid \<noteq> None"
  by (auto simp: get_or_create_session_def hm_get_insert Let_def split: option.splits)

lemma get_or_create_again: "hm_get (sm_sessions m) uid \<noteq> None \<Longrightarrow> snd (get_or_create_session sid now uid m) = m"
  by (auto simp: get_or_create_session_def)

lemma in_session_create:
  "hm_get (sm_sessions m) uid \<noteq> None \<Longrightarrow>
   in_session u t (create_in_session uid tid now m) \<longleftrightarrow> in_session u t m \<or> (u = uid \<and> t = tid)"
  by (auto simp: create_in_session_def in_session_def hm_get_update create_thread_def split: option.splits)

lemma create_in_session_fields [simp]:
  "sm_thread_map (create_in_session uid tid now m) = sm_thread_map m"
  "sm_undo_managers (create_in_session uid tid now m) = sm_undo_managers m"
  "hm_wf (sm_sessions (create_in_session uid tid now m)) = hm_wf (sm_sessions m)"
  "hm_get (sm_sessions (create_in_session uid tid now m)) u = None \<longleftrightarrow> hm_get (sm_sessions m) u = None"
  by (auto simp add: create_in_session_def hm_get_update)

lemma in_session_other_fields [simp]:
  "in_session u t (map_thread key tid m) = in_session u t m"
  "in_session u t (ensure_undo tid m) = in_session u t m"
  "in_session u t (new_undo tid m) = in_session u t m"
  by (simp_all add: map_thread_def ensure_undo_def new_undo_def in_session_def split: option.splits)

lemma ensure_undo_fields [simp]:
  "sm_sessions (ensure_undo tid m) = sm_sessions m" "sm_thread_map (ensure_undo tid m) = sm_thread_map m"
  "hm_wf (sm_undo_managers m) \<Longrightarrow> hm_wf (sm_undo_managers (ensure_undo tid m))"
  "hm_get (sm_undo_managers (ensure_undo tid m)) t = None \<longleftrightarrow> t \<noteq> tid \<and> hm_get (sm_undo_managers m) t = None"
  by (auto simp: ensure_undo_def hm_get_insert split: option.splits)

lemma new_undo_fields [simp]:
  "sm_sessions (new_undo tid m) = sm_sessions m" "sm_thread_map (new_undo tid m) = sm_thread_map m"
  "hm_wf (sm_undo_managers m) \<Longrightarrow> hm_wf (sm_undo_managers (new_undo tid m))"
  "hm_get (sm_undo_managers (new_undo tid m)) t = None \<longleftrightarrow> t \<noteq> tid \<and> hm_get (sm_undo_managers m) t = None"
  by (auto simp: new_undo_def hm_get_insert split: option.splits)

lemma map_thread_fields [simp]:
  "sm_sessions (map_thread key tid m) = sm_sessions m" "sm_undo_managers (map_thread key tid m) = sm_undo_managers m"
  "sm_thread_map (map_thread key tid m) = hm_insert key tid (sm_thread_map m)"
  by (simp_all add: map_thread_def)

lemma distinct_snd_insert:
  assumes "distinct (map snd m)" and "v \<notin> snd ` set m"
  shows "distinct (map snd (hm_insert k v m))"
  using assms
proof (induction m)
  case (Cons x m)
  have "snd ` set (AList.update k v m) \<subseteq> insert v (snd ` set m)"
    by (induction m) auto
  with Cons show ?case
    by (cases x) (auto simp: hm_insert_def)
qed (simp add: hm_insert_def)

text \<open>Mapping a thread of the user's session that no key maps to yet, together with its undo manager.\<close>

lemma map_thread_wf:
  assumes "sm_wf m" and "\<not> mapped tid m"
    and "sm_sessions m' = sm_sessions m" and "sm_thread_map m' = hm_insert key tid (sm_thread_map m)"
    and "in_session (tk_user_id key) tid m"
    and "hm_wf (sm_undo_managers m')"
    and "\<And>t. hm_get (sm_undo_managers m') t = None \<longleftrightarrow> t \<noteq> tid \<and> hm_get (sm_undo_managers m) t = None"
  shows "sm_wf m'"
proof -
  have same: "in_session u t m' = in_session u t m" for u t
    by (simp add: in_session_def assms(3))
  show ?thesis
    using sm_wfD [OF assms(1)] assms(2,5,7)
    by (intro sm_wfI) (auto simp: same assms(3,4,6) set_hm_insert mapped_def distinct_snd_insert)
qed

lemma get_or_create_session_wf: "sm_wf m \<Longrightarrow> sm_wf (snd (get_or_create_session sid now uid m))"
  using sm_wfD [of m] by (intro sm_wfI) auto

lemma create_in_session_wf:
  assumes "sm_wf m" and "hm_get (sm_sessions m) uid \<noteq> None" and "\<And>u. \<not> in_session u tid m"
  shows "sm_wf (create_in_session uid tid now m)"
  using sm_wfD [OF assms(1)] assms(3) by (intro sm_wfI) (auto simp: in_session_create [OF assms(2)])

lemma mapped_in_session: "sm_wf m \<Longrightarrow> mapped tid m \<Longrightarrow> \<exists>u. in_session u tid m"
  using sm_wfD(5) [of m] by (fastforce simp: mapped_def)

lemma resolve_thread_wf:
  assumes "sm_wf m" and "\<And>u. \<not> in_session u tid m"
  shows "sm_wf (snd (resolve_thread parse_str sid tid now uid channel ext m))"
proof -
  define m1 where "m1 = snd (get_or_create_session sid now uid m)"
  define key where "key = \<lparr>tk_user_id = uid, tk_channel = channel, tk_external_thread_id = ext\<rparr>"
  have m1: "sm_wf m1" "hm_get (sm_sessions m1) uid \<noteq> None" "\<And>u. \<not> in_session u tid m1"
    using assms by (simp_all add: m1_def get_or_create_session_wf)
  have adopt: "sm_wf (ensure_undo e (map_thread key e m1))" if "adoptable parse_str key m1 = Some e" for e
  proof (rule map_thread_wf [OF m1(1)])
    show "\<not> mapped e m1" "in_session (tk_user_id key) e m1"
      using that by (auto simp: adoptable_def split: option.splits if_splits)
  qed (simp_all add: sm_wfD(3) [OF m1(1)])
  have uid: "tk_user_id key = uid"
    by (simp add: key_def)
  define m2 where "m2 = create_in_session uid tid now m1"
  have m2: "sm_wf m2" "in_session uid tid m2" "sm_thread_map m2 = sm_thread_map m1"
    using create_in_session_wf [OF m1(1,2,3)] by (simp_all add: m2_def in_session_create [OF m1(2)])
  have "\<not> mapped tid m1"
    using mapped_in_session [OF m1(1)] m1(3) by blast
  then have "sm_wf (new_undo tid (map_thread key tid m2))"
    using m2 uid by (intro map_thread_wf [OF m2(1), where key = key and tid = tid]) (simp_all add: mapped_def sm_wfD(3) [OF m2(1)])
  then show ?thesis
    using m1(1) adopt unfolding resolve_thread_def m1_def [symmetric] key_def [symmetric] m2_def
    by (simp split: option.splits)
qed

lemma remove_thread_wf:
  assumes "sm_wf m"
  shows "sm_wf (remove_thread sid now uid tid m)"
proof -
  define m1 where "m1 = snd (get_or_create_session sid now uid m)"
  let ?m = "remove_thread sid now uid tid m"
  have m1: "sm_wf m1" "hm_get (sm_sessions m1) uid \<noteq> None"
    using assms by (simp_all add: m1_def get_or_create_session_wf)
  have ins: "in_session u t ?m \<longleftrightarrow> in_session u t m1 \<and> \<not> (u = uid \<and> t = tid)" for u t
    using m1(2) by (auto simp: remove_thread_def Let_def m1_def [symmetric] in_session_def hm_get_update split: option.splits)
  have maps: "sm_thread_map ?m = filter (\<lambda>(_, v). v \<noteq> tid) (sm_thread_map m1)"
    "sm_undo_managers ?m = hm_remove tid (sm_undo_managers m1)" "hm_wf (sm_sessions ?m)"
    using sm_wfD(1) [OF m1(1)] by (simp_all add: remove_thread_def Let_def m1_def [symmetric])
  show ?thesis
    using sm_wfD [OF m1(1)]
    by (intro sm_wfI) (auto simp: maps ins hm_get_remove distinct_map_filter)
qed

lemma hm_get_foldl_remove:
  "hm_get (foldl (\<lambda>ss u. hm_remove u ss) m us) k = (if k \<in> set us then None else hm_get m k)"
  by (induction us arbitrary: m) (auto simp: hm_get_remove)

lemma hm_wf_foldl_remove: "hm_wf m \<Longrightarrow> hm_wf (foldl (\<lambda>ss u. hm_remove u ss) m us)"
  by (induction us arbitrary: m) auto

lemma prune_remove_wf:
  assumes "sm_wf m" and "\<And>t. stale_ids t \<Longrightarrow> \<exists>u \<in> set users. in_session u t m"
  shows "sm_wf (snd (prune_remove users stale_ids m))"
proof -
  let ?m = "snd (prune_remove users stale_ids m)"
  have ins: "in_session u t ?m \<longleftrightarrow> in_session u t m \<and> u \<notin> set users" for u t
    by (auto simp: prune_remove_def Let_def in_session_def hm_get_foldl_remove split: option.splits)
  have maps: "sm_thread_map ?m = filter (\<lambda>(key, _). tk_user_id key \<notin> set users) (sm_thread_map m)"
    "sm_undo_managers ?m = filter (\<lambda>(tid, _). \<not> stale_ids tid) (sm_undo_managers m)" "hm_wf (sm_sessions ?m)"
    using sm_wfD(1) [OF assms(1)] by (simp_all add: prune_remove_def Let_def hm_wf_foldl_remove)
  have "\<not> stale_ids t" if "(key, t) \<in> set (sm_thread_map m)" "tk_user_id key \<notin> set users" for key t
    using assms(2) sm_wfD(4,5) [OF assms(1)] that by metis
  then show ?thesis
    using sm_wfD [OF assms(1)]
    by (intro sm_wfI) (auto simp: maps ins hm_get_filter distinct_map_filter split: option.splits)
qed

lemma prune_wf: "sm_wf m \<Longrightarrow> sm_wf (snd (prune_stale_sessions now idle c c' m))"
  by (auto simp: prune_stale_sessions_def Let_def stale_thread_def list_ex_iff intro!: prune_remove_wf)

lemma get_undo_manager_eq: "snd (get_undo_manager tid m) = ensure_undo tid m"
  by (simp add: get_undo_manager_def ensure_undo_def split: option.splits)

lemma get_undo_wf: "sm_wf m \<Longrightarrow> sm_wf (snd (get_undo_manager tid m))"
  unfolding get_undo_manager_eq using sm_wfD [of m] by (intro sm_wfI) auto

lemma hydrate_wf:
  assumes "sm_wf m" and "\<And>tid u. parse_str ext = Some tid \<Longrightarrow> in_session u tid m \<Longrightarrow> u = uid"
  shows "sm_wf (maybe_hydrate_thread parse_str to_string store sid now uid channel ext m)"
proof (cases "parse_str ext")
  case None
  then show ?thesis using assms(1) by (simp add: maybe_hydrate_thread_def)
next
  case (Some tid)
  obtain s m1 where get: "get_or_create_session sid now uid m = (s, m1)" by fastforce
  have m1: "sm_wf m1" "hm_get (sm_sessions m1) uid = Some s" "\<And>u t. in_session u t m1 = in_session u t m"
    using get get_or_create_session_wf [OF assms(1), of sid now uid] in_session_get_or_create [of _ _ sid now uid m]
    by (auto simp: get_or_create_session_def Let_def hm_get_insert split: option.splits)
  show ?thesis
  proof (cases "threads s tid = None")
    case False
    then show ?thesis using m1(1) by (simp add: maybe_hydrate_thread_def Some get)
  next
    case True
    have absent: "\<not> in_session u tid m1" for u
    proof
      assume u: "in_session u tid m1"
      then have "u = uid"
        using assms(2) [OF Some] m1(3) by simp
      then show False
        using u m1(2) True by (simp add: in_session_def)
    qed
    obtain s' where s': "maybe_hydrate_thread parse_str to_string store sid now uid channel ext m =
        register_thread to_string uid channel tid s' (m1\<lparr>sm_sessions := hm_insert uid s' (sm_sessions m1)\<rparr>)"
      and dom: "\<And>t. threads s' t = None \<longleftrightarrow> t \<noteq> tid \<and> threads s t = None"
      using True by (auto simp: maybe_hydrate_thread_def Some get Let_def)
    define m2 where "m2 = m1\<lparr>sm_sessions := hm_insert uid s' (sm_sessions m1)\<rparr>"
    define key where "key = \<lparr>tk_user_id = uid, tk_channel = channel, tk_external_thread_id = Some (to_string tid)\<rparr>"
    have ins: "in_session u t m2 \<longleftrightarrow> in_session u t m1 \<or> (u = uid \<and> t = tid)" for u t
      using m1(2) dom by (auto simp: m2_def in_session_def hm_get_insert split: option.splits)
    have m2: "sm_wf m2"
      using sm_wfD [OF m1(1)] absent by (intro sm_wfI) (auto simp: ins, auto simp: m2_def)
    have "\<not> mapped tid m2"
      using mapped_in_session [OF m1(1)] absent by (auto simp: m2_def mapped_def)
    then have "sm_wf (ensure_undo tid (map_thread key tid m2))"
      by (intro map_thread_wf [OF m2, where key = key and tid = tid]) (simp_all add: ins key_def sm_wfD(3) [OF m2])
    moreover have "hm_get (sm_sessions m2) uid \<noteq> None"
      by (simp add: m2_def hm_get_insert)
    ultimately show ?thesis
      unfolding s' m2_def [symmetric] by (auto simp: register_thread_def Let_def key_def [symmetric])
  qed
qed

section \<open>Reachable states\<close>

text \<open>
  The manager under any sequence of its operations, of changes to a session that keep its set of
  threads, and of hydrations. A new thread gets an identifier that no session has, and a thread
  is hydrated for the user whose session may already have it.
\<close>

inductive sm_reachable :: "(string \<Rightarrow> uuid option) \<Rightarrow> (uuid \<Rightarrow> string) \<Rightarrow> session_manager \<Rightarrow> bool" for parse_str to_string where
  sm_new: "sm_reachable parse_str to_string session_manager_new"
| sm_resolve: "sm_reachable parse_str to_string m \<Longrightarrow> (\<And>u. \<not> in_session u tid m) \<Longrightarrow>
    sm_reachable parse_str to_string (snd (resolve_thread parse_str sid tid now uid channel ext m))"
| sm_hydrate: "sm_reachable parse_str to_string m \<Longrightarrow>
    (\<And>tid u. parse_str ext = Some tid \<Longrightarrow> in_session u tid m \<Longrightarrow> u = uid) \<Longrightarrow>
    sm_reachable parse_str to_string (maybe_hydrate_thread parse_str to_string store sid now uid channel ext m)"
| sm_remove: "sm_reachable parse_str to_string m \<Longrightarrow>
    sm_reachable parse_str to_string (remove_thread sid now uid tid m)"
| sm_undo: "sm_reachable parse_str to_string m \<Longrightarrow>
    sm_reachable parse_str to_string (snd (get_undo_manager tid m))"
| sm_prune: "sm_reachable parse_str to_string m \<Longrightarrow>
    sm_reachable parse_str to_string (snd (prune_stale_sessions now idle contended contended' m))"
| sm_use: "sm_reachable parse_str to_string m \<Longrightarrow> (\<And>s. dom (threads (f s)) = dom (threads s)) \<Longrightarrow>
    sm_reachable parse_str to_string (m\<lparr>sm_sessions := hm_update uid f (sm_sessions m)\<rparr>)"

lemma session_use_wf:
  assumes "sm_wf m" and "\<And>s. dom (threads (f s)) = dom (threads s)"
  shows "sm_wf (m\<lparr>sm_sessions := hm_update uid f (sm_sessions m)\<rparr>)"
proof -
  have "threads (f s) t = None \<longleftrightarrow> threads s t = None" for s t
    using assms(2) [of s] by (metis domIff)
  then have "in_session u t (m\<lparr>sm_sessions := hm_update uid f (sm_sessions m)\<rparr>) = in_session u t m" for u t
    by (simp add: in_session_def hm_get_update split: option.split del: not_None_eq)
  then show ?thesis
    using sm_wfD [OF assms(1)] by (intro sm_wfI) auto
qed

lemma sm_reachable_wf: "sm_reachable parse_str to_string m \<Longrightarrow> sm_wf m"
proof (induction rule: sm_reachable.induct)
  case (sm_hydrate m ext uid store sid now channel)
  then show ?case using hydrate_wf by blast
next
  case (sm_use m f uid)
  then show ?case by (intro session_use_wf)
qed (auto intro: session_manager_new_wf resolve_thread_wf remove_thread_wf get_undo_wf prune_wf)

lemma resolve_thread_result:
  assumes "sm_wf m" and "resolve_thread parse_str sid tid now uid channel ext m = (t, m')"
    and "key = \<lparr>tk_user_id = uid, tk_channel = channel, tk_external_thread_id = ext\<rparr>"
  shows "hm_get (sm_thread_map m') key = Some t" and "in_session uid t m'" and "hm_get (sm_sessions m') uid \<noteq> None"
proof -
  define m1 where "m1 = snd (get_or_create_session sid now uid m)"
  have m1: "hm_get (sm_sessions m1) uid \<noteq> None"
    by (simp add: m1_def)
  have uid: "tk_user_id key = uid"
    by (simp add: assms(3))
  show "hm_get (sm_thread_map m') key = Some t" and ins: "in_session uid t m'"
    using assms(2) m1 uid unfolding resolve_thread_def m1_def [symmetric] assms(3) [symmetric]
    by (auto simp: Let_def resolve_lookup_def adoptable_def hm_get_insert in_session_create split: option.splits if_splits)
  show "hm_get (sm_sessions m') uid \<noteq> None"
    using ins by (auto simp: in_session_def split: option.splits)
qed

text \<open>
  Two concurrent requests with the same new key: both find no mapping, each creates a thread, and
  the thread of the first to store its mapping is in the session but no longer mapped.
\<close>

lemma concurrent_resolve_splits:
  assumes "hm_get (sm_sessions m) (tk_user_id key) \<noteq> None" and "t1 \<noteq> t2"
    and "resolve_lookup key m = None" and "adoptable parse_str key m = None" and "\<not> mapped t1 m"
  shows "let a = new_undo t1 (map_thread key t1 (create_in_session (tk_user_id key) t1 now m));
             b = new_undo t2 (map_thread key t2 (create_in_session (tk_user_id key) t2 now a))
         in resolve_lookup key b = Some t2 \<and> in_session (tk_user_id key) t1 b \<and> (\<forall>k. hm_get (sm_thread_map b) k \<noteq> Some t1)"
proof -
  define a where "a = new_undo t1 (map_thread key t1 (create_in_session (tk_user_id key) t1 now m))"
  have a: "hm_get (sm_sessions a) (tk_user_id key) \<noteq> None" "in_session (tk_user_id key) t1 a"
    using assms(1) in_session_create [OF assms(1)]
    by (auto simp: a_def create_in_session_def hm_get_update split: option.splits)
  have "hm_get (sm_thread_map m) k \<noteq> Some t1" for k
    using assms(5) by (auto simp: mapped_def hm_get_def dest!: map_of_SomeD intro: rev_image_eqI)
  then show ?thesis
    using assms(2) a unfolding Let_def a_def [symmetric]
    by (auto simp: resolve_lookup_def hm_get_insert in_session_create [OF a(1)], auto simp: a_def hm_get_insert split: if_splits)
qed

text \<open>Staleness is decided before the removal: a session that has become active in between is removed as well.\<close>

lemma active_session_pruned: "hm_get (sm_sessions (snd (prune_remove users ids m))) uid = None" if "uid \<in> set users"
  using that by (simp add: prune_remove_def Let_def hm_get_foldl_remove)

text \<open>Hydration does not ask whose conversation it loads: the history of any stored thread appears in the session of whoever names it.\<close>

lemma hydrate_loads_any_conversation:
  assumes "parse_str ext = Some tid" and "\<not> in_session uid tid m" and "db_chat_messages (list_messages tid) \<noteq> []"
  shows "\<exists>s th. hm_get (sm_sessions (maybe_hydrate_thread parse_str to_string (Some list_messages) sid now uid channel ext m)) uid = Some s
    \<and> threads s tid = Some th
    \<and> turns th = rebuild_turns (db_chat_messages (list_messages tid)) 0 now"
proof -
  obtain s m1 where get: "get_or_create_session sid now uid m = (s, m1)" by fastforce
  have "threads s tid = None"
    using get assms(2) by (auto simp: get_or_create_session_def Let_def in_session_def session_new_def split: option.splits)
  then show ?thesis
    using assms(1,3) by (simp add: maybe_hydrate_thread_def get Let_def register_thread_def hm_get_insert restore_from_messages_def)
qed

section \<open>Theorems\<close>



end
