(* ===== verification/Path_Guard.thy ===== *)
theory Path_Guard
  imports Prelude "HOL-Library.Sublist"
begin

text \<open>
  \<open>src/tools/builtin/path_utils.rs\<close>: lexical normalization of paths and the confinement of file
  tools to a base directory. A path is the list of its components, as \<open>Path::components\<close> gives them
  on Unix. The file system is an argument: which paths exist, what they canonicalize to, and the
  current directory.
\<close>

section \<open>Paths\<close>

datatype component = RootDir | CurDir | ParentDir | Normal string

type_synonym path = "component list"

definition component_of :: "string \<Rightarrow> component" where
  "component_of s = (if s = ''.'' then CurDir else if s = ''..'' then ParentDir else Normal s)"

text \<open>Empty pieces are skipped, and so is a dot except at the start of a relative path.\<close>

definition path_of :: "string \<Rightarrow> path" where
  "path_of s =
     (let cs = map component_of (filter (\<lambda>p. p \<noteq> []) (split_on (CHR ''/'') s))
      in if starts_with s ''/'' then RootDir # filter (\<lambda>c. c \<noteq> CurDir) cs
         else case cs of [] \<Rightarrow> [] | c # cs \<Rightarrow> c # filter (\<lambda>c. c \<noteq> CurDir) cs)"

definition is_absolute :: "path \<Rightarrow> bool" where
  "is_absolute p = (case p of RootDir # _ \<Rightarrow> True | _ \<Rightarrow> False)"

definition path_join :: "path \<Rightarrow> path \<Rightarrow> path" where
  "path_join base p =
     (if is_absolute p then p
      else if base = [] then p else base @ filter (\<lambda>c. c \<noteq> CurDir) p)"

definition path_starts_with :: "path \<Rightarrow> path \<Rightarrow> bool" where
  "path_starts_with p base = prefix base p"

definition path_parent :: "path \<Rightarrow> path option" where
  "path_parent p = (if p = [] \<or> p = [RootDir] then None else Some (butlast p))"

definition file_name :: "path \<Rightarrow> component option" where
  "file_name p = (if p = [] then None else case last p of Normal s \<Rightarrow> Some (Normal s) | _ \<Rightarrow> None)"

section \<open>Operations\<close>

fun normalize_into :: "path \<Rightarrow> path \<Rightarrow> path" where
  "normalize_into acc [] = acc"
| "normalize_into acc (ParentDir # cs) =
     (case rev acc of Normal _ # rest \<Rightarrow> normalize_into (rev rest) cs | _ \<Rightarrow> normalize_into acc cs)"
| "normalize_into acc (CurDir # cs) = normalize_into acc cs"
| "normalize_into acc (c # cs) = normalize_into (acc @ [c]) cs"

definition normalize_lexical :: "path \<Rightarrow> path" where
  "normalize_lexical p = normalize_into [] p"

definition is_path_safe_minimal :: "string \<Rightarrow> bool" where
  "is_path_safe_minimal p =
     (if CHR 0x00 \<in> set p then False
      else let lower = to_lowercase p
           in \<not> (contains_str lower ''%2e'' \<or> contains_str lower ''%2f'' \<or> contains_str lower ''%5c''))"

definition is_path_safe_basic :: "string \<Rightarrow> bool" where
  "is_path_safe_basic p =
     (if contains_str p ''..'' then False
      else if CHR 0x00 \<in> set p then False
      else let lower = to_lowercase p
           in \<not> (contains_str lower ''%2e'' \<or> contains_str lower ''%2f'' \<or> contains_str lower ''%5c''))"

record file_system =
  fs_exists :: "path \<Rightarrow> bool"
  fs_canonicalize :: "path \<Rightarrow> path option"
  fs_current_dir :: "path option"

datatype path_error = Forbidden_Sequences string | Escapes_Sandbox string

definition canonical_or :: "file_system \<Rightarrow> path \<Rightarrow> path \<Rightarrow> path" where
  "canonical_or fs p fallback = (case fs_canonicalize fs p of Some c \<Rightarrow> c | None \<Rightarrow> fallback)"

definition resolve_path :: "file_system \<Rightarrow> path \<Rightarrow> path option \<Rightarrow> path" where
  "resolve_path fs p base_dir =
     (if is_absolute p then canonical_or fs p (normalize_lexical p)
      else case base_dir of
             Some base \<Rightarrow> (let joined = path_join base p in canonical_or fs joined (normalize_lexical joined))
           | None \<Rightarrow>
               (let cwd = (case fs_current_dir fs of Some d \<Rightarrow> d | None \<Rightarrow> [CurDir])
                in normalize_lexical (path_join cwd p)))"

text \<open>The walk up to the nearest existing ancestor; \<open>tail\<close> holds the names passed on the way, last one first.\<close>

fun nearest_ancestor :: "file_system \<Rightarrow> path \<Rightarrow> path \<Rightarrow> path \<Rightarrow> path" where
  "nearest_ancestor fs resolved ancestor tail =
     (if fs_exists fs ancestor
      then foldl (\<lambda>r part. path_join r [part]) (canonical_or fs ancestor ancestor) (rev tail)
      else (let tail = (case file_name ancestor of Some n \<Rightarrow> tail @ [n] | None \<Rightarrow> tail)
            in if ancestor = [] \<or> ancestor = [RootDir] then resolved
               else nearest_ancestor fs resolved (butlast ancestor) tail))"

declare nearest_ancestor.simps [simp del]

definition check_path :: "file_system \<Rightarrow> path \<Rightarrow> path" where
  "check_path fs resolved =
     (if fs_exists fs resolved then canonical_or fs resolved resolved
      else nearest_ancestor fs resolved resolved [])"

definition validate_path :: "file_system \<Rightarrow> string \<Rightarrow> path option \<Rightarrow> path_error + path" where
  "validate_path fs path_str base_dir =
     (if \<not> is_path_safe_minimal path_str then Inl (Forbidden_Sequences path_str)
      else let resolved = resolve_path fs (path_of path_str) base_dir
           in case base_dir of
                None \<Rightarrow> Inr resolved
              | Some base \<Rightarrow>
                  (let base_canonical = canonical_or fs base (normalize_lexical base)
                   in if path_starts_with (check_path fs resolved) base_canonical then Inr resolved
                      else Inl (Escapes_Sandbox path_str)))"

section \<open>Normalization\<close>

definition lexically_clean :: "path \<Rightarrow> bool" where
  "lexically_clean p \<longleftrightarrow> ParentDir \<notin> set p \<and> CurDir \<notin> set p"

lemma normalize_into_clean: "lexically_clean acc \<Longrightarrow> lexically_clean (normalize_into acc p)"
proof (induction acc p rule: normalize_into.induct)
  case (2 acc cs)
  then show ?case
    by (cases acc rule: rev_cases) (auto simp: lexically_clean_def split: component.splits)
qed (auto simp: lexically_clean_def)

lemma normalize_lexical_clean: "lexically_clean (normalize_lexical p)"
  unfolding normalize_lexical_def by (rule normalize_into_clean) (simp add: lexically_clean_def)

lemma normalize_into_id: "lexically_clean p \<Longrightarrow> normalize_into acc p = acc @ p"
proof (induction p arbitrary: acc)
  case (Cons c p)
  then show ?case by (cases c) (auto simp: lexically_clean_def)
qed simp

lemma normalize_lexical_idem: "normalize_lexical (normalize_lexical p) = normalize_lexical p"
  using normalize_into_id [OF normalize_lexical_clean, of "[]"] by (simp add: normalize_lexical_def)

lemma normalize_into_append: "normalize_into acc (p @ q) = normalize_into (normalize_into acc p) q"
proof (induction acc p rule: normalize_into.induct)
  case (2 acc cs)
  then show ?case
    by (cases acc rule: rev_cases) (auto split: component.splits)
qed auto

text \<open>Climbing at most as far as the path has descended stays below the starting point.\<close>

fun climbs :: "nat \<Rightarrow> path \<Rightarrow> bool" where
  "climbs d [] = False"
| "climbs d (ParentDir # cs) = (case d of 0 \<Rightarrow> True | Suc d \<Rightarrow> climbs d cs)"
| "climbs d (Normal s # cs) = climbs (Suc d) cs"
| "climbs d (_ # cs) = climbs d cs"

lemma normalize_below:
  assumes "\<not> climbs (length acc) p" and "RootDir \<notin> set p" and "\<forall>c \<in> set acc. \<exists>s. c = Normal s"
  shows "\<exists>q. normalize_into (base @ acc) p = base @ q \<and> (\<forall>c \<in> set q. \<exists>s. c = Normal s)"
  using assms
proof (induction p arbitrary: acc)
  case (Cons c p)
  show ?case
  proof (cases c)
    case ParentDir
    then obtain xs x where "acc = xs @ [x]"
      using Cons.prems(1) by (cases acc rule: rev_cases) auto
    moreover from this obtain s where "x = Normal s"
      using Cons.prems(3) by auto
    ultimately show ?thesis
      using Cons.IH [of xs] Cons.prems ParentDir by auto
  next
    case (Normal s)
    then show ?thesis
      using Cons.IH [of "acc @ [Normal s]"] Cons.prems by auto
  qed (use Cons in auto)
qed auto

section \<open>Confinement\<close>

text \<open>What is relied on of canonicalization: its results are absolute and have no dot components.\<close>

definition fs_lawful :: "file_system \<Rightarrow> bool" where
  "fs_lawful fs \<longleftrightarrow> (\<forall>p q. fs_canonicalize fs p = Some q \<longrightarrow> lexically_clean q \<and> is_absolute q)"

lemma resolve_path_clean: "fs_lawful fs \<Longrightarrow> lexically_clean (resolve_path fs p base)"
  by (auto simp: resolve_path_def canonical_or_def Let_def fs_lawful_def normalize_lexical_clean split: option.splits)

lemma fs_lawful_nonempty: "fs_lawful fs \<Longrightarrow> fs_canonicalize fs p \<noteq> Some []"
  by (force simp: fs_lawful_def is_absolute_def)

lemma foldl_path_join:
  assumes "base \<noteq> []" and "\<forall>c \<in> set cs. \<exists>s. c = Normal s"
  shows "foldl (\<lambda>r part. path_join r [part]) base cs = base @ cs"
  using assms
proof (induction cs arbitrary: base)
  case (Cons c cs)
  from Cons.prems(2) obtain s where s: "c = Normal s" by auto
  have "path_join base [c] = base @ [c]"
    using Cons.prems(1) by (simp add: path_join_def is_absolute_def s)
  with Cons show ?case by simp
qed simp

text \<open>Where a path leads: the canonical form of its longest existing prefix, followed by the rest.\<close>

lemma nearest_ancestor_eq:
  assumes "resolved = a @ t" and "fs_exists fs a" and "a \<noteq> []" and "canonical_or fs a a \<noteq> []"
    and "\<forall>c \<in> set t. \<exists>s. c = Normal s"
    and "\<And>b. prefix a b \<Longrightarrow> prefix b (a @ t') \<Longrightarrow> b \<noteq> a \<Longrightarrow> \<not> fs_exists fs b"
    and "t = t' @ rev tail"
  shows "nearest_ancestor fs resolved (a @ t') tail = canonical_or fs a a @ t"
  using assms(6,7)
proof (induction t' arbitrary: tail rule: rev_induct)
  case Nil
  then have "rev tail = t" by simp
  then show ?case
    using assms(2) foldl_path_join [OF assms(4,5)] by (simp add: nearest_ancestor.simps)
next
  case (snoc c t')
  from snoc.prems(2) assms(5) obtain s where s: "c = Normal s" by auto
  have "\<not> fs_exists fs (a @ t' @ [c])"
    using snoc.prems(1) [of "a @ t' @ [c]"] by simp
  moreover have "file_name (a @ t' @ [c]) = Some c"
    by (simp add: file_name_def s)
  moreover have "a @ t' @ [c] \<noteq> [RootDir]"
    using assms(3) by (cases a) auto
  moreover have "butlast (a @ t' @ [c]) = a @ t'"
    by (metis append_assoc butlast_snoc)
  ultimately have "nearest_ancestor fs resolved (a @ t' @ [c]) tail = nearest_ancestor fs resolved (a @ t') (tail @ [c])"
    using assms(3) by (subst nearest_ancestor.simps) simp
  also have "\<dots> = canonical_or fs a a @ t"
  proof (rule snoc.IH)
    show "\<not> fs_exists fs b" if "prefix a b" "prefix b (a @ t')" "b \<noteq> a" for b
      using snoc.prems(1) [of b] that prefix_order.trans [OF that(2), of "a @ t' @ [c]"] by simp
  qed (use snoc.prems in simp)
  finally show ?case by simp
qed

section \<open>Theorems\<close>

text \<open>
  C20. A path accepted for a base directory leads into it: it has no dot components left, and the
  canonical form of its longest existing prefix, followed by the rest, starts with the canonical
  base directory.
\<close>

theorem validated_path_confined:
  assumes "fs_lawful fs" and "validate_path fs path_str (Some base) = Inr resolved"
    and "resolved = a @ t" and "fs_exists fs a" and "a \<noteq> []" and "\<forall>c \<in> set t. \<exists>s. c = Normal s"
    and "\<And>b. prefix a b \<Longrightarrow> prefix b resolved \<Longrightarrow> b \<noteq> a \<Longrightarrow> \<not> fs_exists fs b"
  shows "lexically_clean resolved
    \<and> prefix (canonical_or fs base (normalize_lexical base)) (canonical_or fs a a @ t)"
proof -
  have "resolved = resolve_path fs (path_of path_str) (Some base)"
    and inside: "prefix (canonical_or fs base (normalize_lexical base)) (check_path fs resolved)"
    using assms(2) by (auto simp: validate_path_def Let_def path_starts_with_def split: if_splits)
  then have clean: "lexically_clean resolved"
    using resolve_path_clean [OF assms(1)] by simp
  have "canonical_or fs a a \<noteq> []"
    using assms(1,5) fs_lawful_nonempty [OF assms(1)] by (auto simp: canonical_or_def split: option.splits)
  then have "check_path fs resolved = canonical_or fs a a @ t"
    using nearest_ancestor_eq [OF assms(3-5) _ assms(6), of t "[]"] assms(3,4,7)
    by (cases "t = []") (auto simp: check_path_def)
  with inside clean show ?thesis by simp
qed

theorem validated_path_confined_witness:
  "\<exists>fs. validate_path fs ''d/../x'' (Some [RootDir, Normal ''b'']) = Inr [RootDir, Normal ''b'', Normal ''x'']
    \<and> lexically_clean [RootDir, Normal ''b'', Normal ''x'']
    \<and> prefix (canonical_or fs [RootDir, Normal ''b''] (normalize_lexical [RootDir, Normal ''b'']))
        (canonical_or fs [RootDir, Normal ''b''] [RootDir, Normal ''b''] @ [Normal ''x''])"
proof -
  define fs where "fs = \<lparr>fs_exists = (\<lambda>p. p \<in> {[RootDir], [RootDir, Normal ''b'']}),
    fs_canonicalize = (\<lambda>p. if p = [RootDir, Normal ''b''] then Some [RootDir, Normal ''r''] else None),
    fs_current_dir = Some [RootDir]\<rparr>"
  have accepted: "validate_path fs ''d/../x'' (Some [RootDir, Normal ''b'']) = Inr [RootDir, Normal ''b'', Normal ''x'']"
    unfolding fs_def by code_simp
  have nothing_below: "\<not> fs_exists fs b"
    if "prefix [RootDir, Normal ''b''] b" "b \<noteq> [RootDir, Normal ''b'']" for b
    using that by (auto simp: fs_def)
  have "fs_lawful fs"
    by (simp add: fs_lawful_def fs_def lexically_clean_def is_absolute_def)
  from validated_path_confined [OF this accepted, of "[RootDir, Normal ''b'']" "[Normal ''x'']"]
  have "lexically_clean [RootDir, Normal ''b'', Normal ''x'']
    \<and> prefix (canonical_or fs [RootDir, Normal ''b''] (normalize_lexical [RootDir, Normal ''b'']))
        (canonical_or fs [RootDir, Normal ''b''] [RootDir, Normal ''b''] @ [Normal ''x''])"
    using nothing_below by (simp add: fs_def)
  with accepted show ?thesis by blast
qed

text \<open>
  With nothing on disk, a relative path that never climbs above its starting point is accepted
  for every base directory without dot components, and resolves to a path below it.
\<close>

lemma climbs_filter: "climbs d (filter (\<lambda>c. c \<noteq> CurDir) p) = climbs d p"
  by (induction d p rule: climbs.induct) (auto split: nat.splits)

lemma nearest_ancestor_none:
  assumes "fs_exists fs = (\<lambda>_. False)" and "p = [] \<or> is_absolute p"
  shows "nearest_ancestor fs r p t = r"
  using assms(2)
proof (induction p arbitrary: t rule: rev_induct)
  case Nil
  then show ?case by (simp add: assms(1) nearest_ancestor.simps)
next
  case (snoc c p)
  then have "p = [] \<or> is_absolute p"
    by (cases p) (auto simp: is_absolute_def split: list.splits)
  then show ?case
    using snoc.IH by (subst nearest_ancestor.simps) (simp add: assms(1))
qed

theorem relative_path_accepted:
  assumes "fs_canonicalize fs = (\<lambda>_. None)" and "fs_exists fs = (\<lambda>_. False)"
    and "is_path_safe_minimal path_str" and "\<not> climbs 0 (path_of path_str)" and "RootDir \<notin> set (path_of path_str)"
    and "is_absolute base" and "lexically_clean base"
  shows "\<exists>q. validate_path fs path_str (Some base) = Inr (base @ q) \<and> (\<forall>c \<in> set q. \<exists>s. c = Normal s)"
proof -
  let ?p = "path_of path_str" and ?f = "filter (\<lambda>c. c \<noteq> CurDir)"
  have rel: "\<not> is_absolute ?p"
    using assms(5) by (auto simp: is_absolute_def split: list.splits component.splits)
  have base: "base \<noteq> []"
    using assms(6) by (auto simp: is_absolute_def)
  obtain q where q: "normalize_into (base @ []) (?f ?p) = base @ q" "\<forall>c \<in> set q. \<exists>s. c = Normal s"
    using normalize_below [of "[]" "?f ?p" base] assms(4,5) by (auto simp: climbs_filter)
  have "normalize_lexical (base @ ?f ?p) = base @ q"
    using q(1) by (simp add: normalize_lexical_def normalize_into_append normalize_into_id assms(7))
  then have r: "resolve_path fs ?p (Some base) = base @ q"
    using rel base by (simp add: resolve_path_def canonical_or_def assms(1) path_join_def)
  have "is_absolute (base @ q)"
    using assms(6) base by (cases base) (auto simp: is_absolute_def split: component.splits)
  then have "check_path fs (base @ q) = base @ q"
    by (simp add: check_path_def assms(2) nearest_ancestor_none)
  moreover have "normalize_lexical base = base"
    by (simp add: normalize_lexical_def normalize_into_id assms(7))
  ultimately have "validate_path fs path_str (Some base) = Inr (base @ q)"
    by (simp add: validate_path_def assms(1,3) r canonical_or_def path_starts_with_def)
  with q(2) show ?thesis by blast
qed

end
