(* ===== verification/Tool_Types.thy ===== *)
theory Tool_Types
  imports Prelude
begin

text \<open>
  What the built-in tools share: the errors and outputs of tools and the extraction of parameters
  (\<open>src/tools/tool.rs\<close>), and the string utilities of \<open>src/util.rs\<close>.
\<close>

section \<open>Errors, outputs and parameters\<close>

datatype tool_error =
    InvalidParameters string
  | ExecutionFailed string
  | Timeout duration
  | NotAuthorized string
  | RateLimited "duration option"
  | ExternalService string
  | SandboxError string

record tool_output =
  to_result :: json
  to_cost :: "rat option"
  to_duration :: duration
  to_raw :: "string option"

definition tool_success :: "json \<Rightarrow> duration \<Rightarrow> tool_output" where
  "tool_success result d = \<lparr>to_result = result, to_cost = None, to_duration = d, to_raw = None\<rparr>"

definition tool_text :: "string \<Rightarrow> duration \<Rightarrow> tool_output" where
  "tool_text t d = \<lparr>to_result = JString t, to_cost = None, to_duration = d, to_raw = None\<rparr>"

definition with_cost :: "rat \<Rightarrow> tool_output \<Rightarrow> tool_output" where
  "with_cost c out = out\<lparr>to_cost := Some c\<rparr>"

definition with_raw :: "string \<Rightarrow> tool_output \<Rightarrow> tool_output" where
  "with_raw r out = out\<lparr>to_raw := Some r\<rparr>"

definition missing_parameter :: "string \<Rightarrow> tool_error" where
  "missing_parameter name = InvalidParameters (''missing '' @ [CHR 0x27] @ name @ [CHR 0x27] @ '' parameter'')"

definition require_str :: "json \<Rightarrow> string \<Rightarrow> tool_error + string" where
  "require_str params name =
     (case Option.bind (json_get params name) as_str of Some s \<Rightarrow> Inr s | None \<Rightarrow> Inl (missing_parameter name))"

definition require_param :: "json \<Rightarrow> string \<Rightarrow> tool_error + json" where
  "require_param params name = (case json_get params name of Some v \<Rightarrow> Inr v | None \<Rightarrow> Inl (missing_parameter name))"

text \<open>\<open>Value::as_u64\<close>: a number literal of digits only, in the range of the type.\<close>

definition is_digit :: "char \<Rightarrow> bool" where
  "is_digit c = (let n = of_char c :: nat in 48 \<le> n \<and> n \<le> 57)"

definition digits_value :: "string \<Rightarrow> nat" where
  "digits_value s = foldl (\<lambda>v c. 10 * v + (of_char c - 48)) 0 s"

fun as_u64 :: "json \<Rightarrow> nat option" where
  "as_u64 (JNumber l) = (if l \<noteq> [] \<and> list_all is_digit l \<and> digits_value l < 2 ^ 64 then Some (digits_value l) else None)"
| "as_u64 _ = None"

definition show_int :: "int \<Rightarrow> string" where
  "show_int i = (if i < 0 then ''-'' @ show_nat (nat (- i)) else show_nat (nat i))"

section \<open>Utilities\<close>

definition floor_char_boundary :: "string \<Rightarrow> nat \<Rightarrow> nat" where
  "floor_char_boundary s pos = (if pos \<ge> length s then length s else boundary_before s pos)"

definition positive_phrases :: "string list" where
  "positive_phrases =
     [''job is complete'', ''job is done'', ''job is finished'', ''task is complete'', ''task is done'', ''task is finished'',
      ''work is complete'', ''work is done'', ''work is finished'', ''successfully completed'', ''have completed the job'',
      ''have completed the task'', ''have finished the job'', ''have finished the task'', ''all steps are complete'',
      ''all steps are done'', ''i have completed'', ''i'' @ [CHR 0x27] @ ''ve completed'', ''all done'', ''all tasks complete'']"

definition negative_phrases :: "string list" where
  "negative_phrases =
     [''not complete'', ''not done'', ''not finished'', ''incomplete'', ''unfinished'',
      ''isn'' @ [CHR 0x27] @ ''t done'', ''isn'' @ [CHR 0x27] @ ''t complete'', ''isn'' @ [CHR 0x27] @ ''t finished'',
      ''not yet done'', ''not yet complete'', ''not yet finished'']"

definition llm_signals_completion :: "string \<Rightarrow> bool" where
  "llm_signals_completion response =
     (let lower = to_lowercase response
      in if list_ex (contains_str lower) negative_phrases then False
         else list_ex (contains_str lower) positive_phrases)"

section \<open>Facts\<close>

lemma floor_char_boundary_le: "floor_char_boundary s pos \<le> pos"
  by (simp add: floor_char_boundary_def boundary_before_le)

lemma floor_char_boundary_boundary: "is_char_boundary s (floor_char_boundary s pos)"
  by (auto simp: floor_char_boundary_def boundary_before_boundary) (simp add: is_char_boundary_def)

text \<open>In UTF-8 a character has at most four bytes, so a boundary is at most three bytes away.\<close>

definition utf8_spaced :: "string \<Rightarrow> bool" where
  "utf8_spaced s \<longleftrightarrow> (\<forall>i < length s. \<exists>j \<le> 3. j \<le> i \<and> \<not> is_continuation (s ! (i - j)))"

lemma floor_char_boundary_near:
  assumes "utf8_spaced s" and "pos \<le> length s"
  shows "pos \<le> floor_char_boundary s pos + 3"
proof (cases "pos < length s")
  case True
  then obtain j where j: "j \<le> 3" "j \<le> pos" "\<not> is_continuation (s ! (pos - j))"
    using assms(1) by (auto simp: utf8_spaced_def)
  then have "is_char_boundary s (pos - j)"
    using True by (auto simp: is_char_boundary_def)
  then have "\<not> boundary_before s pos < pos - j"
    using boundary_before_last [of s pos "pos - j"] by auto
  with j True show ?thesis by (simp add: floor_char_boundary_def)
qed (use assms(2) in \<open>simp add: floor_char_boundary_def\<close>)

text \<open>A negative phrase overrides every claim of completion, and case does not matter.\<close>

lemma negative_phrase_wins:
  "p \<in> set negative_phrases \<Longrightarrow> contains_str (to_lowercase r) p \<Longrightarrow> \<not> llm_signals_completion r"
  by (auto simp: llm_signals_completion_def list_ex_iff Let_def)

lemma completion_case_insensitive: "llm_signals_completion (to_lowercase r) = llm_signals_completion r"
  by (simp add: llm_signals_completion_def)

end
