(* ===== verification/Tool_Schema.thy ===== *)
theory Tool_Schema
  imports Prelude
begin

text \<open>
  The two validators of tool parameter schemas: the lenient \<open>validate_tool_schema\<close> of
  \<open>src/tools/tool.rs\<close> and the strict \<open>validate_strict_schema\<close> of \<open>src/tools/schema_validator.rs\<close>.
  Both walk a JSON value of any depth and list the violations in order. What they accept is
  characterised by two inductive predicates on schemas.
\<close>

section \<open>Schema nodes\<close>

definition type_of :: "json \<Rightarrow> string option" where
  "type_of s = Option.bind (json_get s ''type'') as_str"

definition properties_of :: "json \<Rightarrow> (string \<times> json) list option" where
  "properties_of s = Option.bind (json_get s ''properties'') as_object"

definition quoted :: "string \<Rightarrow> string" where
  "quoted s = [CHR 0x22] @ s @ [CHR 0x22]"

text \<open>The first two rules: an object type, and properties that are an object.\<close>

definition object_properties :: "json \<Rightarrow> string \<Rightarrow> string + (string \<times> json) list" where
  "object_properties schema path =
     (case type_of schema of
        None \<Rightarrow> Inl (path @ '': missing '' @ quoted ''type'' @ '': '' @ quoted ''object'')
      | Some t \<Rightarrow>
          (if t \<noteq> ''object'' then Inl (path @ '': expected type '' @ quoted ''object'' @ '', got '' @ quoted t)
           else case properties_of schema of
                  None \<Rightarrow> Inl (path @ '': missing or non-object '' @ quoted ''properties'')
                | Some ps \<Rightarrow> Inr ps))"

definition required_keys :: "json \<Rightarrow> string list" where
  "required_keys schema =
     (case Option.bind (json_get schema ''required'') as_array of
        Some rs \<Rightarrow> List.map_filter as_str rs
      | None \<Rightarrow> [])"

definition required_errors :: "json \<Rightarrow> string \<Rightarrow> (string \<times> json) list \<Rightarrow> string list" where
  "required_errors schema path properties =
     map (\<lambda>k. path @ '': required key '' @ quoted k @ '' not found in properties'')
       (filter (\<lambda>k. k \<notin> fst ` set properties) (required_keys schema))"

lemma size_map_of:
  assumes "map_of kvs k = Some (v :: json)"
  shows "size v < size (JObject kvs)"
proof -
  have "size_prod (\<lambda>_. 0) size (k, v) \<le> size_list (size_prod (\<lambda>_. 0) size) kvs"
    by (rule size_list_estimation' [OF map_of_SomeD [OF assms]]) simp
  then show ?thesis by simp
qed

lemma size_json_get: "json_get s k = Some v \<Longrightarrow> size v < size s"
  by (cases s) (auto dest: size_map_of)

lemma size_properties:
  assumes "properties_of s = Some ps" and "(k, p) \<in> set ps"
  shows "size p < size s"
proof -
  from assms(1) obtain j where j: "json_get s ''properties'' = Some j" "as_object j = Some ps"
    by (auto simp: properties_of_def bind_eq_Some_conv)
  then have "j = JObject ps" by (cases j) auto
  moreover have "size_prod (\<lambda>_. 0) size (k, p) \<le> size_list (size_prod (\<lambda>_. 0) size) ps"
    by (rule size_list_estimation' [OF assms(2)]) simp
  ultimately have "size p < size j" by simp
  with size_json_get [OF j(1)] show ?thesis by simp
qed

lemma object_properties_Inr:
  "object_properties s path = Inr ps \<longleftrightarrow> type_of s = Some ''object'' \<and> properties_of s = Some ps"
  by (auto simp: object_properties_def split: option.splits)

section \<open>The lenient validator\<close>

function validate_tool_schema :: "json \<Rightarrow> string \<Rightarrow> string list" where
  "validate_tool_schema schema path =
     (case object_properties schema path of
        Inl e \<Rightarrow> [e]
      | Inr properties \<Rightarrow>
          required_errors schema path properties
          @ concat (map (\<lambda>(key, prop).
              (let prop_path = path @ ''.'' @ key
               in case type_of prop of
                    None \<Rightarrow> []
                  | Some t \<Rightarrow>
                      (if t = ''object'' then validate_tool_schema prop prop_path
                       else if t = ''array''
                       then (case json_get prop ''items'' of
                               Some items \<Rightarrow>
                                 (if type_of items = Some ''object''
                                  then validate_tool_schema items (prop_path @ ''.items'') else [])
                             | None \<Rightarrow> [prop_path @ '': array property missing '' @ quoted ''items''])
                       else []))) properties))"
  by pat_completeness auto

termination
  by (relation "measure (size \<circ> fst)")
     (auto simp: object_properties_Inr dest: size_properties order.strict_trans [OF size_json_get size_properties])

declare validate_tool_schema.simps [simp del]

section \<open>The strict validator\<close>

definition bad_additional :: "json \<Rightarrow> bool" where
  "bad_additional s =
     (case json_get s ''additionalProperties'' of
        Some a \<Rightarrow> a \<noteq> JBool False \<and> json_get a ''type'' = None
      | None \<Rightarrow> False)"

fun enum_value_ok :: "string \<Rightarrow> json \<Rightarrow> bool" where
  "enum_value_ok t v =
     (if t = ''string'' then (case v of JString _ \<Rightarrow> True | _ \<Rightarrow> False)
      else if t = ''integer'' \<or> t = ''number'' then (case v of JNumber _ \<Rightarrow> True | _ \<Rightarrow> False)
      else if t = ''boolean'' then (case v of JBool _ \<Rightarrow> True | _ \<Rightarrow> False)
      else True)"

definition enum_values :: "json \<Rightarrow> json list" where
  "enum_values prop = (case Option.bind (json_get prop ''enum'') as_array of Some vs \<Rightarrow> vs | None \<Rightarrow> [])"

definition enum_errors :: "(json \<Rightarrow> string) \<Rightarrow> string \<Rightarrow> string \<Rightarrow> json \<Rightarrow> string list" where
  "enum_errors show_json prop_path t prop =
     map (\<lambda>(i, v). prop_path @ '': enum['' @ show_nat i @ ''] value '' @ show_json v
                     @ '' does not match declared type '' @ quoted t)
       (filter (\<lambda>(i, v). \<not> enum_value_ok t v) (enumerate 0 (enum_values prop)))"

definition is_map_schema :: "json \<Rightarrow> bool" where
  "is_map_schema prop \<longleftrightarrow> json_get prop ''additionalProperties'' \<noteq> None \<and> json_get prop ''properties'' = None"

function check_object_schema :: "(json \<Rightarrow> string) \<Rightarrow> json \<Rightarrow> string \<Rightarrow> string list" where
  "check_object_schema show_json schema path =
     (case object_properties schema path of
        Inl e \<Rightarrow> [e]
      | Inr properties \<Rightarrow>
          required_errors schema path properties
          @ concat (map (\<lambda>(key, prop).
              (let prop_path = path @ ''.'' @ key
               in if json_get prop ''type'' = None then []
                  else let prop_type = (case type_of prop of Some t \<Rightarrow> t | None \<Rightarrow> [])
                  in (if bad_additional prop
                      then [prop_path @ '': '' @ quoted ''additionalProperties'' @ '' should be false or a type schema'']
                      else [])
                     @ enum_errors show_json prop_path prop_type prop
                     @ (if prop_type = ''object''
                        then (if is_map_schema prop then [] else check_object_schema show_json prop prop_path)
                        else [])
                     @ (if prop_type = ''array''
                        then (case json_get prop ''items'' of
                                None \<Rightarrow> [prop_path @ '': array property missing '' @ quoted ''items'']
                              | Some items \<Rightarrow>
                                  (if type_of items = Some ''object''
                                   then check_object_schema show_json items (prop_path @ ''.items'') else []))
                        else []))) properties)
          @ (if bad_additional schema
             then [path @ '': top-level '' @ quoted ''additionalProperties'' @ '' should be false or a type schema'']
             else []))"
  by pat_completeness auto

termination
  by (relation "measure (size \<circ> fst \<circ> snd)")
     (auto simp: object_properties_Inr dest: size_properties order.strict_trans [OF size_json_get size_properties])

declare check_object_schema.simps [simp del]

definition validate_strict_schema :: "(json \<Rightarrow> string) \<Rightarrow> json \<Rightarrow> string \<Rightarrow> string list + unit" where
  "validate_strict_schema show_json schema tool_name =
     (let errors = check_object_schema show_json schema tool_name
      in if errors = [] then Inr () else Inl errors)"

section \<open>Nodes of a schema\<close>

text \<open>
  The object nodes directly below a schema: its properties of type object, unless they are skipped,
  and the items of type object of its array properties.
\<close>

inductive schema_child :: "(json \<Rightarrow> bool) \<Rightarrow> json \<Rightarrow> json \<Rightarrow> bool" for skip where
  child_object: "properties_of s = Some ps \<Longrightarrow> (k, p) \<in> set ps \<Longrightarrow> type_of p = Some ''object'' \<Longrightarrow> \<not> skip p
    \<Longrightarrow> schema_child skip s p"
| child_items: "properties_of s = Some ps \<Longrightarrow> (k, p) \<in> set ps \<Longrightarrow> type_of p = Some ''array''
    \<Longrightarrow> json_get p ''items'' = Some i \<Longrightarrow> type_of i = Some ''object'' \<Longrightarrow> schema_child skip s i"

inductive_simps schema_child_iff: "schema_child skip s c"

definition lenient_node :: "json \<Rightarrow> bool" where
  "lenient_node s \<longleftrightarrow> type_of s = Some ''object'' \<and>
     (\<exists>ps. properties_of s = Some ps \<and> set (required_keys s) \<subseteq> fst ` set ps
       \<and> (\<forall>(k, p) \<in> set ps. type_of p = Some ''array'' \<longrightarrow> json_get p ''items'' \<noteq> None))"

definition declared_type :: "json \<Rightarrow> string" where
  "declared_type p = (case type_of p of Some t \<Rightarrow> t | None \<Rightarrow> [])"

definition strict_node :: "json \<Rightarrow> bool" where
  "strict_node s \<longleftrightarrow> lenient_node s \<and> \<not> bad_additional s \<and>
     (\<forall>(k, p) \<in> set (the (properties_of s)). json_get p ''type'' \<noteq> None \<longrightarrow>
        \<not> bad_additional p \<and> (\<forall>v \<in> set (enum_values p). enum_value_ok (declared_type p) v))"

lemma required_errors_Nil: "required_errors s path ps = [] \<longleftrightarrow> set (required_keys s) \<subseteq> fst ` set ps"
  by (auto simp: required_errors_def filter_empty_conv)

lemma enum_errors_Nil: "enum_errors sj pp t p = [] \<longleftrightarrow> (\<forall>v \<in> set (enum_values p). enum_value_ok t v)"
  by (auto simp: enum_errors_def filter_empty_conv nth_enumerate_eq all_set_conv_all_nth split_beta
      simp del: enum_value_ok.simps)

lemma concat_map_pair_Nil: "concat (map (\<lambda>(k, p). f k p) ps) = [] \<longleftrightarrow> (\<forall>(k, p) \<in> set ps. f k p = [])"
  by auto

lemma singleton_if_Nil: "(if b then [x] else []) = [] \<longleftrightarrow> \<not> b"
  by simp

lemma type_of_present: "type_of p = Some t \<Longrightarrow> json_get p ''type'' \<noteq> None"
  by (auto simp: type_of_def bind_eq_Some_conv)

lemma all_nodes_unfold:
  "(\<forall>t. (schema_child skip)\<^sup>*\<^sup>* s t \<longrightarrow> P t) \<longleftrightarrow> P s \<and> (\<forall>c. schema_child skip s c \<longrightarrow> (\<forall>t. (schema_child skip)\<^sup>*\<^sup>* c t \<longrightarrow> P t))"
proof -
  have "(schema_child skip)\<^sup>*\<^sup>* s t \<longleftrightarrow> t = s \<or> (\<exists>c. schema_child skip s c \<and> (schema_child skip)\<^sup>*\<^sup>* c t)" for t
    by (blast elim: converse_rtranclpE intro: converse_rtranclp_into_rtranclp)
  then show ?thesis by auto
qed

text \<open>One level of each validator: the node itself, and no error from any child.\<close>

lemma validate_tool_schema_level:
  "validate_tool_schema s path = [] \<longleftrightarrow>
     lenient_node s \<and> (\<forall>ps k p. properties_of s = Some ps \<longrightarrow> (k, p) \<in> set ps \<longrightarrow>
       (type_of p = Some ''object'' \<longrightarrow> validate_tool_schema p (path @ ''.'' @ k) = [])
       \<and> (\<forall>i. type_of p = Some ''array'' \<longrightarrow> json_get p ''items'' = Some i \<longrightarrow> type_of i = Some ''object'' \<longrightarrow>
            validate_tool_schema i ((path @ ''.'' @ k) @ ''.items'') = []))"
proof (cases "object_properties s path")
  case (Inl e)
  then show ?thesis
    by (subst validate_tool_schema.simps) (auto simp: lenient_node_def object_properties_def split: option.splits if_splits)
next
  case (Inr ps)
  then have ps: "type_of s = Some ''object''" "properties_of s = Some ps"
    by (auto simp: object_properties_Inr)
  show ?thesis
    unfolding validate_tool_schema.simps [of s] Inr sum.case lenient_node_def ps
    by (auto simp: required_errors_Nil Let_def split: option.splits if_splits)
qed

lemma check_object_schema_level:
  "check_object_schema sj s path = [] \<longleftrightarrow>
     strict_node s \<and> (\<forall>ps k p. properties_of s = Some ps \<longrightarrow> (k, p) \<in> set ps \<longrightarrow>
       (type_of p = Some ''object'' \<longrightarrow> \<not> is_map_schema p \<longrightarrow> check_object_schema sj p (path @ ''.'' @ k) = [])
       \<and> (\<forall>i. type_of p = Some ''array'' \<longrightarrow> json_get p ''items'' = Some i \<longrightarrow> type_of i = Some ''object'' \<longrightarrow>
            check_object_schema sj i ((path @ ''.'' @ k) @ ''.items'') = []))"
proof (cases "object_properties s path")
  case (Inl e)
  then show ?thesis
    by (subst check_object_schema.simps)
       (auto simp: strict_node_def lenient_node_def object_properties_def split: option.splits if_splits)
next
  case (Inr ps)
  then have ps: "type_of s = Some ''object''" "properties_of s = Some ps"
    by (auto simp: object_properties_Inr)
  let ?fine = "\<lambda>k p. json_get p ''type'' \<noteq> None \<longrightarrow> \<not> bad_additional p
    \<and> (\<forall>v \<in> set (enum_values p). enum_value_ok (declared_type p) v)
    \<and> (type_of p = Some ''object'' \<longrightarrow> \<not> is_map_schema p \<longrightarrow> check_object_schema sj p (path @ ''.'' @ k) = [])
    \<and> (type_of p = Some ''array'' \<longrightarrow> (\<exists>i. json_get p ''items'' = Some i
        \<and> (type_of i = Some ''object'' \<longrightarrow> check_object_schema sj i ((path @ ''.'' @ k) @ ''.items'') = [])))"
  let ?body = "\<lambda>k p. let prop_path = path @ ''.'' @ k
      in if json_get p ''type'' = None then []
         else let prop_type = (case type_of p of Some t \<Rightarrow> t | None \<Rightarrow> [])
         in (if bad_additional p
             then [prop_path @ '': '' @ quoted ''additionalProperties'' @ '' should be false or a type schema'']
             else [])
            @ enum_errors sj prop_path prop_type p
            @ (if prop_type = ''object''
               then (if is_map_schema p then [] else check_object_schema sj p prop_path)
               else [])
            @ (if prop_type = ''array''
               then (case json_get p ''items'' of
                       None \<Rightarrow> [prop_path @ '': array property missing '' @ quoted ''items'']
                     | Some items \<Rightarrow>
                         (if type_of items = Some ''object''
                          then check_object_schema sj items (prop_path @ ''.items'') else []))
               else [])"
  have body: "?body k p = [] \<longleftrightarrow> ?fine k p" for k p
    by (cases "type_of p"; cases "json_get p ''items''")
       (simp_all add: Let_def enum_errors_Nil declared_type_def del: enum_value_ok.simps)
  have "check_object_schema sj s path = [] \<longleftrightarrow>
      set (required_keys s) \<subseteq> fst ` set ps \<and> (\<forall>(k, p) \<in> set ps. ?body k p = []) \<and> \<not> bad_additional s"
    by (simp only: check_object_schema.simps [of sj s] Inr sum.case append_is_Nil_conv concat_map_pair_Nil
        required_errors_Nil singleton_if_Nil)
  also have "\<dots> \<longleftrightarrow> set (required_keys s) \<subseteq> fst ` set ps \<and> \<not> bad_additional s \<and> (\<forall>(k, p) \<in> set ps. ?fine k p)"
    unfolding body by blast
  also have "\<dots> \<longleftrightarrow> strict_node s \<and> (\<forall>(k, p) \<in> set ps.
       (type_of p = Some ''object'' \<longrightarrow> \<not> is_map_schema p \<longrightarrow> check_object_schema sj p (path @ ''.'' @ k) = [])
       \<and> (\<forall>i. type_of p = Some ''array'' \<longrightarrow> json_get p ''items'' = Some i \<longrightarrow> type_of i = Some ''object'' \<longrightarrow>
            check_object_schema sj i ((path @ ''.'' @ k) @ ''.items'') = []))"
    unfolding strict_node_def lenient_node_def ps option.sel
    by (auto dest: type_of_present simp del: enum_value_ok.simps) fastforce
  finally show ?thesis using ps(2) by auto
qed

lemma tool_schema_nodes:
  "validate_tool_schema s path = [] \<longleftrightarrow> (\<forall>t. (schema_child (\<lambda>_. False))\<^sup>*\<^sup>* s t \<longrightarrow> lenient_node t)"
proof (induction "size s" arbitrary: s path rule: less_induct)
  case less
  have step: "validate_tool_schema c p = [] \<longleftrightarrow> (\<forall>t. (schema_child (\<lambda>_. False))\<^sup>*\<^sup>* c t \<longrightarrow> lenient_node t)"
    if "schema_child (\<lambda>_. False) s c" for c p
    using less that by (fastforce simp: schema_child_iff dest: size_properties size_json_get)
  show ?case
    unfolding validate_tool_schema_level [of s] all_nodes_unfold [of _ s]
    using step by (auto simp: schema_child_iff; blast)
qed

lemma strict_schema_nodes:
  "validate_strict_schema sj s name = Inr () \<longleftrightarrow> (\<forall>t. (schema_child is_map_schema)\<^sup>*\<^sup>* s t \<longrightarrow> strict_node t)"
proof -
  have "check_object_schema sj s path = [] \<longleftrightarrow> (\<forall>t. (schema_child is_map_schema)\<^sup>*\<^sup>* s t \<longrightarrow> strict_node t)" for path
  proof (induction "size s" arbitrary: s path rule: less_induct)
    case less
    have step: "check_object_schema sj c p = [] \<longleftrightarrow> (\<forall>t. (schema_child is_map_schema)\<^sup>*\<^sup>* c t \<longrightarrow> strict_node t)"
      if "schema_child is_map_schema s c" for c p
      using less that by (fastforce simp: schema_child_iff dest: size_properties size_json_get)
    show ?case
      unfolding check_object_schema_level [of sj s] all_nodes_unfold [of _ s]
      using step by (auto simp: schema_child_iff; blast)
  qed
  then show ?thesis
    by (simp add: validate_strict_schema_def Let_def)
qed

text \<open>
  A strictly valid schema without map schemas is leniently valid. With a map schema it need not be,
  and a property without a type passes the strict validator.
\<close>

lemma strict_implies_lenient:
  assumes "validate_strict_schema sj s name = Inr ()"
    and "\<And>t. (schema_child (\<lambda>_. False))\<^sup>*\<^sup>* s t \<Longrightarrow> \<not> is_map_schema t"
  shows "validate_tool_schema s path = []"
proof -
  have "(schema_child is_map_schema)\<^sup>*\<^sup>* s t" if "(schema_child (\<lambda>_. False))\<^sup>*\<^sup>* s t" for t
    using that
  proof (induction rule: rtranclp_induct)
    case (step t u)
    then have "schema_child is_map_schema t u"
      using assms(2) [of u] rtranclp.rtrancl_into_rtrancl [OF step.hyps] by (auto elim!: schema_child.cases intro: schema_child.intros)
    with step.IH show ?case by simp
  qed simp
  then show ?thesis
    using assms(1) by (auto simp: tool_schema_nodes strict_schema_nodes strict_node_def)
qed

lemma strict_not_stronger:
  "\<exists>s. validate_strict_schema sj s ''t'' = Inr () \<and> validate_tool_schema s ''t'' \<noteq> []"
  by (rule exI [of _ "JObject [(''type'', JString ''object''), (''properties'', JObject [(''m'',
       JObject [(''type'', JString ''object''), (''additionalProperties'', JObject [(''type'', JString ''string'')])])])]"])
     (simp add: validate_strict_schema_def check_object_schema.simps validate_tool_schema.simps object_properties_def
       type_of_def properties_of_def required_errors_def required_keys_def bad_additional_def is_map_schema_def
       enum_errors_def enum_values_def Let_def)

lemma strict_allows_untyped:
  "validate_strict_schema sj (JObject [(''type'', JString ''object''), (''properties'', JObject [(''p'', JObject [])])]) ''t'' = Inr ()"
  by (simp add: validate_strict_schema_def check_object_schema.simps object_properties_def type_of_def
      properties_of_def required_errors_def required_keys_def bad_additional_def Let_def)

section \<open>Theorems\<close>



end
