(* ===== verification/Shell_Guard.thy ===== *)
theory Shell_Guard
  imports Tool_Types Preflight
begin

text \<open>
  \<open>src/tools/builtin/shell.rs\<close>: the checks a shell command passes before it runs, where it runs and
  with which environment, and the approval it requires. The Docker sandbox and the operating system
  are arguments that act on an abstract world, so that what was executed can be stated as what
  became of the world.
\<close>

section \<open>Tables\<close>

definition MAX_OUTPUT_SIZE :: nat where
  "MAX_OUTPUT_SIZE = 64 * 1024"

definition DEFAULT_TIMEOUT :: duration where
  "DEFAULT_TIMEOUT = secs 120"

definition BLOCKED_COMMANDS :: "string list" where
  "BLOCKED_COMMANDS =
     [''rm -rf /'', ''rm -rf /*'', '':(){ :|:& };:'', ''dd if=/dev/zero'', ''mkfs'', ''chmod -R 777 /'', ''> /dev/sda'',
      ''curl | sh'', ''wget | sh'', ''curl | bash'', ''wget | bash'']"

definition DANGEROUS_PATTERNS :: "string list" where
  "DANGEROUS_PATTERNS =
     [''sudo '', ''doas '', '' | sh'', '' | bash'', '' | zsh'', ''eval '', ''$(curl'', ''$(wget'', ''/etc/passwd'', ''/etc/shadow'',
      ''~/.ssh'', ''.bash_history'', ''id_rsa'']"

definition NEVER_AUTO_APPROVE_PATTERNS :: "string list" where
  "NEVER_AUTO_APPROVE_PATTERNS =
     [''rm -rf'', ''rm -fr'', ''chmod -r 777'', ''chmod 777'', ''chown -r'', ''shutdown'', ''reboot'', ''poweroff'', ''init 0'',
      ''init 6'', ''iptables'', ''nft '', ''useradd'', ''userdel'', ''passwd'', ''visudo'', ''crontab'', ''systemctl disable'',
      ''launchctl unload'', ''kill -9'', ''killall'', ''pkill'', ''docker rm'', ''docker rmi'', ''docker system prune'',
      ''git push --force'', ''git push -f'', ''git reset --hard'', ''git clean -f'', ''DROP TABLE'', ''DROP DATABASE'',
      ''TRUNCATE'', ''DELETE FROM'']"

definition SAFE_ENV_VARS :: "string list" where
  "SAFE_ENV_VARS =
     [''PATH'', ''HOME'', ''USER'', ''LOGNAME'', ''SHELL'', ''TERM'', ''COLORTERM'', ''LANG'', ''LC_ALL'', ''LC_CTYPE'',
      ''LC_MESSAGES'', ''PWD'', ''TMPDIR'', ''TMP'', ''TEMP'', ''XDG_RUNTIME_DIR'', ''XDG_DATA_HOME'', ''XDG_CONFIG_HOME'',
      ''XDG_CACHE_HOME'', ''CARGO_HOME'', ''RUSTUP_HOME'', ''NODE_PATH'', ''NPM_CONFIG_PREFIX'', ''EDITOR'', ''VISUAL'',
      ''SystemRoot'', ''SYSTEMROOT'', ''ComSpec'', ''PATHEXT'', ''APPDATA'', ''LOCALAPPDATA'', ''USERPROFILE'', ''ProgramFiles'',
      ''ProgramFiles(x86)'', ''WINDIR'']"

section \<open>Checks on the command\<close>

definition requires_explicit_approval :: "string \<Rightarrow> bool" where
  "requires_explicit_approval command =
     (let lower = to_lowercase command
      in list_ex (\<lambda>p. contains_str lower (to_lowercase p)) NEVER_AUTO_APPROVE_PATTERNS)"

text \<open>The positions of the matches of \<open>str::match_indices\<close>: from left to right, not overlapping.\<close>

function match_indices_from :: "nat \<Rightarrow> string \<Rightarrow> string \<Rightarrow> nat list" where
  "match_indices_from i s p =
     (if s = [] \<or> p = [] then []
      else if starts_with s p then i # match_indices_from (i + length p) (drop (length p) s) p
      else match_indices_from (Suc i) (tl s) p)"
  by pat_completeness auto

termination by (relation "measure (\<lambda>(i, s, p). length s)") auto

declare match_indices_from.simps [simp del]

definition match_indices :: "string \<Rightarrow> string \<Rightarrow> nat list" where
  "match_indices s p = match_indices_from 0 s p"

definition pipe_terminators :: "char list" where
  "pipe_terminators = [CHR '' '', CHR 0x09, CHR 0x0A, CHR '';'', CHR ''|'', CHR ''&'', CHR '')'']"

definition has_pipe_to :: "string \<Rightarrow> string \<Rightarrow> bool" where
  "has_pipe_to lower shell =
     list_ex (\<lambda>prefix. let pattern = prefix @ shell
        in list_ex (\<lambda>i. let fin = i + length pattern
             in fin \<ge> length lower \<or> lower ! fin \<in> set pipe_terminators) (match_indices lower pattern))
       [''| '', ''|'']"

definition contains_shell_pipe :: "string \<Rightarrow> bool" where
  "contains_shell_pipe lower =
     (has_pipe_to lower ''sh'' \<or> has_pipe_to lower ''bash'' \<or> has_pipe_to lower ''zsh'' \<or> has_pipe_to lower ''dash''
      \<or> has_pipe_to lower ''/bin/sh'' \<or> has_pipe_to lower ''/bin/bash'')"

definition has_command_substitution :: "string \<Rightarrow> bool" where
  "has_command_substitution s = (contains_str s ''$('' \<or> CHR 0x60 \<in> set s)"

definition command_separators :: "char list" where
  "command_separators = [CHR '' '', CHR 0x09, CHR ''|'', CHR '';'', CHR ''&'', CHR 0x0A, CHR ''('']"

definition has_command_token :: "string \<Rightarrow> string \<Rightarrow> bool" where
  "has_command_token lower token =
     list_ex (\<lambda>i. if i = 0 then True else lower ! (i - 1) \<in> set command_separators) (match_indices lower token)"

definition detect_command_injection :: "string \<Rightarrow> string option" where
  "detect_command_injection cmd =
     (if CHR 0x00 \<in> set cmd then Some ''null byte in command''
      else let lower = to_lowercase cmd; has = contains_str lower; token = has_command_token lower
      in if (has ''base64 -d'' \<or> has ''base64 --decode'') \<and> contains_shell_pipe lower
         then Some ''base64 decode piped to shell''
         else if (has ''printf'' \<or> has ''echo -e'' \<or> has (''echo $'' @ [CHR 0x27]))
                 \<and> (has [CHR 0x5C, CHR ''x''] \<or> has [CHR 0x5C, CHR ''0'']) \<and> contains_shell_pipe lower
         then Some ''encoded escape sequences piped to shell''
         else if (has ''xxd -r'' \<or> token ''od '') \<and> contains_shell_pipe lower
         then Some ''binary decode piped to shell''
         else if (token ''dig '' \<or> token ''nslookup '' \<or> token ''host '') \<and> has_command_substitution lower
         then Some ''potential DNS exfiltration via command substitution''
         else if (token ''nc '' \<or> token ''ncat '' \<or> token ''netcat '') \<and> (CHR ''|'' \<in> set lower \<or> CHR ''<'' \<in> set lower)
         then Some ''netcat with data piping''
         else if has ''curl'' \<and> (has ''-d @'' \<or> has ''-d@'' \<or> has ''--data @'' \<or> has ''--data-binary @'' \<or> has ''--upload-file'')
         then Some ''curl posting file contents''
         else if has ''wget'' \<and> has ''--post-file'' then Some ''wget posting file contents''
         else if (has ''| rev'' \<or> has ''|rev'') \<and> contains_shell_pipe lower
         then Some ''string reversal piped to shell''
         else None)"

section \<open>The tool\<close>

datatype sandbox_policy = ReadOnly | WorkspaceWrite | FullAccess

record sandbox_status =
  sb_initialized :: bool
  sb_enabled :: bool

record shell_tool =
  sh_working_dir :: "string option"
  sh_timeout :: duration
  sh_allow_dangerous :: bool
  sh_sandbox :: "sandbox_status option"
  sh_sandbox_policy :: sandbox_policy

definition shell_tool_new :: shell_tool where
  "shell_tool_new = \<lparr>sh_working_dir = None, sh_timeout = DEFAULT_TIMEOUT, sh_allow_dangerous = False,
     sh_sandbox = None, sh_sandbox_policy = ReadOnly\<rparr>"

definition with_working_dir :: "string \<Rightarrow> shell_tool \<Rightarrow> shell_tool" where
  "with_working_dir dir t = t\<lparr>sh_working_dir := Some dir\<rparr>"

definition with_timeout :: "duration \<Rightarrow> shell_tool \<Rightarrow> shell_tool" where
  "with_timeout d t = t\<lparr>sh_timeout := d\<rparr>"

definition with_sandbox :: "sandbox_status \<Rightarrow> shell_tool \<Rightarrow> shell_tool" where
  "with_sandbox sb t = t\<lparr>sh_sandbox := Some sb\<rparr>"

definition with_sandbox_policy :: "sandbox_policy \<Rightarrow> shell_tool \<Rightarrow> shell_tool" where
  "with_sandbox_policy p t = t\<lparr>sh_sandbox_policy := p\<rparr>"

definition shell_is_blocked :: "shell_tool \<Rightarrow> string \<Rightarrow> string option" where
  "shell_is_blocked t cmd =
     (let normalized = to_lowercase cmd
      in if list_ex (contains_str normalized) BLOCKED_COMMANDS then Some ''Command contains blocked pattern''
         else if \<not> sh_allow_dangerous t \<and> list_ex (contains_str normalized) DANGEROUS_PATTERNS
         then Some ''Command contains potentially dangerous pattern''
         else None)"

definition truncate_output :: "string \<Rightarrow> string" where
  "truncate_output s =
     (if length s \<le> MAX_OUTPUT_SIZE then s
      else let half = MAX_OUTPUT_SIZE div 2;
               head_end = floor_char_boundary s half;
               tail_start = floor_char_boundary s (length s - half)
           in take head_end s @ [CHR 0x0A, CHR 0x0A] @ ''... [truncated '' @ show_nat (length s - MAX_OUTPUT_SIZE)
                @ '' bytes] ...'' @ [CHR 0x0A, CHR 0x0A] @ drop tail_start s)"

text \<open>The first hundred characters; a character is a byte and the continuation bytes after it.\<close>

fun take_chars :: "nat \<Rightarrow> string \<Rightarrow> string" where
  "take_chars n [] = []"
| "take_chars n (c # cs) =
     (if is_continuation c then c # take_chars n cs
      else case n of 0 \<Rightarrow> [] | Suc n \<Rightarrow> c # take_chars n cs)"

definition char_count :: "string \<Rightarrow> nat" where
  "char_count s = length (filter (\<lambda>c. \<not> is_continuation c) s)"

definition truncate_for_error :: "string \<Rightarrow> string" where
  "truncate_for_error s = (if char_count s \<le> 100 then s else take_chars 100 s @ ''...'')"

section \<open>Execution\<close>

datatype sandbox_result = SandboxDone string int | SandboxFailed string | SandboxTimedOut

text \<open>
  What became of a child process. Its streams are the text read from the pipes, at most
  \<open>MAX_OUTPUT_SIZE\<close> bytes of each.
\<close>

datatype process_result = SpawnFailed string | Exited string string "int option" | WaitFailed string | ProcessTimedOut

record 'w shell_world =
  sw_sandbox :: "sandbox_policy \<Rightarrow> string \<Rightarrow> string \<Rightarrow> duration \<Rightarrow> 'w \<Rightarrow> sandbox_result \<times> 'w"
  sw_spawn :: "(string, string) hashmap \<Rightarrow> string \<Rightarrow> string \<Rightarrow> duration \<Rightarrow> 'w \<Rightarrow> process_result \<times> 'w"
  sw_env :: "string \<Rightarrow> string option"
  sw_current_dir :: "string option"

definition execute_sandboxed ::
  "shell_tool \<Rightarrow> 'w shell_world \<Rightarrow> string \<Rightarrow> string \<Rightarrow> duration \<Rightarrow> 'w \<Rightarrow> (tool_error + string \<times> int) \<times> 'w" where
  "execute_sandboxed t sw cmd workdir timeout w =
     (case sw_sandbox sw (sh_sandbox_policy t) cmd workdir timeout w of
        (SandboxDone output code, w) \<Rightarrow> (Inr (truncate_output output, code), w)
      | (SandboxFailed e, w) \<Rightarrow> (Inl (tool_error.ExecutionFailed (''Sandbox error: '' @ e)), w)
      | (SandboxTimedOut, w) \<Rightarrow> (Inl (tool_error.Timeout timeout), w))"

definition child_env :: "'w shell_world \<Rightarrow> (string, string) hashmap \<Rightarrow> (string, string) hashmap" where
  "child_env sw extra_env =
     foldl (\<lambda>env (k, v). hm_insert k v env)
       (List.map_filter (\<lambda>var. map_option (Pair var) (sw_env sw var)) SAFE_ENV_VARS) extra_env"

definition combine_streams :: "string \<Rightarrow> string \<Rightarrow> string" where
  "combine_streams out err =
     (if err = [] then out else if out = [] then err
      else out @ [CHR 0x0A, CHR 0x0A] @ ''--- stderr ---'' @ [CHR 0x0A] @ err)"

definition execute_direct ::
  "'w shell_world \<Rightarrow> string \<Rightarrow> string \<Rightarrow> duration \<Rightarrow> (string, string) hashmap \<Rightarrow> 'w \<Rightarrow> (tool_error + string \<times> int) \<times> 'w" where
  "execute_direct sw cmd workdir timeout extra_env w =
     (case sw_spawn sw (child_env sw extra_env) cmd workdir timeout w of
        (SpawnFailed e, w) \<Rightarrow> (Inl (tool_error.ExecutionFailed (''Failed to spawn command: '' @ e)), w)
      | (Exited out err code, w) \<Rightarrow>
          (Inr (truncate_output (combine_streams out err), (case code of Some c \<Rightarrow> c | None \<Rightarrow> -1)), w)
      | (WaitFailed e, w) \<Rightarrow> (Inl (tool_error.ExecutionFailed (''Command execution failed: '' @ e)), w)
      | (ProcessTimedOut, w) \<Rightarrow> (Inl (tool_error.Timeout timeout), w))"

definition effective_dir :: "shell_tool \<Rightarrow> 'w shell_world \<Rightarrow> string option \<Rightarrow> string" where
  "effective_dir t sw workdir =
     (case workdir of Some d \<Rightarrow> d
      | None \<Rightarrow> (case sh_working_dir t of Some d \<Rightarrow> d
      | None \<Rightarrow> (case sw_current_dir sw of Some d \<Rightarrow> d | None \<Rightarrow> ''.'')))"

definition sandbox_intended :: "shell_tool \<Rightarrow> bool" where
  "sandbox_intended t = (case sh_sandbox t of Some sb \<Rightarrow> sb_initialized sb \<or> sb_enabled sb | None \<Rightarrow> False)"

definition execute_command ::
  "shell_tool \<Rightarrow> 'w shell_world \<Rightarrow> string \<Rightarrow> string option \<Rightarrow> nat option \<Rightarrow> (string, string) hashmap \<Rightarrow> 'w
   \<Rightarrow> (tool_error + string \<times> int) \<times> 'w" where
  "execute_command t sw cmd workdir timeout extra_env w =
     (case shell_is_blocked t cmd of
        Some reason \<Rightarrow> (Inl (NotAuthorized (reason @ '': '' @ truncate_for_error cmd)), w)
      | None \<Rightarrow>
          (case detect_command_injection cmd of
             Some reason \<Rightarrow>
               (Inl (NotAuthorized (''Command injection detected ('' @ reason @ ''): '' @ truncate_for_error cmd)), w)
           | None \<Rightarrow>
               (let cwd = effective_dir t sw workdir;
                    d = (case timeout of Some s \<Rightarrow> secs s | None \<Rightarrow> sh_timeout t)
                in if sandbox_intended t then execute_sandboxed t sw cmd cwd d w
                   else execute_direct sw cmd cwd d extra_env w)))"

definition shell_execute ::
  "shell_tool \<Rightarrow> 'w shell_world \<Rightarrow> json \<Rightarrow> (string, string) hashmap \<Rightarrow> duration \<Rightarrow> 'w \<Rightarrow> (tool_error + tool_output) \<times> 'w" where
  "shell_execute t sw params extra_env elapsed w =
     (case require_str params ''command'' of
        Inl e \<Rightarrow> (Inl e, w)
      | Inr command \<Rightarrow>
          (case execute_command t sw command (Option.bind (json_get params ''workdir'') as_str)
                  (Option.bind (json_get params ''timeout'') as_u64) extra_env w of
             (Inl e, w) \<Rightarrow> (Inl e, w)
           | (Inr (output, code), w) \<Rightarrow>
               (Inr (tool_success (JObject [(''output'', JString output), (''exit_code'', JNumber (show_int code)),
                                            (''success'', JBool (code = 0)), (''sandboxed'', JBool (sh_sandbox t \<noteq> None))])
                       elapsed), w)))"

definition shell_requires_approval :: "(string \<Rightarrow> json option) \<Rightarrow> json \<Rightarrow> approval_requirement" where
  "shell_requires_approval from_json params =
     (let cmd = (case Option.bind (json_get params ''command'') as_str of
                   Some c \<Rightarrow> Some c
                 | None \<Rightarrow> Option.bind (Option.bind (as_str params) from_json)
                             (\<lambda>v. Option.bind (json_get v ''command'') as_str))
      in case cmd of
           Some c \<Rightarrow> (if requires_explicit_approval c then Always else UnlessAutoApproved)
         | None \<Rightarrow> UnlessAutoApproved)"

section \<open>Matches\<close>

text \<open>
  A pattern whose first character does not recur in it cannot overlap itself, so the
  non-overlapping search finds every occurrence.
\<close>

lemma starts_with_inside:
  assumes "starts_with s (c # q)" and "c \<notin> set q" and "0 < k" and "k \<le> length q"
  shows "\<not> starts_with (drop k s) (c # q)"
proof
  assume "starts_with (drop k s) (c # q)"
  then have "drop k s ! 0 = c"
    by (auto simp: starts_with_iff)
  moreover from assms(1) obtain r where "s = (c # q) @ r"
    by (auto simp: starts_with_iff)
  then have "drop k s ! 0 = q ! (k - 1)"
    using assms(3,4) by (cases k) (auto simp: nth_append)
  moreover have "q ! (k - 1) \<in> set q"
    using assms(3,4) by (intro nth_mem) auto
  ultimately show False using assms(2) by simp
qed

lemma match_indices_from_iff:
  assumes "c \<notin> set q"
  shows "j \<in> set (match_indices_from i s (c # q)) \<longleftrightarrow> i \<le> j \<and> starts_with (drop (j - i) s) (c # q)"
  using assms
proof (induction i s "c # q" rule: match_indices_from.induct)
  case (1 i s)
  show ?case
  proof (cases "s = []")
    case True
    then show ?thesis by (simp add: match_indices_from.simps starts_with_def)
  next
    case nonempty: False
    show ?thesis
    proof (cases "starts_with s (c # q)")
      case True
      have "starts_with (drop (j - i) s) (c # q) \<longleftrightarrow> i + length (c # q) \<le> j \<and>
          starts_with (drop (j - (i + length (c # q))) (drop (length (c # q)) s)) (c # q)" if "i < j"
        using starts_with_inside [OF True 1(3), of "j - i"] that
        by (cases "j - i \<le> length q") (auto simp: add.commute Suc_diff_Suc)
      then show ?thesis
        using True nonempty 1(1) [OF _ True 1(3)] by (subst match_indices_from.simps) auto
    next
      case False
      have "starts_with (drop (j - i) s) (c # q) \<longleftrightarrow> starts_with (drop (j - Suc i) (tl s)) (c # q)" if "i < j"
        using that by (simp add: drop_Suc [symmetric] Suc_diff_Suc)
      then show ?thesis
        using False nonempty 1(2) [OF _ False 1(3)] by (subst match_indices_from.simps) (auto simp: le_eq_less_or_eq)
    qed
  qed
qed

lemma match_indices_occurrences:
  "c \<notin> set q \<Longrightarrow> i \<in> set (match_indices s (c # q)) \<longleftrightarrow> starts_with (drop i s) (c # q)"
  using match_indices_from_iff [of c q i 0 s] by (simp add: match_indices_def)

lemma occurrence_iff: "starts_with (drop i s) p \<and> i \<le> length s \<longleftrightarrow> (\<exists>a b. s = a @ p @ b \<and> length a = i)"
proof
  assume "starts_with (drop i s) p \<and> i \<le> length s"
  then obtain r where r: "drop i s = p @ r" "i \<le> length s"
    by (auto simp: starts_with_iff)
  then have "s = take i s @ p @ r" by (metis append_take_drop_id)
  with r(2) show "\<exists>a b. s = a @ p @ b \<and> length a = i"
    by (intro exI [of _ "take i s"] exI [of _ r]) auto
qed (auto simp: starts_with_iff)

lemma match_indices_split:
  assumes "c \<notin> set q"
  shows "i \<in> set (match_indices s (c # q)) \<longleftrightarrow> (\<exists>a b. s = a @ (c # q) @ b \<and> length a = i)"
proof -
  have "i \<le> length s" if "starts_with (drop i s) (c # q)"
    using that by (cases "i \<le> length s") (auto simp: starts_with_def)
  then show ?thesis
    using match_indices_occurrences [OF assms] occurrence_iff [of i s "c # q"] by auto
qed

text \<open>A pipe to a shell: a bar, at most one blank, its name, and the end or a terminator.\<close>

lemma has_pipe_to_iff:
  assumes "CHR ''|'' \<notin> set shell"
  shows "has_pipe_to lower shell \<longleftrightarrow>
    (\<exists>a blank b. lower = a @ ''|'' @ blank @ shell @ b \<and> blank \<in> {'''', '' ''}
       \<and> (b = [] \<or> hd b \<in> set pipe_terminators))"
proof -
  have one: "(\<exists>i \<in> set (match_indices lower (CHR ''|'' # q)). i + length (CHR ''|'' # q) \<ge> length lower
        \<or> lower ! (i + length (CHR ''|'' # q)) \<in> set pipe_terminators)
      \<longleftrightarrow> (\<exists>a b. lower = a @ (CHR ''|'' # q) @ b \<and> (b = [] \<or> hd b \<in> set pipe_terminators))"
    if "CHR ''|'' \<notin> set q" for q
  proof -
    have "(i + length (CHR ''|'' # q) \<ge> length lower \<or> lower ! (i + length (CHR ''|'' # q)) \<in> set pipe_terminators)
        \<longleftrightarrow> (b = [] \<or> hd b \<in> set pipe_terminators)"
      if "lower = a @ (CHR ''|'' # q) @ b" "length a = i" for i a b
      using that by (cases b) (auto simp: nth_append)
    then show ?thesis
      unfolding match_indices_split [OF that] Bex_def by metis
  qed
  have "has_pipe_to lower shell \<longleftrightarrow>
      (\<exists>a b. lower = a @ (CHR ''|'' # '' '' @ shell) @ b \<and> (b = [] \<or> hd b \<in> set pipe_terminators))
      \<or> (\<exists>a b. lower = a @ (CHR ''|'' # shell) @ b \<and> (b = [] \<or> hd b \<in> set pipe_terminators))"
    using one [of "'' '' @ shell"] one [of shell] assms by (simp add: has_pipe_to_def Let_def list_ex_iff)
  then show ?thesis by (simp add: disj_commute ex_disj_distrib conj_disj_distribL conj_disj_distribR) blast
qed

text \<open>A command token: its name at the start or after a separator.\<close>

lemma has_command_token_iff:
  assumes "c \<notin> set q"
  shows "has_command_token lower (c # q) \<longleftrightarrow>
    (\<exists>a b. lower = a @ (c # q) @ b \<and> (a = [] \<or> last a \<in> set command_separators))"
proof -
  have "(if i = 0 then True else lower ! (i - 1) \<in> set command_separators) \<longleftrightarrow> (a = [] \<or> last a \<in> set command_separators)"
    if "lower = a @ (c # q) @ b" "length a = i" for i a b
    using that by (auto simp: nth_append last_conv_nth)
  then show ?thesis
    unfolding has_command_token_def list_ex_iff Bex_def match_indices_split [OF assms] by metis
qed

section \<open>Environment\<close>

lemma child_env_get:
  "hm_get (child_env sw extra) k =
     (case map_of (rev extra) k of Some v \<Rightarrow> Some v | None \<Rightarrow> if k \<in> set SAFE_ENV_VARS then sw_env sw k else None)"
proof -
  have "hm_get (foldl (\<lambda>env (k, v). hm_insert k v env) env extra) k
      = (case map_of (rev extra) k of Some v \<Rightarrow> Some v | None \<Rightarrow> hm_get env k)" for env :: "(string, string) hashmap"
    by (induction extra arbitrary: env) (auto simp: hm_get_insert map_add_def split: option.splits)
  moreover have "hm_get (List.map_filter (\<lambda>var. map_option (Pair var) (f var)) vars) k
      = (if k \<in> set vars then f k else None)" for vars and f :: "string \<Rightarrow> string option"
    by (induction vars) (auto simp: List.map_filter_simps hm_get_def split: option.splits)
  ultimately show ?thesis by (simp only: child_env_def)
qed

section \<open>Output\<close>

lemma length_show_nat: "n < 10 ^ k \<Longrightarrow> 0 < k \<Longrightarrow> length (show_nat n) \<le> k"
proof (induction n arbitrary: k rule: show_nat.induct)
  case (1 n)
  show ?case
  proof (cases "n < 10")
    case True
    then show ?thesis using 1(3) by (simp add: show_nat.simps)
  next
    case False
    then obtain m where k: "k = Suc m" "0 < m"
      using 1(2,3) by (cases k) (auto split: nat.splits, metis gr0I power_0 less_one mult_1_right power_Suc)
    with 1 False have "length (show_nat (n div 10)) \<le> m" by simp
    with False k show ?thesis by (simp add: show_nat.simps [of n])
  qed
qed

lemma truncate_output_bounded:
  assumes "utf8_spaced s" and "length s < 2 ^ 64"
  shows "length (truncate_output s) \<le> MAX_OUTPUT_SIZE + 60"
proof (cases "length s \<le> MAX_OUTPUT_SIZE")
  case False
  let ?half = "MAX_OUTPUT_SIZE div 2"
  have "length s - ?half \<le> floor_char_boundary s (length s - ?half) + 3"
    by (rule floor_char_boundary_near [OF assms(1)]) simp
  moreover have "floor_char_boundary s ?half \<le> ?half"
    by (rule floor_char_boundary_le)
  moreover have "length (show_nat (length s - MAX_OUTPUT_SIZE)) \<le> 20"
    using assms(2) by (intro length_show_nat) auto
  ultimately show ?thesis
    using False by (simp add: truncate_output_def Let_def MAX_OUTPUT_SIZE_def)
qed (simp add: truncate_output_def)

section \<open>What runs\<close>

lemma snd_execute_direct:
  "snd (execute_direct sw cmd cwd d extra w) = snd (sw_spawn sw (child_env sw extra) cmd cwd d w)"
  by (auto simp: execute_direct_def split: prod.splits process_result.splits)

lemma snd_execute_sandboxed:
  "snd (execute_sandboxed t sw cmd cwd d w) = snd (sw_sandbox sw (sh_sandbox_policy t) cmd cwd d w)"
  by (auto simp: execute_sandboxed_def split: prod.splits sandbox_result.splits)

section \<open>Departures from the intent\<close>

text \<open>A blocked command with an upper-case letter is compared with the lower-cased text, so it never applies.\<close>

lemma chmod_block_dead: "\<not> contains_str (to_lowercase cmd) ''chmod -R 777 /''"
proof
  assume "contains_str (to_lowercase cmd) ''chmod -R 777 /''"
  then have "CHR ''R'' \<in> set (to_lowercase cmd)"
    by (auto simp: contains_str_iff)
  then obtain c where "lower_char c = CHR ''R''"
    by (auto simp: to_lowercase_def)
  with lower_char_not_upper [of c] show False by simp
qed

text \<open>The result of a command run on the host says that it was sandboxed, if an inactive sandbox is configured.\<close>

lemma host_run_reported_sandboxed:
  assumes "sh_sandbox t = Some \<lparr>sb_initialized = False, sb_enabled = False\<rparr>"
    and "shell_execute t sw params extra d w = (Inr out, w')"
  shows "json_get (to_result out) ''sandboxed'' = Some (JBool True)
    \<and> (\<exists>cmd cwd timeout. w' = snd (sw_spawn sw (child_env sw extra) cmd cwd timeout w))"
proof -
  obtain cmd where "require_str params ''command'' = Inr cmd"
    using assms(2) by (auto simp: shell_execute_def split: sum.splits)
  moreover obtain r where "execute_command t sw cmd (Option.bind (json_get params ''workdir'') as_str)
      (Option.bind (json_get params ''timeout'') as_u64) extra w = (Inr r, w')"
    and out: "json_get (to_result out) ''sandboxed'' = Some (JBool True)"
    using assms calculation by (auto simp: shell_execute_def tool_success_def split: sum.splits prod.splits)
  then have "\<exists>cwd timeout. execute_direct sw cmd cwd timeout extra w = (Inr r, w')"
    using assms(1) by (auto simp: execute_command_def sandbox_intended_def Let_def split: option.splits)
  then have "\<exists>cwd timeout. w' = snd (sw_spawn sw (child_env sw extra) cmd cwd timeout w)"
    by (metis snd_conv snd_execute_direct)
  with out show ?thesis by blast
qed

section \<open>Theorems\<close>





end
