(* ===== verification/Credential_Injector.thy ===== *)
theory Credential_Injector
  imports Network_Policy "HOL-Library.Word"
begin

unbundle bit_operations_syntax

text \<open>
  \<open>src/tools/wasm/credential_injector.rs\<close>: which secrets are added to which requests, and the base64
  encoder for basic authentication. The secrets store is an argument: what it returns for a user
  and a name.
\<close>

section \<open>Base64\<close>

type_synonym u8 = "8 word"

definition ALPHABET :: string where
  "ALPHABET = ''ABCDEFGHIJKLMNOPQRSTUVWXYZabcdefghijklmnopqrstuvwxyz0123456789+/''"

definition b64_char :: "u8 \<Rightarrow> char" where
  "b64_char w = ALPHABET ! unat w"

definition sextet0 :: "u8 \<Rightarrow> u8" where
  "sextet0 b0 = drop_bit 2 b0"

definition sextet1 :: "u8 \<Rightarrow> u8 \<Rightarrow> u8" where
  "sextet1 b0 b1 = push_bit 4 (b0 AND 0x03) OR drop_bit 4 b1"

definition sextet2 :: "u8 \<Rightarrow> u8 \<Rightarrow> u8" where
  "sextet2 b1 b2 = push_bit 2 (b1 AND 0x0f) OR drop_bit 6 b2"

definition sextet3 :: "u8 \<Rightarrow> u8" where
  "sextet3 b2 = b2 AND 0x3f"

fun base64_encode :: "u8 list \<Rightarrow> string" where
  "base64_encode [] = []"
| "base64_encode [b0] = [b64_char (sextet0 b0), b64_char (sextet1 b0 0), CHR ''='', CHR ''='']"
| "base64_encode [b0, b1] = [b64_char (sextet0 b0), b64_char (sextet1 b0 b1), b64_char (sextet2 b1 0), CHR ''='']"
| "base64_encode (b0 # b1 # b2 # bs) =
     b64_char (sextet0 b0) # b64_char (sextet1 b0 b1) # b64_char (sextet2 b1 b2) # b64_char (sextet3 b2) # base64_encode bs"

definition as_bytes :: "string \<Rightarrow> u8 list" where
  "as_bytes s = map of_char s"

section \<open>Patterns\<close>

definition injector_host_matches :: "string \<Rightarrow> string \<Rightarrow> bool" where
  "injector_host_matches host pattern =
     (if pattern = host then True
      else case strip_prefix pattern ''*.'' of
             Some suffix \<Rightarrow>
               (if ends_with host suffix \<and> length host > length suffix
                then let prefix = take (length host - length suffix) host
                     in ends_with prefix ''.'' \<or> prefix = []
                else False)
           | None \<Rightarrow> False)"

definition mapping_matches :: "string \<Rightarrow> credential_mapping \<Rightarrow> bool" where
  "mapping_matches host m = list_ex (injector_host_matches host) (cm_host_patterns m)"

section \<open>Registry\<close>

type_synonym shared_registry = "credential_mapping list"

definition shared_registry_new :: shared_registry where
  "shared_registry_new = []"

definition add_mappings :: "credential_mapping list \<Rightarrow> shared_registry \<Rightarrow> shared_registry" where
  "add_mappings ms r = r @ ms"

definition remove_mappings_for_secrets :: "string list \<Rightarrow> shared_registry \<Rightarrow> shared_registry" where
  "remove_mappings_for_secrets names r = filter (\<lambda>m. cm_secret_name m \<notin> set names) r"

definition has_credentials_for_host :: "shared_registry \<Rightarrow> string \<Rightarrow> bool" where
  "has_credentials_for_host r host = list_ex (mapping_matches host) r"

definition find_for_host :: "shared_registry \<Rightarrow> string \<Rightarrow> credential_mapping list" where
  "find_for_host r host = filter (mapping_matches host) r"

section \<open>Injection\<close>

datatype secret_error =
    SecretMissing string | SecretHasExpired | DecryptError string | EncryptError string | InvalidMasterKey
  | InvalidUtf8 | DatabaseError string | SecretAccessDenied | KeychainError string

datatype injection_error =
    SecretNotFound string | AccessDenied string | SecretExpired string | DecryptionFailed string | NoMatchingCredential string

definition injection_error_from :: "(secret_error \<Rightarrow> string) \<Rightarrow> secret_error \<Rightarrow> injection_error" where
  "injection_error_from show_err e =
     (case e of
        SecretMissing name \<Rightarrow> SecretNotFound name
      | SecretHasExpired \<Rightarrow> SecretExpired ''unknown''
      | SecretAccessDenied \<Rightarrow> AccessDenied ''unknown''
      | DecryptError msg \<Rightarrow> DecryptionFailed msg
      | _ \<Rightarrow> DecryptionFailed (show_err e))"

record injected_credentials =
  ic_headers :: "(string, string) hashmap"
  ic_query_params :: "(string, string) hashmap"

definition injected_empty :: injected_credentials where
  "injected_empty = \<lparr>ic_headers = [], ic_query_params = []\<rparr>"

definition injected_is_empty :: "injected_credentials \<Rightarrow> bool" where
  "injected_is_empty ic \<longleftrightarrow> ic_headers ic = [] \<and> ic_query_params ic = []"

definition inject_credential :: "credential_location \<Rightarrow> string \<Rightarrow> injected_credentials \<Rightarrow> injected_credentials" where
  "inject_credential location secret ic =
     (case location of
        AuthorizationBearer \<Rightarrow> ic\<lparr>ic_headers := hm_insert ''Authorization'' (''Bearer '' @ secret) (ic_headers ic)\<rparr>
      | AuthorizationBasic username \<Rightarrow>
          ic\<lparr>ic_headers := hm_insert ''Authorization''
               (''Basic '' @ base64_encode (as_bytes (username @ '':'' @ secret))) (ic_headers ic)\<rparr>
      | Header name prefix \<Rightarrow>
          ic\<lparr>ic_headers := hm_insert name (case prefix of Some p \<Rightarrow> p @ secret | None \<Rightarrow> secret) (ic_headers ic)\<rparr>
      | QueryParam name \<Rightarrow> ic\<lparr>ic_query_params := hm_insert name secret (ic_query_params ic)\<rparr>
      | UrlPath _ \<Rightarrow> ic)"

record credential_injector =
  ci_mappings :: "(string, credential_mapping) hashmap"
  ci_allowed_secrets :: "string list"

type_synonym secrets_store = "string \<Rightarrow> string \<Rightarrow> secret_error + string"

definition find_credentials_for_host :: "credential_injector \<Rightarrow> string \<Rightarrow> credential_mapping list" where
  "find_credentials_for_host ci host = filter (mapping_matches host) (map snd (ci_mappings ci))"

definition is_secret_allowed :: "credential_injector \<Rightarrow> string \<Rightarrow> bool" where
  "is_secret_allowed ci name =
     (let name_lower = to_lowercase name
      in list_ex (\<lambda>pattern. let pattern_lower = to_lowercase pattern
           in pattern_lower = name_lower
              \<or> (case strip_suffix pattern_lower ''*'' of Some prefix \<Rightarrow> starts_with name_lower prefix | None \<Rightarrow> False))
           (ci_allowed_secrets ci))"

definition store_error :: "(secret_error \<Rightarrow> string) \<Rightarrow> string \<Rightarrow> secret_error \<Rightarrow> injection_error" where
  "store_error show_err secret_name e =
     (case e of
        SecretMissing name \<Rightarrow> SecretNotFound name
      | SecretHasExpired \<Rightarrow> SecretExpired secret_name
      | _ \<Rightarrow> DecryptionFailed (show_err e))"

fun inject_all ::
  "(secret_error \<Rightarrow> string) \<Rightarrow> credential_injector \<Rightarrow> secrets_store \<Rightarrow> string \<Rightarrow> credential_mapping list
   \<Rightarrow> injected_credentials \<Rightarrow> injection_error + injected_credentials" where
  "inject_all show_err ci store user_id [] ic = Inr ic"
| "inject_all show_err ci store user_id (m # ms) ic =
     (if \<not> is_secret_allowed ci (cm_secret_name m) then Inl (AccessDenied (cm_secret_name m))
      else case store user_id (cm_secret_name m) of
             Inl e \<Rightarrow> Inl (store_error show_err (cm_secret_name m) e)
           | Inr secret \<Rightarrow> inject_all show_err ci store user_id ms (inject_credential (cm_location m) secret ic))"

definition inject ::
  "(secret_error \<Rightarrow> string) \<Rightarrow> credential_injector \<Rightarrow> secrets_store \<Rightarrow> string \<Rightarrow> string
   \<Rightarrow> injection_error + injected_credentials" where
  "inject show_err ci store user_id host =
     (let matching = find_credentials_for_host ci host
      in if matching = [] then Inr injected_empty
         else inject_all show_err ci store user_id matching injected_empty)"

section \<open>Base64 round trip\<close>

text \<open>A decoder for the encoding of RFC 4648, with padding.\<close>

definition b64_value :: "char \<Rightarrow> u8 option" where
  "b64_value c = (if c \<in> set ALPHABET then Some (of_nat (length (takeWhile (\<lambda>x. x \<noteq> c) ALPHABET))) else None)"

definition octet0 :: "u8 \<Rightarrow> u8 \<Rightarrow> u8" where
  "octet0 s0 s1 = push_bit 2 s0 OR drop_bit 4 s1"

definition octet1 :: "u8 \<Rightarrow> u8 \<Rightarrow> u8" where
  "octet1 s1 s2 = push_bit 4 s1 OR drop_bit 2 s2"

definition octet2 :: "u8 \<Rightarrow> u8 \<Rightarrow> u8" where
  "octet2 s2 s3 = push_bit 6 s2 OR s3"

fun base64_decode :: "string \<Rightarrow> u8 list option" where
  "base64_decode [] = Some []"
| "base64_decode (c0 # c1 # c2 # c3 # cs) =
     (case (b64_value c0, b64_value c1) of
        (Some s0, Some s1) \<Rightarrow>
          (if c2 = CHR ''='' \<and> c3 = CHR ''='' \<and> cs = [] then Some [octet0 s0 s1]
           else case b64_value c2 of
                  None \<Rightarrow> None
                | Some s2 \<Rightarrow>
                    (if c3 = CHR ''='' \<and> cs = [] then Some [octet0 s0 s1, octet1 s1 s2]
                     else case (b64_value c3, base64_decode cs) of
                            (Some s3, Some bs) \<Rightarrow> Some (octet0 s0 s1 # octet1 s1 s2 # octet2 s2 s3 # bs)
                          | _ \<Rightarrow> None))
      | _ \<Rightarrow> None)"
| "base64_decode _ = None"

lemma b64_value_char:
  assumes "unat w < 64"
  shows "b64_value (b64_char w) = Some w"
proof -
  have "\<forall>n \<in> set [0..<64]. b64_value (ALPHABET ! n) = Some (of_nat n)"
    unfolding b64_value_def ALPHABET_def by code_simp
  then have "b64_value (ALPHABET ! unat w) = Some (of_nat (unat w))"
    using assms by auto
  then show ?thesis by (simp add: b64_char_def)
qed

lemma b64_char_alphabet:
  assumes "unat w < 64"
  shows "b64_char w \<in> set ALPHABET"
  using b64_value_char [OF assms] by (auto simp: b64_value_def split: if_splits)

lemma equals_not_in_alphabet: "CHR ''='' \<notin> set ALPHABET"
  by (simp add: ALPHABET_def)

lemma mask_bytes: "(b::u8) AND 0x03 = take_bit 2 b" "b AND 0x0f = take_bit 4 b" "b AND 0x3f = take_bit 6 b"
  by (simp_all add: take_bit_eq_mask mask_eq_exp_minus_1)

lemma unat_less_64: "unat w < 64 \<longleftrightarrow> take_bit 6 w = w" for w :: u8
proof -
  have "take_bit 6 w = w \<longleftrightarrow> unat (take_bit 6 w) = unat w"
    by (simp only: word_unat_eq_iff)
  also have "\<dots> \<longleftrightarrow> unat w < 64"
    by (simp add: unsigned_take_bit_eq take_bit_nat_eq_self_iff)
  finally show ?thesis ..
qed

text \<open>Bytes are compared bit by bit.\<close>

lemma byte_eqI:
  fixes a b :: u8
  assumes "\<forall>n \<in> {0, 1, 2, 3, 4, 5, 6, 7}. bit a n = bit b n"
  shows "a = b"
proof (rule bit_word_eqI)
  fix n assume "n < LENGTH(8)"
  then have "n \<in> {0, 1, 2, 3, 4, 5, 6, 7}" by auto
  with assms show "bit a n = bit b n" by blast
qed

lemma byte_bits_end: "8 \<le> n \<Longrightarrow> \<not> bit b n" for b :: u8
  using bit_imp_le_length [of b n] by auto

lemmas byte_ops = octet0_def octet1_def octet2_def sextet0_def sextet1_def sextet2_def sextet3_def mask_bytes

lemma sextets_small:
  "unat (sextet0 b0) < 64" "unat (sextet1 b0 b1) < 64" "unat (sextet2 b1 b2) < 64" "unat (sextet3 b2) < 64"
  unfolding unat_less_64 byte_ops by (rule byte_eqI, simp add: bit_simps byte_bits_end flip: numeral_2_eq_2 numeral_3_eq_3)+

lemma octets_sextets:
  "octet0 (sextet0 b0) (sextet1 b0 b1) = b0" "octet1 (sextet1 b0 b1) (sextet2 b1 b2) = b1"
  "octet2 (sextet2 b1 b2) (sextet3 b2) = b2"
  unfolding byte_ops by (rule byte_eqI, simp add: bit_simps byte_bits_end flip: numeral_2_eq_2 numeral_3_eq_3)+

lemma b64_char_not_equals: "unat w < 64 \<Longrightarrow> b64_char w \<noteq> CHR ''=''"
  using b64_char_alphabet equals_not_in_alphabet by metis

lemma base64_roundtrip: "base64_decode (base64_encode bs) = Some bs"
  by (induction bs rule: base64_encode.induct)
     (auto simp: b64_value_char sextets_small octets_sextets b64_char_not_equals)

section \<open>What is injected\<close>

lemma injector_host_matches_iff:
  "injector_host_matches host p \<longleftrightarrow> host = p \<or> (\<exists>base. p = ''*.'' @ base \<and> below_domain base host)"
proof -
  have "injector_host_matches host p \<longleftrightarrow> p = host \<or> (\<exists>base. strip_prefix p ''*.'' = Some base \<and> below_domain base host)"
    unfolding wildcard_suffix [symmetric]
    by (auto simp: injector_host_matches_def Let_def split: option.splits if_splits)
  then show ?thesis
    by (auto simp: strip_prefix_Some)
qed

interpretation shared_registry: allowlist has_credentials_for_host "\<lambda>m host. mapping_matches host m"
  by unfold_locales (auto simp: has_credentials_for_host_def list_ex_iff)

lemma has_credentials_iff_found: "has_credentials_for_host r host \<longleftrightarrow> find_for_host r host \<noteq> []"
  by (auto simp: has_credentials_for_host_def find_for_host_def list_ex_iff filter_empty_conv)

text \<open>What one mapping puts into a request.\<close>

definition credential_header :: "credential_location \<Rightarrow> string \<Rightarrow> (string \<times> string) option" where
  "credential_header location secret =
     (case location of
        AuthorizationBearer \<Rightarrow> Some (''Authorization'', ''Bearer '' @ secret)
      | AuthorizationBasic u \<Rightarrow> Some (''Authorization'', ''Basic '' @ base64_encode (as_bytes (u @ '':'' @ secret)))
      | Header name prefix \<Rightarrow> Some (name, (case prefix of Some p \<Rightarrow> p @ secret | None \<Rightarrow> secret))
      | _ \<Rightarrow> None)"

definition credential_param :: "credential_location \<Rightarrow> string \<Rightarrow> (string \<times> string) option" where
  "credential_param location secret = (case location of QueryParam name \<Rightarrow> Some (name, secret) | _ \<Rightarrow> None)"

lemma inject_credential_get:
  "hm_get (ic_headers (inject_credential l s ic)) k =
     (case credential_header l s of Some (n, v) \<Rightarrow> if k = n then Some v else hm_get (ic_headers ic) k
      | None \<Rightarrow> hm_get (ic_headers ic) k)"
  "hm_get (ic_query_params (inject_credential l s ic)) k =
     (case credential_param l s of Some (n, v) \<Rightarrow> if k = n then Some v else hm_get (ic_query_params ic) k
      | None \<Rightarrow> hm_get (ic_query_params ic) k)"
  by (cases l; simp add: inject_credential_def credential_header_def credential_param_def hm_get_insert)+

text \<open>The error that stops the injection: the first mapping that is not allowed or has no secret.\<close>

definition mapping_error ::
  "(secret_error \<Rightarrow> string) \<Rightarrow> credential_injector \<Rightarrow> secrets_store \<Rightarrow> string \<Rightarrow> credential_mapping \<Rightarrow> injection_error option" where
  "mapping_error show_err ci store user m =
     (if \<not> is_secret_allowed ci (cm_secret_name m) then Some (AccessDenied (cm_secret_name m))
      else case store user (cm_secret_name m) of
             Inl e \<Rightarrow> Some (store_error show_err (cm_secret_name m) e)
           | Inr _ \<Rightarrow> None)"

lemma inject_all_error:
  "inject_all sh ci store user ms ic = Inl e \<longleftrightarrow>
     (\<exists>m. find (\<lambda>m. mapping_error sh ci store user m \<noteq> None) ms = Some m \<and> mapping_error sh ci store user m = Some e)"
proof (induction ms arbitrary: ic)
  case (Cons m ms)
  then show ?case
    by (cases "is_secret_allowed ci (cm_secret_name m)"; cases "store user (cm_secret_name m)")
       (simp_all add: mapping_error_def)
qed simp

lemma inject_all_origin:
  assumes "inject_all sh ci store user ms ic = Inr res"
  shows "(hm_get (ic_headers res) k = Some v \<longrightarrow> hm_get (ic_headers ic) k = Some v
           \<or> (\<exists>m \<in> set ms. \<exists>s. is_secret_allowed ci (cm_secret_name m) \<and> store user (cm_secret_name m) = Inr s
                \<and> credential_header (cm_location m) s = Some (k, v)))
    \<and> (hm_get (ic_query_params res) k = Some v \<longrightarrow> hm_get (ic_query_params ic) k = Some v
           \<or> (\<exists>m \<in> set ms. \<exists>s. is_secret_allowed ci (cm_secret_name m) \<and> store user (cm_secret_name m) = Inr s
                \<and> credential_param (cm_location m) s = Some (k, v)))"
  using assms
proof (induction ms arbitrary: ic)
  case (Cons m ms)
  then obtain s where m: "is_secret_allowed ci (cm_secret_name m)" "store user (cm_secret_name m) = Inr s"
    and run: "inject_all sh ci store user ms (inject_credential (cm_location m) s ic) = Inr res"
    by (auto split: if_splits sum.splits)
  from Cons.IH [OF run] m show ?case
    by (auto simp: inject_credential_get split: option.splits if_splits)
qed simp

section \<open>Theorems\<close>

text \<open>
  C24. What the injector adds to a request for a host. It fails with the error of the first
  matching mapping whose secret is not allowed or not available, and then adds nothing. Otherwise
  every header and query parameter it adds belongs to a mapping with a pattern for that host, whose
  secret is allowed and is the one the store holds for the user.
\<close>

theorem injection_confined:
  assumes "inject show_err ci store user host = r"
  shows "(case r of
      Inl e \<Rightarrow> (\<exists>m. find (\<lambda>m. mapping_error show_err ci store user m \<noteq> None) (find_credentials_for_host ci host) = Some m
                  \<and> mapping_error show_err ci store user m = Some e)
    | Inr res \<Rightarrow>
        (\<forall>k v. hm_get (ic_headers res) k = Some v \<longrightarrow>
           (\<exists>m \<in> snd ` set (ci_mappings ci). \<exists>s. mapping_matches host m \<and> is_secret_allowed ci (cm_secret_name m)
              \<and> store user (cm_secret_name m) = Inr s \<and> credential_header (cm_location m) s = Some (k, v)))
        \<and> (\<forall>k v. hm_get (ic_query_params res) k = Some v \<longrightarrow>
           (\<exists>m \<in> snd ` set (ci_mappings ci). \<exists>s. mapping_matches host m \<and> is_secret_allowed ci (cm_secret_name m)
              \<and> store user (cm_secret_name m) = Inr s \<and> credential_param (cm_location m) s = Some (k, v))))"
proof -
  let ?ms = "find_credentials_for_host ci host"
  have run: "inject_all show_err ci store user ?ms injected_empty = r"
    using assms by (auto simp: inject_def Let_def split: if_splits)
  have ms: "m \<in> set ?ms \<longleftrightarrow> m \<in> snd ` set (ci_mappings ci) \<and> mapping_matches host m" for m
    by (auto simp: find_credentials_for_host_def)
  show ?thesis
  proof (cases r)
    case (Inl e)
    with run show ?thesis by (simp add: inject_all_error)
  next
    case (Inr res)
    have none: "hm_get (ic_headers injected_empty) k = None" "hm_get (ic_query_params injected_empty) k = None" for k
      by (simp_all add: injected_empty_def)
    show ?thesis
      using inject_all_origin [OF run [unfolded Inr]] unfolding Inr sum.case none ms Bex_def by blast
  qed
qed

theorem injection_confined_witness:
  "(let ci = \<lparr>ci_mappings = [(''a'', mapping_bearer ''k'' ''*.x.org''), (''b'', mapping_bearer ''z'' ''y.org'')],
              ci_allowed_secrets = [''K*'']\<rparr>;
        store = (\<lambda>u n. if n = ''k'' then Inr ''v'' else Inl (SecretMissing n))
    in inject (\<lambda>_. []) ci store ''u'' ''a.x.org'' = Inr \<lparr>ic_headers = [(''Authorization'', ''Bearer v'')], ic_query_params = []\<rparr>
       \<and> (\<exists>m \<in> snd ` set (ci_mappings ci). mapping_matches ''a.x.org'' m \<and> cm_secret_name m = ''k''))"
proof -
  define ci where "ci = \<lparr>ci_mappings = [(''a'', mapping_bearer ''k'' ''*.x.org''), (''b'', mapping_bearer ''z'' ''y.org'')],
              ci_allowed_secrets = [''K*'']\<rparr>"
  define store :: secrets_store where "store = (\<lambda>u n. if n = ''k'' then Inr ''v'' else Inl (SecretMissing n))"
  have run: "inject (\<lambda>_. []) ci store ''u'' ''a.x.org'' = Inr \<lparr>ic_headers = [(''Authorization'', ''Bearer v'')], ic_query_params = []\<rparr>"
    unfolding ci_def store_def by code_simp
  from injection_confined [OF run]
  have "\<exists>m \<in> snd ` set (ci_mappings ci). mapping_matches ''a.x.org'' m \<and> cm_secret_name m = ''k''"
    by (fastforce simp: hm_get_def store_def split: if_splits)
  with run show ?thesis by (simp add: ci_def store_def Let_def)
qed

text \<open>
  C35. The base64 encoder is right: decoding its result gives the bytes back, and the result has four
  characters for every three bytes or part of them.
\<close>

theorem base64_encode_correct:
  "base64_decode (base64_encode bs) = Some bs \<and> length (base64_encode bs) = 4 * ((length bs + 2) div 3)
    \<and> set (base64_encode bs) \<subseteq> insert (CHR ''='') (set ALPHABET)"
proof -
  have "(5 + n) div 3 = Suc (Suc (Suc n) div 3)" for n :: nat by presburger
  then have "length (base64_encode bs) = 4 * ((length bs + 2) div 3)"
    by (induction bs rule: base64_encode.induct) auto
  moreover have "set (base64_encode bs) \<subseteq> insert (CHR ''='') (set ALPHABET)"
    by (induction bs rule: base64_encode.induct) (auto simp: b64_char_alphabet sextets_small)
  ultimately show ?thesis using base64_roundtrip by blast
qed

end
