(* ===== verification/Http_Guard.thy ===== *)
theory Http_Guard
  imports Credential_Injector Safety_Layer Tool_Types Preflight "HOL-Library.Monad_Syntax"
begin

unbundle bit_operations_syntax

text \<open>
  \<open>src/tools/builtin/http.rs\<close>: the tool that makes HTTP requests. URL parsing, the HTTP client, name
  resolution, JSON text, the leak detector's matchers, the interceptor of recordings and the
  conversion of HTML belong to other code and are fields of the environment; sending a request
  acts on an abstract world.
\<close>

section \<open>IP addresses\<close>

datatype ip = V4 u8 u8 u8 u8 | V6 "16 word list"

definition v4_is_private :: "u8 \<Rightarrow> u8 \<Rightarrow> bool" where
  "v4_is_private a b \<longleftrightarrow> a = 10 \<or> (a = 172 \<and> 16 \<le> b \<and> b \<le> 31) \<or> (a = 192 \<and> b = 168)"

definition v4_is_loopback :: "u8 \<Rightarrow> bool" where
  "v4_is_loopback a \<longleftrightarrow> a = 127"

definition v4_is_link_local :: "u8 \<Rightarrow> u8 \<Rightarrow> bool" where
  "v4_is_link_local a b \<longleftrightarrow> a = 169 \<and> b = 254"

definition v4_is_multicast :: "u8 \<Rightarrow> bool" where
  "v4_is_multicast a \<longleftrightarrow> 224 \<le> a \<and> a \<le> 239"

definition v6_loopback :: "16 word list" where
  "v6_loopback = [0, 0, 0, 0, 0, 0, 0, 1]"

fun is_disallowed_ip :: "ip \<Rightarrow> bool" where
  "is_disallowed_ip (V4 a b c d) =
     (v4_is_private a b \<or> v4_is_loopback a \<or> v4_is_link_local a b \<or> v4_is_multicast a
      \<or> (a = 0 \<and> b = 0 \<and> c = 0 \<and> d = 0) \<or> (a = 169 \<and> b = 254 \<and> c = 169 \<and> d = 254))"
| "is_disallowed_ip (V6 segs) =
     (segs = v6_loopback
      \<or> hd segs AND 0xfe00 = 0xfc00
      \<or> hd segs AND 0xffc0 = 0xfe80
      \<or> hd segs AND 0xff00 = 0xff00
      \<or> segs = [0, 0, 0, 0, 0, 0, 0, 0])"

text \<open>\<open>IpAddr::from_str\<close>: dotted decimals without leading zeros, or groups of hexadecimal digits.\<close>

definition hex_value :: "string \<Rightarrow> nat" where
  "hex_value s = foldl (\<lambda>v c. 16 * v + (let n = of_char c :: nat in if n \<le> 57 then n - 48 else if n \<le> 70 then n - 55 else n - 87)) 0 s"

definition expect_char :: "char \<Rightarrow> string \<Rightarrow> string option" where
  "expect_char c s = (case s of [] \<Rightarrow> None | x # xs \<Rightarrow> if x = c then Some xs else None)"

definition read_octet :: "string \<Rightarrow> (u8 \<times> string) option" where
  "read_octet s =
     (let ds = takeWhile is_digit s
      in if ds = [] \<or> length ds > 3 \<or> (hd ds = CHR ''0'' \<and> length ds > 1) \<or> digits_value ds > 255 then None
         else Some (of_nat (digits_value ds), drop (length ds) s))"

definition read_ipv4 :: "string \<Rightarrow> ((u8 \<times> u8 \<times> u8 \<times> u8) \<times> string) option" where
  "read_ipv4 s = do {
     (a, s) \<leftarrow> read_octet s; s \<leftarrow> expect_char (CHR ''.'') s;
     (b, s) \<leftarrow> read_octet s; s \<leftarrow> expect_char (CHR ''.'') s;
     (c, s) \<leftarrow> read_octet s; s \<leftarrow> expect_char (CHR ''.'') s;
     (d, s) \<leftarrow> read_octet s;
     Some ((a, b, c, d), s) }"

definition read_group :: "string \<Rightarrow> (16 word \<times> string) option" where
  "read_group s =
     (let ds = takeWhile is_hexdigit s
      in if ds = [] \<or> length ds > 4 then None else Some (of_nat (hex_value ds), drop (length ds) s))"

function read_groups :: "nat \<Rightarrow> nat \<Rightarrow> string \<Rightarrow> 16 word list \<times> bool \<times> string" where
  "read_groups limit i s =
     (if i \<ge> limit then ([], False, s)
      else let start = (if i > 0 then expect_char (CHR '':'') s else Some s)
      in case (if i < limit - 1 then Option.bind start read_ipv4 else None) of
           Some ((a, b, c, d), rest) \<Rightarrow>
             ([of_nat (256 * unat a + unat b), of_nat (256 * unat c + unat d)], True, rest)
         | None \<Rightarrow>
             (case Option.bind start read_group of
                Some (g, rest) \<Rightarrow> (case read_groups limit (Suc i) rest of (gs, v4, rest) \<Rightarrow> (g # gs, v4, rest))
              | None \<Rightarrow> ([], False, s)))"
  by pat_completeness auto

termination by (relation "measure (\<lambda>(limit, i, s). limit - i)") auto

declare read_groups.simps [simp del]

definition read_ipv6 :: "string \<Rightarrow> (16 word list \<times> string) option" where
  "read_ipv6 s =
     (case read_groups 8 0 s of (head, v4, rest) \<Rightarrow>
       (if length head = 8 then Some (head, rest)
        else if v4 then None
        else do {
          rest \<leftarrow> expect_char (CHR '':'') rest;
          rest \<leftarrow> expect_char (CHR '':'') rest;
          (case read_groups (8 - (length head + 1)) 0 rest of
             (tail, _, rest) \<Rightarrow> Some (head @ replicate (8 - length head - length tail) 0 @ tail, rest)) }))"

definition parse_ip :: "string \<Rightarrow> ip option" where
  "parse_ip s =
     (case (case read_ipv4 s of
              Some ((a, b, c, d), rest) \<Rightarrow> Some (V4 a b c d, rest)
            | None \<Rightarrow> map_option (apfst V6) (read_ipv6 s)) of
        Some (i, []) \<Rightarrow> Some i
      | _ \<Rightarrow> None)"

section \<open>Environment\<close>

record http_url =
  hu_text :: string
  hu_scheme :: string
  hu_host :: "string option"
  hu_port :: "nat option"          \<comment> \<open>\<open>port_or_known_default\<close>\<close>

record http_request =
  hq_method :: string
  hq_url :: http_url
  hq_headers :: "(string \<times> string) list"
  hq_body :: "string option"

text \<open>Header values that are not visible ASCII are \<open>None\<close>; the body arrives in chunks or breaks off.\<close>

record http_response =
  hr_status :: nat
  hr_headers :: "(string \<times> string option) list"
  hr_chunks :: "(string + string) list"

datatype send_error = SendTimeout | SendFailed string

record recorded_response =
  rr_status :: nat
  rr_headers :: "(string \<times> string) list"
  rr_body :: string

text \<open>
  \<open>he_resolve\<close> is the name resolution as it answers in a given world, \<open>he_before\<close> and \<open>he_after\<close> the
  interceptor (one that never answers if there is none), and \<open>he_markdown\<close> the conversion of HTML.
\<close>

record 'w http_env =
  he_parse :: "string \<Rightarrow> string + http_url"
  he_join :: "http_url \<Rightarrow> string \<Rightarrow> string + string"
  he_append_pair :: "string \<times> string \<Rightarrow> http_url \<Rightarrow> http_url"
  he_resolve :: "string \<Rightarrow> nat \<Rightarrow> 'w \<Rightarrow> ip list option"
  he_show_ip :: "ip \<Rightarrow> string"
  he_from_json :: "string \<Rightarrow> json option"
  he_to_json :: "json \<Rightarrow> string + string"
  he_lossy :: "string \<Rightarrow> string"
  he_regex :: regex_engine
  he_build :: "string list \<Rightarrow> ac_finder option"
  he_send :: "http_request \<Rightarrow> 'w \<Rightarrow> (send_error + http_response) \<times> 'w"
  he_before :: "http_request \<Rightarrow> 'w \<Rightarrow> recorded_response option \<times> 'w"
  he_after :: "http_request \<Rightarrow> recorded_response \<Rightarrow> 'w \<Rightarrow> 'w"
  he_markdown :: "string \<Rightarrow> string \<Rightarrow> string option"

record http_tool =
  ht_credentials :: "(shared_registry \<times> secrets_store) option"

section \<open>The tool\<close>

definition MAX_RESPONSE_SIZE :: nat where
  "MAX_RESPONSE_SIZE = 5 * 1024 * 1024"

definition MAX_REDIRECTS :: nat where
  "MAX_REDIRECTS = 3"

definition http_tool_new :: http_tool where
  "http_tool_new = \<lparr>ht_credentials = None\<rparr>"

definition with_credentials :: "shared_registry \<Rightarrow> secrets_store \<Rightarrow> http_tool \<Rightarrow> http_tool" where
  "with_credentials registry store t = t\<lparr>ht_credentials := Some (registry, store)\<rparr>"

definition first_disallowed :: "ip list option \<Rightarrow> ip option" where
  "first_disallowed addrs = (case addrs of Some ips \<Rightarrow> find is_disallowed_ip ips | None \<Rightarrow> None)"

definition validate_url :: "'w http_env \<Rightarrow> 'w \<Rightarrow> string \<Rightarrow> tool_error + http_url" where
  "validate_url env w url =
     (case he_parse env url of
        Inl e \<Rightarrow> Inl (InvalidParameters (''invalid URL: '' @ e))
      | Inr parsed \<Rightarrow>
          (if hu_scheme parsed \<noteq> ''https'' then Inl (NotAuthorized ''only https URLs are allowed'')
           else case hu_host parsed of
                  None \<Rightarrow> Inl (InvalidParameters ''URL missing host'')
                | Some host \<Rightarrow>
                    (let host_lower = to_lowercase host
                     in if host_lower = ''localhost'' \<or> ends_with host_lower ''.localhost''
                        then Inl (NotAuthorized ''localhost is not allowed'')
                        else if (case parse_ip host of Some i \<Rightarrow> is_disallowed_ip i | None \<Rightarrow> False)
                        then Inl (NotAuthorized ''private or local IPs are not allowed'')
                        else let port = (case hu_port parsed of Some p \<Rightarrow> p | None \<Rightarrow> 443)
                        in case first_disallowed (he_resolve env host port w) of
                             Some i \<Rightarrow>
                               Inl (NotAuthorized (''hostname '' @ [CHR 0x27] @ host @ [CHR 0x27]
                                      @ '' resolves to disallowed IP '' @ he_show_ip env i))
                           | None \<Rightarrow> Inr parsed)))"

definition eq_ignore_ascii_case :: "string \<Rightarrow> string \<Rightarrow> bool" where
  "eq_ignore_ascii_case a b \<longleftrightarrow> to_lowercase a = to_lowercase b"

fun headers_of_object :: "(string \<times> json) list \<Rightarrow> tool_error + (string \<times> string) list" where
  "headers_of_object [] = Inr []"
| "headers_of_object ((k, v) # kvs) =
     (case as_str v of
        None \<Rightarrow> Inl (InvalidParameters (''header '' @ [CHR 0x27] @ k @ [CHR 0x27] @ '' must have a string value''))
      | Some s \<Rightarrow> map_sum id ((#) (k, s)) (headers_of_object kvs))"

definition header_error :: "nat \<Rightarrow> string \<Rightarrow> tool_error" where
  "header_error idx text = InvalidParameters (''headers['' @ show_nat idx @ '']'' @ text)"

fun headers_of_array :: "nat \<Rightarrow> json list \<Rightarrow> tool_error + (string \<times> string) list" where
  "headers_of_array idx [] = Inr []"
| "headers_of_array idx (item # items) =
     (case as_object item of
        None \<Rightarrow> Inl (header_error idx ('' must be an object with '' @ [CHR 0x27] @ ''name'' @ [CHR 0x27] @ '' and ''
                       @ [CHR 0x27] @ ''value'' @ [CHR 0x27]))
      | Some obj \<Rightarrow>
          (case Option.bind (json_get item ''name'') as_str of
             None \<Rightarrow> Inl (header_error idx ''.name must be a string'')
           | Some name \<Rightarrow>
               (case Option.bind (json_get item ''value'') as_str of
                  None \<Rightarrow> Inl (header_error idx ''.value must be a string'')
                | Some value \<Rightarrow> map_sum id ((#) (name, value)) (headers_of_array (Suc idx) items))))"

definition parse_headers_param :: "json option \<Rightarrow> tool_error + (string \<times> string) list" where
  "parse_headers_param headers =
     (case headers of
        None \<Rightarrow> Inr []
      | Some (JObject kvs) \<Rightarrow> headers_of_object kvs
      | Some (JArray items) \<Rightarrow> headers_of_array 0 items
      | Some _ \<Rightarrow> Inl (InvalidParameters ([CHR 0x27] @ ''headers'' @ [CHR 0x27]
                         @ '' must be an object or an array of {name, value}'')))"

definition extract_host_from_params :: "'w http_env \<Rightarrow> json \<Rightarrow> string option" where
  "extract_host_from_params env params =
     (case Option.bind (json_get params ''url'') as_str of
        None \<Rightarrow> None
      | Some url \<Rightarrow> (case he_parse env url of Inl _ \<Rightarrow> None | Inr u \<Rightarrow> hu_host u))"

definition body_bytes :: "'w http_env \<Rightarrow> json option \<Rightarrow> tool_error + string option" where
  "body_bytes env body =
     (let serialize = (\<lambda>v. case he_to_json env v of
                         Inr bytes \<Rightarrow> Inr (Some bytes)
                       | Inl e \<Rightarrow> Inl (InvalidParameters (''invalid body JSON: '' @ e)))
      in case body of
           None \<Rightarrow> Inr None
         | Some (JString s) \<Rightarrow> (case he_from_json env s of Some v \<Rightarrow> serialize v | None \<Rightarrow> Inr (Some s))
         | Some v \<Rightarrow> serialize v)"

definition inject_mapping ::
  "'w http_env \<Rightarrow> secrets_store \<Rightarrow> string \<Rightarrow> credential_mapping \<Rightarrow> http_url \<times> (string \<times> string) list
   \<Rightarrow> http_url \<times> (string \<times> string) list" where
  "inject_mapping env store user m uh =
     (case store user (cm_secret_name m) of
        Inl _ \<Rightarrow> uh
      | Inr secret \<Rightarrow>
          (let ic = inject_credential (cm_location m) secret injected_empty
           in (fold (he_append_pair env) (ic_query_params ic) (fst uh), snd uh @ ic_headers ic)))"

definition inject_for_host ::
  "'w http_env \<Rightarrow> http_tool \<Rightarrow> string \<Rightarrow> http_url \<Rightarrow> (string \<times> string) list \<Rightarrow> http_url \<times> (string \<times> string) list" where
  "inject_for_host env t user url headers =
     (case ht_credentials t of
        None \<Rightarrow> (url, headers)
      | Some (registry, store) \<Rightarrow>
          fold (inject_mapping env store user) (find_for_host registry (case hu_host url of Some h \<Rightarrow> h | None \<Rightarrow> []))
            (url, headers))"

definition outbound_scan :: "'w http_env \<Rightarrow> http_url \<Rightarrow> (string \<times> string) list \<Rightarrow> string option \<Rightarrow> tool_error + unit" where
  "outbound_scan env url headers body =
     (case scan_http_request (he_lossy env) (he_regex env) (leak_detector_new (he_build env)) (hu_text url) headers body of
        Inl e \<Rightarrow> Inl (NotAuthorized (show_leak_error e))
      | Inr _ \<Rightarrow> Inr ())"

definition send_failure :: "send_error \<Rightarrow> tool_error" where
  "send_failure e = (case e of SendTimeout \<Rightarrow> tool_error.Timeout (secs 30) | SendFailed m \<Rightarrow> ExternalService m)"

definition is_redirect :: "http_response \<Rightarrow> bool" where
  "is_redirect r \<longleftrightarrow> 300 \<le> hr_status r \<and> hr_status r < 400"

definition header_value :: "string \<Rightarrow> http_response \<Rightarrow> string option" where
  "header_value name r = Option.bind (map_of (hr_headers r) name) id"

definition accept_header :: "string \<times> string" where
  "accept_header = (''accept'', ''text/markdown, text/html;q=0.9, application/json;q=0.9, */*;q=0.8'')"

definition next_location :: "'w http_env \<Rightarrow> http_url \<Rightarrow> http_response \<Rightarrow> tool_error + string" where
  "next_location env url r =
     (case header_value ''location'' r of
        None \<Rightarrow> Inl (tool_error.ExecutionFailed (''redirect (HTTP '' @ show_nat (hr_status r) @ '') has no Location header''))
      | Some location \<Rightarrow>
          (if starts_with location ''http://'' \<or> starts_with location ''https://'' then Inr location
           else case he_join env url location of
                  Inr u \<Rightarrow> Inr u
                | Inl e \<Rightarrow> Inl (tool_error.ExecutionFailed (''could not resolve relative redirect '' @ [CHR 0x27] @ location
                                   @ [CHR 0x27] @ '': '' @ e))))"

fun follow_redirects :: "'w http_env \<Rightarrow> nat \<Rightarrow> http_url \<Rightarrow> 'w \<Rightarrow> (tool_error + http_response \<times> http_url) \<times> 'w" where
  "follow_redirects env remaining url w =
     (case he_send env \<lparr>hq_method = ''GET'', hq_url = url, hq_headers = [accept_header], hq_body = None\<rparr> w of
        (Inl e, w) \<Rightarrow> (Inl (send_failure e), w)
      | (Inr r, w) \<Rightarrow>
          (if \<not> is_redirect r then (Inr (r, url), w)
           else case remaining of
                  0 \<Rightarrow> (Inl (tool_error.ExecutionFailed (''too many redirects (max '' @ show_nat MAX_REDIRECTS @ '')'')), w)
                | Suc remaining \<Rightarrow>
                    (case next_location env url r of
                       Inl e \<Rightarrow> (Inl e, w)
                     | Inr loc \<Rightarrow>
                         (case validate_url env w loc of
                            Inl e \<Rightarrow> (Inl e, w)
                          | Inr url \<Rightarrow>
                              (case outbound_scan env url [] None of
                                 Inl e \<Rightarrow> (Inl e, w)
                               | Inr _ \<Rightarrow> follow_redirects env remaining url w)))))"

declare follow_redirects.simps [simp del]

fun read_body :: "string \<Rightarrow> (string + string) list \<Rightarrow> tool_error + string" where
  "read_body body [] = Inr body"
| "read_body body (Inl e # _) = Inl (ExternalService (''failed to read response body: '' @ e))"
| "read_body body (Inr chunk # chunks) =
     (if length body + length chunk > MAX_RESPONSE_SIZE
      then Inl (tool_error.ExecutionFailed (''Response body exceeds maximum allowed size ('' @ show_nat MAX_RESPONSE_SIZE @ '' bytes)''))
      else read_body (body @ chunk) chunks)"

text \<open>\<open>str::parse::<usize>\<close>, which also accepts a plus sign.\<close>

definition parse_usize :: "string \<Rightarrow> nat option" where
  "parse_usize s =
     (let ds = (case strip_prefix s ''+'' of Some r \<Rightarrow> r | None \<Rightarrow> s)
      in if ds \<noteq> [] \<and> list_all is_digit ds \<and> digits_value ds < 2 ^ 64 then Some (digits_value ds) else None)"

definition check_content_length :: "http_response \<Rightarrow> tool_error + unit" where
  "check_content_length r =
     (case Option.bind (header_value ''content-length'' r) parse_usize of
        None \<Rightarrow> Inr ()
      | Some len \<Rightarrow>
          (if len > MAX_RESPONSE_SIZE
           then Inl (tool_error.ExecutionFailed (''Response Content-Length ('' @ show_nat len
                  @ '' bytes) exceeds maximum allowed size ('' @ show_nat MAX_RESPONSE_SIZE @ '' bytes)''))
           else Inr ()))"

definition visible_headers :: "http_response \<Rightarrow> (string, string) hashmap" where
  "visible_headers r = fold (\<lambda>(k, v) m. hm_insert k v m) (List.map_filter (\<lambda>(k, v). map_option (Pair k) v) (hr_headers r)) []"

definition is_html_response :: "(string, string) hashmap \<Rightarrow> bool" where
  "is_html_response headers =
     (case find (\<lambda>(k, _). eq_ignore_ascii_case k ''content-type'') headers of
        Some (_, v) \<Rightarrow> contains_str (to_lowercase v) ''text/html''
      | None \<Rightarrow> False)"

definition body_json :: "'w http_env \<Rightarrow> string \<Rightarrow> json" where
  "body_json env text = (case he_from_json env text of Some v \<Rightarrow> v | None \<Rightarrow> JString text)"

definition headers_json :: "(string \<times> string) list \<Rightarrow> json" where
  "headers_json hs = JObject (map (apsnd JString) hs)"

definition http_result :: "'w http_env \<Rightarrow> nat \<Rightarrow> (string, string) hashmap \<Rightarrow> string \<Rightarrow> duration \<Rightarrow> tool_output" where
  "http_result env status headers text elapsed =
     with_raw text (tool_success (JObject [(''status'', JNumber (show_nat status)), (''headers'', headers_json headers),
                                           (''body'', body_json env text)]) elapsed)"

definition finish_response ::
  "'w http_env \<Rightarrow> http_request \<Rightarrow> http_response \<Rightarrow> http_url \<Rightarrow> duration \<Rightarrow> 'w \<Rightarrow> (tool_error + tool_output) \<times> 'w" where
  "finish_response env intercept_req r url elapsed w =
     (let headers = visible_headers r
      in case check_content_length r of
           Inl e \<Rightarrow> (Inl e, w)
         | Inr _ \<Rightarrow>
             (case read_body [] (hr_chunks r) of
                Inl e \<Rightarrow> (Inl e, w)
              | Inr bytes \<Rightarrow>
                  (let text = he_lossy env bytes;
                       w = he_after env intercept_req \<lparr>rr_status = hr_status r, rr_headers = headers, rr_body = text\<rparr> w;
                       text = (if is_html_response headers
                               then (case he_markdown env text (hu_text url) of Some md \<Rightarrow> md | None \<Rightarrow> text) else text)
                   in (Inr (http_result env (hr_status r) headers text elapsed), w))))"

definition supported_methods :: "string list" where
  "supported_methods = [''GET'', ''POST'', ''PUT'', ''DELETE'', ''PATCH'']"

text \<open>Everything up to the request: its method, URL, headers and body, after validation, injection and scan.\<close>

definition prepare_request :: "'w http_env \<Rightarrow> http_tool \<Rightarrow> string \<Rightarrow> json \<Rightarrow> 'w \<Rightarrow> tool_error + http_request" where
  "prepare_request env t user params w =
     (case require_str params ''method'' of
        Inl e \<Rightarrow> Inl e
      | Inr verb \<Rightarrow>
     (case require_str params ''url'' of
        Inl e \<Rightarrow> Inl e
      | Inr url_text \<Rightarrow>
     (case validate_url env w url_text of
        Inl e \<Rightarrow> Inl e
      | Inr parsed \<Rightarrow>
     (case parse_headers_param (json_get params ''headers'') of
        Inl e \<Rightarrow> Inl e
      | Inr headers \<Rightarrow>
     (if to_uppercase verb \<notin> set supported_methods then Inl (InvalidParameters (''unsupported method: '' @ verb))
      else case body_bytes env (json_get params ''body'') of
        Inl e \<Rightarrow> Inl e
      | Inr body \<Rightarrow>
     (case inject_for_host env t user parsed headers of
        (url, headers) \<Rightarrow>
     (case outbound_scan env url headers body of
        Inl e \<Rightarrow> Inl e
      | Inr _ \<Rightarrow> Inr \<lparr>hq_method = to_uppercase verb, hq_url = url, hq_headers = headers, hq_body = body\<rparr>)))))))"

definition is_simple_get :: "http_request \<Rightarrow> bool" where
  "is_simple_get q \<longleftrightarrow> hq_method q = ''GET'' \<and> hq_headers q = [] \<and> hq_body q = None"

definition perform_request :: "'w http_env \<Rightarrow> http_request \<Rightarrow> 'w \<Rightarrow> (tool_error + http_response \<times> http_url) \<times> 'w" where
  "perform_request env q w =
     (if is_simple_get q then follow_redirects env MAX_REDIRECTS (hq_url q) w
      else case he_send env q w of
             (Inl e, w) \<Rightarrow> (Inl (send_failure e), w)
           | (Inr r, w) \<Rightarrow>
               (if is_redirect r
                then (Inl (NotAuthorized (''request returned redirect (HTTP '' @ show_nat (hr_status r)
                        @ ''), which is blocked to prevent SSRF'')), w)
                else (Inr (r, hq_url q), w)))"

definition http_execute ::
  "'w http_env \<Rightarrow> http_tool \<Rightarrow> string \<Rightarrow> duration \<Rightarrow> json \<Rightarrow> 'w \<Rightarrow> (tool_error + tool_output) \<times> 'w" where
  "http_execute env t user elapsed params w =
     (case prepare_request env t user params w of
        Inl e \<Rightarrow> (Inl e, w)
      | Inr q \<Rightarrow>
          (case he_before env q w of
             (Some rec, w) \<Rightarrow>
               (Inr (with_raw (rr_body rec) (tool_success (JObject
                  [(''status'', JNumber (show_nat (rr_status rec))),
                   (''headers'', headers_json (fold (\<lambda>(k, v) m. hm_insert k v m) (rr_headers rec) [])),
                   (''body'', body_json env (rr_body rec))]) elapsed)), w)
           | (None, w) \<Rightarrow>
               (case perform_request env q w of
                  (Inl e, w) \<Rightarrow> (Inl e, w)
                | (Inr (r, url), w) \<Rightarrow> finish_response env q r url elapsed w)))"

definition http_requires_approval ::
  "'w http_env \<Rightarrow> (string \<Rightarrow> cred_url option) \<Rightarrow> http_tool \<Rightarrow> json \<Rightarrow> approval_requirement" where
  "http_requires_approval env cred_parse t params =
     (if params_contain_manual_credentials cred_parse params then Always
      else if (case (ht_credentials t, extract_host_from_params env params) of
                 (Some (registry, _), Some host) \<Rightarrow> has_credentials_for_host registry host
               | _ \<Rightarrow> False) then Always
      else let verb = (case Option.bind (json_get params ''method'') as_str of Some m \<Rightarrow> m | None \<Rightarrow> ''GET'');
               has_headers = (case json_get params ''headers'' of
                                Some (JArray a) \<Rightarrow> a \<noteq> []
                              | Some (JObject obj) \<Rightarrow> obj \<noteq> []
                              | _ \<Rightarrow> False);
               has_body = json_get params ''body'' \<noteq> None
           in if eq_ignore_ascii_case verb ''GET'' \<and> \<not> has_headers \<and> \<not> has_body then Never
              else UnlessAutoApproved)"

section \<open>Targets\<close>

text \<open>What \<open>validate_url\<close> establishes about a URL, for the name resolution at that moment.\<close>

definition safe_target :: "'w http_env \<Rightarrow> 'w \<Rightarrow> http_url \<Rightarrow> bool" where
  "safe_target env w u \<longleftrightarrow> hu_scheme u = ''https'' \<and>
     (\<exists>h. hu_host u = Some h \<and> to_lowercase h \<noteq> ''localhost'' \<and> \<not> ends_with (to_lowercase h) ''.localhost''
        \<and> (\<forall>i. parse_ip h = Some i \<longrightarrow> \<not> is_disallowed_ip i)
        \<and> (\<forall>ips i. he_resolve env h (case hu_port u of Some p \<Rightarrow> p | None \<Rightarrow> 443) w = Some ips \<longrightarrow> i \<in> set ips \<longrightarrow>
             \<not> is_disallowed_ip i))"

lemma first_disallowed_None: "first_disallowed addrs = None \<longleftrightarrow> (\<forall>ips i. addrs = Some ips \<longrightarrow> i \<in> set ips \<longrightarrow> \<not> is_disallowed_ip i)"
  by (auto simp: first_disallowed_def find_None_iff split: option.splits)

lemma validate_url_Inr: "validate_url env w s = Inr u \<longleftrightarrow> he_parse env s = Inr u \<and> safe_target env w u"
proof (cases "he_parse env s")
  case (Inr p)
  show ?thesis
  proof (cases "hu_host p")
    case None
    then show ?thesis by (auto simp: validate_url_def safe_target_def Inr)
  next
    case (Some h)
    let ?port = "case hu_port p of Some p \<Rightarrow> p | None \<Rightarrow> 443"
    show ?thesis
      using first_disallowed_None [of "he_resolve env h ?port w"] Some
      by (cases "first_disallowed (he_resolve env h ?port w)"; cases "parse_ip h")
         (auto simp: validate_url_def safe_target_def Inr Let_def)
  qed
qed (auto simp: validate_url_def)

text \<open>
  The IPv4 blocks of the list as CIDR ranges: the private, loopback, link-local and multicast
  networks and the unspecified address.
\<close>

definition v4_number :: "u8 \<Rightarrow> u8 \<Rightarrow> u8 \<Rightarrow> u8 \<Rightarrow> nat" where
  "v4_number a b c d = ((unat a * 256 + unat b) * 256 + unat c) * 256 + unat d"

definition in_cidr :: "nat \<Rightarrow> nat \<times> nat \<Rightarrow> bool" where
  "in_cidr n block \<longleftrightarrow> n div 2 ^ (32 - snd block) = fst block div 2 ^ (32 - snd block)"

definition disallowed_blocks :: "(nat \<times> nat) list" where
  "disallowed_blocks =
     [(v4_number 10 0 0 0, 8), (v4_number 172 16 0 0, 12), (v4_number 192 168 0 0, 16), (v4_number 127 0 0 0, 8),
      (v4_number 169 254 0 0, 16), (v4_number 224 0 0 0, 4), (v4_number 0 0 0 0, 32)]"

lemma unat_u8: "unat (a::u8) < 256"
  using unsigned_less [of a] by simp

lemma v4_number_prefixes:
  "v4_number a b c d div 2 ^ 24 = unat a" "v4_number a b c d div 2 ^ 16 = unat a * 256 + unat b"
  "v4_number a b c d div 2 ^ 20 = unat a * 16 + unat b div 16" "v4_number a b c d div 2 ^ 28 = unat a div 16"
proof -
  let ?n = "v4_number a b c d"
  have "?n div 256 = (unat a * 256 + unat b) * 256 + unat c"
    using unat_u8 [of d] by (simp add: v4_number_def)
  then have "?n div 256 div 256 = unat a * 256 + unat b"
    using unat_u8 [of c] by simp
  then show ab: "?n div 2 ^ 16 = unat a * 256 + unat b"
    by (simp flip: div_mult2_eq)
  have "?n div 2 ^ 24 = ?n div 2 ^ 16 div 2 ^ 8" "?n div 2 ^ 20 = ?n div 2 ^ 16 div 2 ^ 4"
    "?n div 2 ^ 28 = ?n div 2 ^ 16 div 2 ^ 12"
    by (simp_all flip: div_mult2_eq)
  then show "?n div 2 ^ 24 = unat a" "?n div 2 ^ 20 = unat a * 16 + unat b div 16" "?n div 2 ^ 28 = unat a div 16"
    unfolding ab using unat_u8 [of b] by auto
qed

lemma in_blocks:
  "list_ex (in_cidr n) disallowed_blocks \<longleftrightarrow> n div 2 ^ 24 = 10 \<or> n div 2 ^ 20 = 172 * 16 + 1 \<or> n div 2 ^ 16 = 192 * 256 + 168
     \<or> n div 2 ^ 24 = 127 \<or> n div 2 ^ 16 = 169 * 256 + 254 \<or> n div 2 ^ 28 = 14 \<or> n = 0"
  by (simp add: disallowed_blocks_def in_cidr_def v4_number_def)

section \<open>What is sent\<close>

text \<open>A view of the world in which every request that is sent is recorded, and nothing else.\<close>

definition records :: "'w http_env \<Rightarrow> ('w \<Rightarrow> http_request list) \<Rightarrow> bool" where
  "records env sent \<longleftrightarrow>
     (\<forall>q w. sent (snd (he_send env q w)) = sent w @ [q] \<and> sent (snd (he_before env q w)) = sent w)
     \<and> (\<forall>q r w. sent (he_after env q r w) = sent w)"

definition plain_get :: "http_url \<Rightarrow> http_request" where
  "plain_get u = \<lparr>hq_method = ''GET'', hq_url = u, hq_headers = [accept_header], hq_body = None\<rparr>"

definition checked_hop :: "'w http_env \<Rightarrow> http_url \<Rightarrow> bool" where
  "checked_hop env u \<longleftrightarrow> (\<exists>w. safe_target env w u) \<and> outbound_scan env u [] None = Inr ()"

lemma follow_redirects_step:
  assumes "w1 = snd (he_send env (plain_get u) w)"
  shows "snd (follow_redirects env n u w) = w1
    \<or> (\<exists>m v. n = Suc m \<and> snd (follow_redirects env n u w) = snd (follow_redirects env m v w1) \<and> checked_hop env v)"
proof -
  obtain res where "he_send env (plain_get u) w = (res, w1)"
    unfolding assms by (cases "he_send env (plain_get u) w") simp
  then have send: "he_send env \<lparr>hq_method = ''GET'', hq_url = u, hq_headers = [accept_header], hq_body = None\<rparr> w = (res, w1)"
    by (simp add: plain_get_def)
  show ?thesis
    unfolding follow_redirects.simps [of env n u w] send
    by (cases res; cases n) (auto simp: validate_url_Inr checked_hop_def split: sum.splits)
qed

lemma follow_redirects_sent:
  assumes "records env sent"
  shows "\<exists>hops. sent (snd (follow_redirects env n u w)) = sent w @ map plain_get (u # hops)
    \<and> length hops \<le> n \<and> (\<forall>v \<in> set hops. checked_hop env v)"
proof (induction n arbitrary: u w rule: less_induct)
  case (less n)
  let ?w1 = "snd (he_send env (plain_get u) w)"
  have one: "sent ?w1 = sent w @ [plain_get u]"
    using assms by (simp add: records_def)
  from follow_redirects_step [OF refl, of env n u w] show ?case
  proof
    assume "snd (follow_redirects env n u w) = ?w1"
    with one show ?thesis by (intro exI [of _ "[]"]) simp
  next
    assume "\<exists>m v. n = Suc m \<and> snd (follow_redirects env n u w) = snd (follow_redirects env m v ?w1) \<and> checked_hop env v"
    then obtain m v where v: "n = Suc m" "snd (follow_redirects env n u w) = snd (follow_redirects env m v ?w1)" "checked_hop env v"
      by blast
    obtain hops where "sent (snd (follow_redirects env m v ?w1)) = sent ?w1 @ map plain_get (v # hops)"
      "length hops \<le> m" "\<forall>v \<in> set hops. checked_hop env v"
      using less [of m v ?w1] v(1) by auto
    with v one show ?thesis by (intro exI [of _ "v # hops"]) simp
  qed
qed

text \<open>Injection only appends query parameters to the URL and headers to the headers.\<close>

lemma inject_for_host_extends:
  "\<exists>ps hs. inject_for_host env t user u headers = (fold (he_append_pair env) ps u, headers @ hs)
     \<and> (find_for_host (case ht_credentials t of Some (r, _) \<Rightarrow> r | None \<Rightarrow> []) (case hu_host u of Some h \<Rightarrow> h | None \<Rightarrow> []) = []
          \<longrightarrow> ps = [] \<and> hs = [])"
proof -
  have "\<exists>ps hs. fold (inject_mapping env store user) ms (u, headers) = (fold (he_append_pair env) ps u, headers @ hs)" for store ms
  proof (induction ms arbitrary: u headers)
    case (Cons m ms)
    obtain ps hs where first: "inject_mapping env store user m (u, headers) = (fold (he_append_pair env) ps u, headers @ hs)"
    proof (cases "store user (cm_secret_name m)")
      case (Inl e)
      then show thesis using that [of "[]" "[]"] by (simp add: inject_mapping_def)
    qed (use that in \<open>auto simp: inject_mapping_def Let_def\<close>)
    obtain ps' hs' where "fold (inject_mapping env store user) ms (fold (he_append_pair env) ps u, headers @ hs)
        = (fold (he_append_pair env) ps' (fold (he_append_pair env) ps u), (headers @ hs) @ hs')"
      using Cons.IH by blast
    with first show ?case
      by (intro exI [of _ "ps @ ps'"] exI [of _ "hs @ hs'"]) simp
  qed (intro exI [of _ "[]"], simp)
  note ext = this
  show ?thesis
  proof (cases "ht_credentials t")
    case None
    then show ?thesis by (intro exI [of _ "[]"]) (simp add: inject_for_host_def)
  next
    case (Some rs)
    obtain r store where rs: "rs = (r, store)" by (cases rs)
    let ?ms = "find_for_host r (case hu_host u of Some h \<Rightarrow> h | None \<Rightarrow> [])"
    show ?thesis
    proof (cases "?ms = []")
      case True
      then show ?thesis by (intro exI [of _ "[]"]) (simp add: inject_for_host_def Some rs)
    next
      case False
      then show ?thesis using ext [of store ?ms] by (simp add: inject_for_host_def Some rs)
    qed
  qed
qed

text \<open>
  A request that was prepared: its URL is a validated one, extended by injected parameters, its
  headers and body passed the leak scan, and without credentials for the host it is as given.
\<close>

lemma prepare_request_Inr:
  assumes "prepare_request env t user params w = Inr q"
  shows "\<exists>url_text u ps headers hs. json_get params ''url'' = Some (JString url_text) \<and> he_parse env url_text = Inr u
    \<and> safe_target env w u \<and> hq_url q = fold (he_append_pair env) ps u
    \<and> parse_headers_param (json_get params ''headers'') = Inr headers \<and> hq_headers q = headers @ hs
    \<and> outbound_scan env (hq_url q) (hq_headers q) (hq_body q) = Inr ()
    \<and> (find_for_host (case ht_credentials t of Some (r, _) \<Rightarrow> r | None \<Rightarrow> []) (case hu_host u of Some h \<Rightarrow> h | None \<Rightarrow> []) = []
         \<longrightarrow> ps = [] \<and> hs = [])"
proof -
  obtain verb url_text u headers body where steps:
    "require_str params ''method'' = Inr verb" "require_str params ''url'' = Inr url_text"
    "validate_url env w url_text = Inr u" "parse_headers_param (json_get params ''headers'') = Inr headers"
    "body_bytes env (json_get params ''body'') = Inr body"
    using assms by (auto simp: prepare_request_def split: sum.splits if_splits)
  obtain ps hs where inj: "inject_for_host env t user u headers = (fold (he_append_pair env) ps u, headers @ hs)"
    and none: "find_for_host (case ht_credentials t of Some (r, _) \<Rightarrow> r | None \<Rightarrow> []) (case hu_host u of Some h \<Rightarrow> h | None \<Rightarrow> []) = []
          \<longrightarrow> ps = [] \<and> hs = []"
    using inject_for_host_extends [of env t user u headers] by blast
  have "outbound_scan env (fold (he_append_pair env) ps u) (headers @ hs) body = Inr ()"
    and q: "q = \<lparr>hq_method = to_uppercase verb, hq_url = fold (he_append_pair env) ps u, hq_headers = headers @ hs, hq_body = body\<rparr>"
    using assms by (auto simp: prepare_request_def steps inj split: sum.splits if_splits)
  moreover have "json_get params ''url'' = Some (JString url_text)"
    using steps(2) by (auto simp: require_str_def bind_eq_Some_conv elim!: as_str.elims split: option.splits)
  ultimately show ?thesis
    using steps(3,4) none by (auto simp: validate_url_Inr)
qed

lemma http_execute_sent:
  assumes "records env sent" and "prepare_request env t user params w = Inr q"
  shows "sent (snd (http_execute env t user d params w)) = sent w
    \<or> sent (snd (http_execute env t user d params w)) = sent (snd (perform_request env q (snd (he_before env q w))))"
  using assms(1)
  by (auto simp: http_execute_def assms(2) finish_response_def records_def Let_def
      split: prod.splits option.splits sum.splits) (metis snd_conv)+

lemma perform_request_sent:
  assumes "records env sent"
  shows "(\<not> is_simple_get q \<and> sent (snd (perform_request env q w)) = sent w @ [q])
    \<or> (is_simple_get q \<and> (\<exists>hops. sent (snd (perform_request env q w)) = sent w @ map plain_get (hq_url q # hops)
         \<and> length hops \<le> MAX_REDIRECTS \<and> (\<forall>v \<in> set hops. checked_hop env v)))"
proof (cases "is_simple_get q")
  case True
  then show ?thesis
    using follow_redirects_sent [OF assms, of MAX_REDIRECTS "hq_url q" w] by (simp add: perform_request_def)
next
  case False
  have "snd (perform_request env q w) = snd (he_send env q w)"
    using False by (auto simp: perform_request_def split: prod.splits sum.splits)
  with False assms show ?thesis by (simp add: records_def)
qed

lemma to_uppercase_of_get: "eq_ignore_ascii_case verb ''GET'' \<Longrightarrow> to_uppercase verb = ''GET''"
proof -
  have upper: "upper_char (lower_char c) = upper_char c" for c
    by (auto simp: upper_char_def lower_char_def Let_def)
  have "to_uppercase (to_lowercase s) = to_uppercase s" for s
    by (simp add: to_uppercase_def to_lowercase_def upper)
  moreover have "to_uppercase (to_lowercase ''GET'') = ''GET''" by code_simp
  ultimately show "eq_ignore_ascii_case verb ''GET'' \<Longrightarrow> to_uppercase verb = ''GET''"
    by (metis eq_ignore_ascii_case_def)
qed

lemma prepare_request_simple:
  assumes "prepare_request env t user params w = Inr q" and "json_get params ''body'' = None"
    and "eq_ignore_ascii_case (case Option.bind (json_get params ''method'') as_str of Some m \<Rightarrow> m | None \<Rightarrow> ''GET'') ''GET''"
  shows "hq_method q = ''GET'' \<and> hq_body q = None"
  using assms
  by (auto simp: prepare_request_def require_str_def body_bytes_def to_uppercase_of_get
      split: sum.splits option.splits if_splits prod.splits)

text \<open>No response body above the limit is ever returned.\<close>

lemma read_body_bounded: "read_body body chunks = Inr r \<Longrightarrow> length body \<le> MAX_RESPONSE_SIZE \<Longrightarrow> length r \<le> MAX_RESPONSE_SIZE"
  by (induction body chunks rule: read_body.induct) (auto split: if_splits)

section \<open>Departures from the intent\<close>

text \<open>An IPv4 address written as an IPv6 address is not recognised as local.\<close>

lemma mapped_loopback_allowed:
  "is_disallowed_ip (V4 127 0 0 1) \<and> \<not> is_disallowed_ip (V6 [0, 0, 0, 0, 0, 0xffff, 0x7f00, 1])"
  by (simp add: v4_is_loopback_def v6_loopback_def)

text \<open>
  Injected credentials are scanned as if they were leaks: a request whose injected header looks
  like a secret of a blocking pattern is refused, whatever the user approved.
\<close>

lemma injected_key_refused:
  assumes "lawful_filter (he_build env) (he_regex env) default_patterns"
    and "require_str params ''method'' = Inr verb" and "to_uppercase verb \<in> set supported_methods"
    and "require_str params ''url'' = Inr url_text" and "validate_url env w url_text = Inr u"
    and "parse_headers_param (json_get params ''headers'') = Inr headers"
    and "body_bytes env (json_get params ''body'') = Inr body"
    and "inject_for_host env t user u headers = (url, hs)" and "(n, v) \<in> set hs"
    and "leaks_blocked (he_regex env) default_patterns v"
  shows "\<exists>e. http_execute env t user d params w = (Inl (NotAuthorized e), w)"
proof -
  have "scan_http_request (he_lossy env) (he_regex env) (leak_detector_new (he_build env)) (hu_text url) hs body \<noteq> Inr ()"
    unfolding leak_detector_new_def
    using assms(9,10) scan_and_clean_ok_iff [OF assms(1)] scan_headers_ok_iff [of "he_regex env" _ hs]
    by (fastforce simp: scan_http_request_def split: sum.splits)
  then obtain e where "outbound_scan env url hs body = Inl (NotAuthorized e)"
    by (cases "scan_http_request (he_lossy env) (he_regex env) (leak_detector_new (he_build env)) (hu_text url) hs body")
       (auto simp: outbound_scan_def)
  then show ?thesis
    using assms(2-8) by (simp add: http_execute_def prepare_request_def)
qed

section \<open>Theorems\<close>

text \<open>
  C11. What one call of the HTTP tool sends. It sends at most four requests, and more than one
  only for a simple GET, where each is a plain GET without body. The first goes to the URL of the
  parameters, possibly with injected query parameters, every other one to a redirect target; and
  every such URL was checked when it was taken up: it is https, its host is neither local by name
  nor by any address it resolved to, and the URL passed the leak scan.
\<close>

theorem http_requests_guarded:
  assumes "records env sent"
  shows "\<exists>reqs. sent (snd (http_execute env t user d params w)) = sent w @ reqs
    \<and> length reqs \<le> Suc MAX_REDIRECTS
    \<and> (\<forall>q \<in> set (drop 1 reqs). checked_hop env (hq_url q))
    \<and> (reqs \<noteq> [] \<longrightarrow> (\<exists>u ps hs. safe_target env w u \<and> hq_url (hd reqs) = fold (he_append_pair env) ps u
          \<and> set (hq_headers (hd reqs)) \<subseteq> insert accept_header (set hs)
          \<and> outbound_scan env (hq_url (hd reqs)) hs (hq_body (hd reqs)) = Inr ()))
    \<and> (1 < length reqs \<longrightarrow> (\<forall>q \<in> set reqs. q = plain_get (hq_url q)))"
proof (cases "prepare_request env t user params w")
  case (Inl e)
  then show ?thesis by (intro exI [of _ "[]"]) (simp add: http_execute_def)
next
  case (Inr q)
  let ?w = "snd (he_before env q w)"
  have before: "sent ?w = sent w" using assms by (simp add: records_def)
  obtain u ps where q: "safe_target env w u" "hq_url q = fold (he_append_pair env) ps u"
    "outbound_scan env (hq_url q) (hq_headers q) (hq_body q) = Inr ()"
    using prepare_request_Inr [OF Inr] by blast
  from http_execute_sent [OF assms Inr, of d] show ?thesis
  proof
    assume "sent (snd (http_execute env t user d params w)) = sent w"
    then show ?thesis by (intro exI [of _ "[]"]) simp
  next
    assume run: "sent (snd (http_execute env t user d params w)) = sent (snd (perform_request env q ?w))"
    from perform_request_sent [OF assms, of q ?w] show ?thesis
    proof
      assume "\<not> is_simple_get q \<and> sent (snd (perform_request env q ?w)) = sent ?w @ [q]"
      with run before q show ?thesis by (intro exI [of _ "[q]"]) auto
    next
      assume "is_simple_get q \<and> (\<exists>hops. sent (snd (perform_request env q ?w)) = sent ?w @ map plain_get (hq_url q # hops)
         \<and> length hops \<le> MAX_REDIRECTS \<and> (\<forall>v \<in> set hops. checked_hop env v))"
      then obtain hops where hops: "is_simple_get q" "sent (snd (perform_request env q ?w)) = sent ?w @ map plain_get (hq_url q # hops)"
        "length hops \<le> MAX_REDIRECTS" "\<forall>v \<in> set hops. checked_hop env v" by blast
      have first: "\<exists>u ps hs. safe_target env w u \<and> hq_url (plain_get (hq_url q)) = fold (he_append_pair env) ps u
          \<and> set (hq_headers (plain_get (hq_url q))) \<subseteq> insert accept_header (set hs)
          \<and> outbound_scan env (hq_url (plain_get (hq_url q))) hs (hq_body (plain_get (hq_url q))) = Inr ()"
        using q hops(1) by (intro exI [of _ u] exI [of _ ps] exI [of _ "[]"]) (auto simp: plain_get_def is_simple_get_def)
      have "\<forall>v \<in> set (map plain_get (hq_url q # hops)). v = plain_get (hq_url v)"
        by (auto simp: plain_get_def)
      moreover have "\<forall>v \<in> set (drop 1 (map plain_get (hq_url q # hops))). checked_hop env (hq_url v)"
        using hops(4) by (auto simp: plain_get_def)
      ultimately show ?thesis
        using run before hops(2,3) first by (intro exI [of _ "map plain_get (hq_url q # hops)"]) simp
    qed
  qed
qed

text \<open>
  C23. A request that needs no approval carries nothing of the user: it is a simple GET, to the very
  URL of the parameters, without headers and body, and no credential is injected.
\<close>

theorem unapproved_request_plain:
  assumes "http_requires_approval env cred_parse t params = Never"
    and "prepare_request env t user params w = Inr q"
  shows "is_simple_get q \<and> \<not> params_contain_manual_credentials cred_parse params
    \<and> (\<exists>url. json_get params ''url'' = Some (JString url) \<and> he_parse env url = Inr (hq_url q))"
proof -
  obtain url u ps headers hs where q: "json_get params ''url'' = Some (JString url)" "he_parse env url = Inr u"
    "safe_target env w u" "hq_url q = fold (he_append_pair env) ps u"
    "parse_headers_param (json_get params ''headers'') = Inr headers" "hq_headers q = headers @ hs"
    and none: "find_for_host (case ht_credentials t of Some (r, _) \<Rightarrow> r | None \<Rightarrow> []) (case hu_host u of Some h \<Rightarrow> h | None \<Rightarrow> []) = []
      \<longrightarrow> ps = [] \<and> hs = []"
    using prepare_request_Inr [OF assms(2)] by blast
  have manual: "\<not> params_contain_manual_credentials cred_parse params"
    and host: "\<not> (case (ht_credentials t, extract_host_from_params env params) of
        (Some (r, _), Some h) \<Rightarrow> has_credentials_for_host r h | _ \<Rightarrow> False)"
    and plain: "eq_ignore_ascii_case (case Option.bind (json_get params ''method'') as_str of Some m \<Rightarrow> m | None \<Rightarrow> ''GET'') ''GET''"
      "\<not> (case json_get params ''headers'' of Some (JArray a) \<Rightarrow> a \<noteq> [] | Some (JObject obj) \<Rightarrow> obj \<noteq> [] | _ \<Rightarrow> False)"
      "json_get params ''body'' = None"
    using assms(1) by (auto simp: http_requires_approval_def Let_def split: if_splits)
  from q(3) obtain h where h: "hu_host u = Some h" by (auto simp: safe_target_def)
  then have "find_for_host (case ht_credentials t of Some (r, _) \<Rightarrow> r | None \<Rightarrow> []) h = []"
    using host q(1,2) has_credentials_iff_found
    by (auto simp: extract_host_from_params_def find_for_host_def split: option.splits)
  with none h have inj: "ps = []" "hs = []" by auto
  have "headers = []"
    using q(5) plain(2) by (auto simp: parse_headers_param_def split: option.splits json.splits)
  moreover have "hq_method q = ''GET'' \<and> hq_body q = None"
    by (rule prepare_request_simple [OF assms(2) plain(3,1)])
  ultimately show ?thesis
    using q inj manual by (simp add: is_simple_get_def)
qed

theorem http_requests_guarded_witness:
  "\<exists>(env :: http_request list http_env) sent. records env sent \<and> length (sent (snd (http_execute env http_tool_new ''u'' 0
      (JObject [(''method'', JString ''get''), (''url'', JString ''a'')]) []))) = 2
    \<and> (\<exists>reqs. sent (snd (http_execute env http_tool_new ''u'' 0 (JObject [(''method'', JString ''get''), (''url'', JString ''a'')]) []))
          = sent [] @ reqs \<and> length reqs \<le> Suc MAX_REDIRECTS \<and> (\<forall>q \<in> set (drop 1 reqs). checked_hop env (hq_url q)))"
proof -
  define env :: "http_request list http_env" where
    "env = \<lparr>he_parse = (\<lambda>s. Inr \<lparr>hu_text = s, hu_scheme = ''https'', hu_host = Some s, hu_port = None\<rparr>),
       he_join = (\<lambda>u s. Inr s), he_append_pair = (\<lambda>p u. u), he_resolve = (\<lambda>h p w. Some [V4 1 1 1 1]), he_show_ip = (\<lambda>_. []),
       he_from_json = (\<lambda>_. None), he_to_json = (\<lambda>_. Inl []), he_lossy = id, he_regex = (\<lambda>p s. []), he_build = (\<lambda>_. None),
       he_send = (\<lambda>q w. (Inr (if w = [] then \<lparr>hr_status = 302, hr_headers = [(''location'', Some ''b'')], hr_chunks = []\<rparr>
                            else \<lparr>hr_status = 200, hr_headers = [], hr_chunks = []\<rparr>), w @ [q])),
       he_before = (\<lambda>q w. (None, w)), he_after = (\<lambda>q r w. w), he_markdown = (\<lambda>_ _. None)\<rparr>"
  have rec: "records env id"
    by (simp add: records_def env_def)
  have "length (snd (http_execute env http_tool_new ''u'' 0 (JObject [(''method'', JString ''get''), (''url'', JString ''a'')]) [])) = 2"
    unfolding env_def by code_simp
  with rec http_requests_guarded [OF rec, of http_tool_new "''u''" 0 "JObject [(''method'', JString ''get''), (''url'', JString ''a'')]" "[]"]
  show ?thesis by (intro exI [of _ env] exI [of _ id]) auto
qed

theorem unapproved_request_plain_witness:
  "\<exists>env :: unit http_env. \<exists>q. let params = JObject [(''method'', JString ''GET''), (''url'', JString ''a'')]
    in http_requires_approval env (\<lambda>_. None) http_tool_new params = Never
       \<and> prepare_request env http_tool_new ''u'' params () = Inr q \<and> is_simple_get q"
proof -
  define env :: "unit http_env" where
    "env = \<lparr>he_parse = (\<lambda>s. Inr \<lparr>hu_text = s, hu_scheme = ''https'', hu_host = Some s, hu_port = None\<rparr>),
       he_join = (\<lambda>u s. Inr s), he_append_pair = (\<lambda>p u. u), he_resolve = (\<lambda>h p w. None), he_show_ip = (\<lambda>_. []),
       he_from_json = (\<lambda>_. None), he_to_json = (\<lambda>_. Inl []), he_lossy = id, he_regex = (\<lambda>p s. []), he_build = (\<lambda>_. None),
       he_send = (\<lambda>q w. (Inl SendTimeout, w)),
       he_before = (\<lambda>q w. (None, w)), he_after = (\<lambda>q r w. w), he_markdown = (\<lambda>_ _. None)\<rparr>"
  let ?params = "JObject [(''method'', JString ''GET''), (''url'', JString ''a'')]"
  have never: "http_requires_approval env (\<lambda>_. None) http_tool_new ?params = Never"
    unfolding env_def by code_simp
  have "prepare_request env http_tool_new ''u'' ?params () = Inr \<lparr>hq_method = ''GET'',
      hq_url = \<lparr>hu_text = ''a'', hu_scheme = ''https'', hu_host = Some ''a'', hu_port = None\<rparr>, hq_headers = [], hq_body = None\<rparr>"
    unfolding env_def by code_simp
  with never unapproved_request_plain [OF never this] show ?thesis
    by (auto simp: Let_def)
qed

text \<open>
  The IPv4 addresses that are refused are exactly those of the private, loopback, link-local and
  multicast networks, and the unspecified address.
\<close>

theorem disallowed_v4_cidr: "is_disallowed_ip (V4 a b c d) \<longleftrightarrow> list_ex (in_cidr (v4_number a b c d)) disallowed_blocks"
proof -
  have link_local: "unat a * 256 + unat b = 43518 \<longleftrightarrow> unat a = 169 \<and> unat b = 254"
    using unat_u8 [of b] by arith
  have digits: "x * 16 + y = 2753 \<longleftrightarrow> x = 172 \<and> y = 1" if "y < 16" for x y :: nat
    using that by arith
  have "unat a * 16 + unat b div 16 = 2753 \<longleftrightarrow> unat a = 172 \<and> unat b div 16 = 1"
    using unat_u8 [of b] by (intro digits) simp
  moreover have "unat b div 16 = 1 \<longleftrightarrow> 16 \<le> unat b \<and> unat b \<le> 31"
    by auto
  moreover have "unat a * 256 + unat b = 49320 \<longleftrightarrow> unat a = 192 \<and> unat b = 168"
    using unat_u8 [of b] by arith
  ultimately have "v4_is_private a b \<longleftrightarrow> unat a = 10 \<or> unat a * 16 + unat b div 16 = 172 * 16 + 1 \<or> unat a * 256 + unat b = 192 * 256 + 168"
    by (simp add: v4_is_private_def word_unat_eq_iff word_le_nat_alt)
  moreover have "v4_is_loopback a \<longleftrightarrow> unat a = 127"
    by (auto simp: v4_is_loopback_def word_unat_eq_iff)
  moreover have "v4_is_link_local a b \<longleftrightarrow> unat a * 256 + unat b = 169 * 256 + 254"
    using link_local by (simp add: v4_is_link_local_def word_unat_eq_iff)
  moreover have "v4_is_multicast a \<longleftrightarrow> unat a div 16 = 14"
    by (auto simp: v4_is_multicast_def word_le_nat_alt)
  moreover have "(a = 0 \<and> b = 0 \<and> c = 0 \<and> d = 0) \<longleftrightarrow> v4_number a b c d = 0"
    by (auto simp: v4_number_def word_unat_eq_iff)
  moreover have "a = 169 \<and> b = 254 \<and> c = 169 \<and> d = 254 \<longrightarrow> v4_is_link_local a b"
    by (simp add: v4_is_link_local_def)
  ultimately show ?thesis
    unfolding in_blocks v4_number_prefixes is_disallowed_ip.simps by auto
qed

end
