(* ===== verification/Pairing.thy ===== *)
theory Pairing
  imports Prelude "HOL-Library.List_Lexorder" "HOL-Library.Char_ord"
begin

text \<open>
  \<open>src/pairing/store.rs\<close>: pairing of senders with a channel. An unknown sender gets a code; the owner
  approves the code, which puts the sender on the channel's allow list; failed approvals are rate
  limited. The store is three files per channel. A file is absent, or holds what its JSON text
  stands for, or text that does not parse, as an empty file does. Failures of the file system other
  than an absent file are left out. The clock, its RFC 3339 text and the random numbers are arguments.
\<close>

section \<open>Data\<close>

definition PAIRING_CODE_LENGTH :: nat where
  "PAIRING_CODE_LENGTH = 8"

definition PAIRING_ALPHABET :: string where
  "PAIRING_ALPHABET = ''ABCDEFGHJKLMNPQRSTUVWXYZ23456789''"

definition PAIRING_PENDING_TTL_SECS :: nat where
  "PAIRING_PENDING_TTL_SECS = 15 * 60"

definition PAIRING_PENDING_MAX :: nat where
  "PAIRING_PENDING_MAX = 3"

definition PAIRING_APPROVE_RATE_LIMIT :: nat where
  "PAIRING_APPROVE_RATE_LIMIT = 10"

definition PAIRING_APPROVE_RATE_WINDOW_SECS :: nat where
  "PAIRING_APPROVE_RATE_WINDOW_SECS = 5 * 60"

datatype pairing_error = InvalidChannel string | ApproveRateLimited

record upsert_result =
  up_code :: string
  up_created :: bool

record pairing_request =
  pq_id :: string
  pq_code :: string
  pq_created_at :: string
  pq_last_seen_at :: string
  pq_meta :: "json option"

datatype 'a stored_file = Parsed 'a | Unparsed

record pairing_store =
  ps_pairing :: "(string, pairing_request list stored_file) hashmap"
  ps_allow_from :: "(string, string list stored_file) hashmap"
  ps_attempts :: "(string, nat list stored_file) hashmap"

definition pairing_store_new :: pairing_store where
  "pairing_store_new = \<lparr>ps_pairing = [], ps_allow_from = [], ps_attempts = []\<rparr>"

text \<open>Time and its text.\<close>

record calendar =
  cal_iso :: "nat \<Rightarrow> string"
  cal_parse :: "string \<Rightarrow> nat option"

definition contents :: "('k, 'a list stored_file) hashmap \<Rightarrow> 'k \<Rightarrow> 'a list" where
  "contents m k = (case hm_get m k of Some (Parsed xs) \<Rightarrow> xs | _ \<Rightarrow> [])"

section \<open>Keys, time and codes\<close>

definition unsafe_path_char :: "char \<Rightarrow> bool" where
  "unsafe_path_char c \<longleftrightarrow> c \<in> set ([CHR 0x5C, CHR 0x22] @ ''/:*?<>|'')"

definition safe_channel_key :: "string \<Rightarrow> pairing_error + string" where
  "safe_channel_key channel =
     (let raw = to_lowercase (trim channel)
      in if raw = [] then Inl (InvalidChannel ''empty'')
         else let safe = replace_str ''..'' ''_'' (map (\<lambda>c. if unsafe_path_char c then CHR ''_'' else c) raw)
         in if safe = [] \<or> safe = ''_'' then Inl (InvalidChannel channel) else Inr safe)"

definition is_expired :: "calendar \<Rightarrow> pairing_request \<Rightarrow> nat \<Rightarrow> bool" where
  "is_expired cal r now =
     (let created = (case cal_parse cal (pq_created_at r) of Some t \<Rightarrow> t | None \<Rightarrow> 0)
      in now - created > PAIRING_PENDING_TTL_SECS)"

text \<open>A draw gives an index into the alphabet for each place of the code.\<close>

definition random_code :: "(nat \<Rightarrow> nat) \<Rightarrow> string" where
  "random_code draw = map (\<lambda>i. PAIRING_ALPHABET ! draw i) [0..<PAIRING_CODE_LENGTH]"

text \<open>The draws are tried in order; after 500 collisions four digits are added.\<close>

definition four_digits :: "nat \<Rightarrow> string" where
  "four_digits n = replicate (4 - length (show_nat n)) (CHR ''0'') @ show_nat n"

definition generate_unique_code :: "(nat \<Rightarrow> nat \<Rightarrow> nat) \<Rightarrow> nat \<Rightarrow> string set \<Rightarrow> string" where
  "generate_unique_code draws suffix existing =
     (case find (\<lambda>k. random_code (draws k) \<notin> existing) [0..<500] of
        Some k \<Rightarrow> random_code (draws k)
      | None \<Rightarrow> random_code (draws 500) @ four_digits suffix)"

section \<open>Operations\<close>

definition list_pending :: "calendar \<Rightarrow> nat \<Rightarrow> string \<Rightarrow> pairing_store \<Rightarrow> (pairing_error + pairing_request list) \<times> pairing_store" where
  "list_pending cal now channel st =
     (case safe_channel_key channel of
        Inl e \<Rightarrow> (Inl e, st)
      | Inr key \<Rightarrow>
          (case hm_get (ps_pairing st) key of
             None \<Rightarrow> (Inr [], st)
           | Some _ \<Rightarrow>
               (let file = contents (ps_pairing st) key;
                    requests = filter (\<lambda>r. \<not> is_expired cal r now) file;
                    st = (if length requests \<noteq> length file
                          then st\<lparr>ps_pairing := hm_insert key (Parsed requests) (ps_pairing st)\<rparr> else st)
                in (Inr (sort_key pq_created_at requests), st))))"

definition upsert_request ::
  "calendar \<Rightarrow> (nat \<Rightarrow> nat \<Rightarrow> nat) \<Rightarrow> nat \<Rightarrow> nat \<Rightarrow> string \<Rightarrow> string \<Rightarrow> json option \<Rightarrow> pairing_store
   \<Rightarrow> (pairing_error + upsert_result) \<times> pairing_store" where
  "upsert_request cal draws suffix now channel sender meta st =
     (case safe_channel_key channel of
        Inl e \<Rightarrow> (Inl e, st)
      | Inr key \<Rightarrow>
          (let st = (case hm_get (ps_pairing st) key of
                       None \<Rightarrow> st\<lparr>ps_pairing := hm_insert key Unparsed (ps_pairing st)\<rparr>
                     | Some _ \<Rightarrow> st);
               requests = contents (ps_pairing st) key;
               sender = trim sender
           in if sender = [] then (Inl (InvalidChannel ''empty id''), st)
              else let requests = filter (\<lambda>r. \<not> is_expired cal r now) requests;
                       existing = set (map (\<lambda>r. to_uppercase (pq_code r)) requests)
              in case find (\<lambda>i. pq_id (requests ! i) = sender) [0..<length requests] of
                   Some i \<Rightarrow>
                     (let r = requests ! i;
                          code = (if pq_code r = [] then generate_unique_code draws suffix existing else pq_code r);
                          r = r\<lparr>pq_last_seen_at := cal_iso cal now, pq_code := code,
                                pq_meta := (case meta of Some m \<Rightarrow> Some m | None \<Rightarrow> pq_meta r)\<rparr>
                      in (Inr \<lparr>up_code = code, up_created = False\<rparr>,
                          st\<lparr>ps_pairing := hm_insert key (Parsed (requests[i := r])) (ps_pairing st)\<rparr>))
                 | None \<Rightarrow>
                     (if length requests \<ge> PAIRING_PENDING_MAX then (Inr \<lparr>up_code = [], up_created = False\<rparr>, st)
                      else let code = generate_unique_code draws suffix existing;
                               r = \<lparr>pq_id = sender, pq_code = code, pq_created_at = cal_iso cal now,
                                    pq_last_seen_at = cal_iso cal now, pq_meta = meta\<rparr>
                      in (Inr \<lparr>up_code = code, up_created = True\<rparr>,
                          st\<lparr>ps_pairing := hm_insert key (Parsed (requests @ [r])) (ps_pairing st)\<rparr>))))"

definition recent_failures :: "nat \<Rightarrow> nat list \<Rightarrow> nat list" where
  "recent_failures now failed = filter (\<lambda>t. t \<ge> now - PAIRING_APPROVE_RATE_WINDOW_SECS) failed"

definition is_approve_rate_limited :: "nat \<Rightarrow> string \<Rightarrow> pairing_store \<Rightarrow> bool" where
  "is_approve_rate_limited now key st =
     (case hm_get (ps_attempts st) key of
        None \<Rightarrow> False
      | Some _ \<Rightarrow> length (recent_failures now (contents (ps_attempts st) key)) \<ge> PAIRING_APPROVE_RATE_LIMIT)"

definition record_failed_approve :: "nat \<Rightarrow> string \<Rightarrow> pairing_store \<Rightarrow> pairing_store" where
  "record_failed_approve now key st =
     st\<lparr>ps_attempts := hm_insert key (Parsed (recent_failures now (contents (ps_attempts st) key @ [now]))) (ps_attempts st)\<rparr>"

text \<open>The file is truncated when it is opened, before it is read.\<close>

definition add_allow_from :: "string \<Rightarrow> string \<Rightarrow> pairing_store \<Rightarrow> pairing_store" where
  "add_allow_from key entry st =
     (let entry = trim entry
      in if entry = [] then st
         else let st = st\<lparr>ps_allow_from := hm_insert key Unparsed (ps_allow_from st)\<rparr>;
                  allow = contents (ps_allow_from st) key;
                  normalized = to_lowercase entry
         in if list_ex (\<lambda>e. to_lowercase e = normalized) allow then st
            else st\<lparr>ps_allow_from := hm_insert key (Parsed (allow @ [entry])) (ps_allow_from st)\<rparr>)"

definition approve :: "calendar \<Rightarrow> nat \<Rightarrow> string \<Rightarrow> string \<Rightarrow> pairing_store \<Rightarrow> (pairing_error + pairing_request option) \<times> pairing_store" where
  "approve cal now channel code st =
     (let code = to_uppercase (trim code)
      in if code = [] then (Inr None, st)
         else case safe_channel_key channel of
                Inl e \<Rightarrow> (Inl e, st)
              | Inr key \<Rightarrow>
                  (if is_approve_rate_limited now key st then (Inl ApproveRateLimited, st)
                   else case hm_get (ps_pairing st) key of
                          None \<Rightarrow> (Inl (InvalidChannel ''no pairing file''), st)
                        | Some _ \<Rightarrow>
                            (let requests = filter (\<lambda>r. \<not> is_expired cal r now) (contents (ps_pairing st) key)
                             in case find (\<lambda>i. to_uppercase (pq_code (requests ! i)) = code) [0..<length requests] of
                                  None \<Rightarrow> (Inr None, record_failed_approve now key st)
                                | Some i \<Rightarrow>
                                    (let st = st\<lparr>ps_pairing :=
                                               hm_insert key (Parsed (take i requests @ drop (Suc i) requests)) (ps_pairing st)\<rparr>
                                     in (Inr (Some (requests ! i)), add_allow_from key (pq_id (requests ! i)) st)))))"

definition read_allow_from :: "string \<Rightarrow> pairing_store \<Rightarrow> pairing_error + string list" where
  "read_allow_from channel st = map_sum id (contents (ps_allow_from st)) (safe_channel_key channel)"

definition username_matches :: "string \<Rightarrow> string \<Rightarrow> bool" where
  "username_matches username e =
     (let u = to_lowercase (trim username);
          u_norm = (case strip_prefix u ''@'' of Some r \<Rightarrow> r | None \<Rightarrow> u);
          e = to_lowercase (trim e)
      in e = u \<or> e = ''@'' @ u_norm)"

definition is_sender_allowed :: "string \<Rightarrow> string \<Rightarrow> string option \<Rightarrow> pairing_store \<Rightarrow> pairing_error + bool" where
  "is_sender_allowed channel sender username st =
     map_sum (\<lambda>e. e)
       (\<lambda>allow. list_ex (\<lambda>e. trim e = trim sender) allow
          \<or> (case username of Some u \<Rightarrow> list_ex (username_matches u) allow | None \<Rightarrow> False))
       (read_allow_from channel st)"

section \<open>Keys are safe in file names\<close>

lemma replace_dots_head: "s \<noteq> [] \<Longrightarrow> replace_str ''..'' ''_'' s = CHR ''.'' # r \<Longrightarrow> \<exists>t. s = CHR ''.'' # t \<and> \<not> starts_with t ''.''"
  by (cases s) (auto simp: starts_with_def split: if_splits)

lemma replace_dots: "\<not> contains_str (replace_str ''..'' ''_'' s) ''..''"
proof (induction "''..''" "''_''" s rule: replace_str.induct)
  case (2 c cs)
  show ?case
  proof (cases "starts_with (c # cs) ''..''")
    case True
    with 2 show ?thesis by (simp add: starts_with_def)
  next
    case False
    have "\<not> starts_with (c # replace_str ''..'' ''_'' cs) ''..''"
    proof
      assume "starts_with (c # replace_str ''..'' ''_'' cs) ''..''"
      then obtain r where r: "c = CHR ''.''" "replace_str ''..'' ''_'' cs = CHR ''.'' # r"
        by (cases "replace_str ''..'' ''_'' cs") (auto simp: starts_with_def)
      then have "cs \<noteq> []" by auto
      from replace_dots_head [OF this r(2)] r(1) False show False
        by (auto simp: starts_with_def)
    qed
    with False 2 show ?thesis by simp
  qed
qed simp

lemma safe_channel_key_safe:
  assumes "safe_channel_key channel = Inr key"
  shows "key \<noteq> [] \<and> \<not> contains_str key ''..'' \<and> (\<forall>c \<in> set key. \<not> unsafe_path_char c)"
proof -
  let ?s = "map (\<lambda>c. if unsafe_path_char c then CHR ''_'' else c) (to_lowercase (trim channel))"
  have key: "key = replace_str ''..'' ''_'' ?s" "key \<noteq> []"
    using assms by (auto simp: safe_channel_key_def Let_def split: if_splits)
  have "\<not> unsafe_path_char (CHR ''_'')"
    by (simp add: unsafe_path_char_def)
  then have "\<forall>c \<in> set ?s \<union> set ''_''. \<not> unsafe_path_char c"
    by auto
  then have "\<forall>c \<in> set key. \<not> unsafe_path_char c"
    using set_replace_str [of "''..''" "''_''" ?s] key(1) by blast
  with key replace_dots show ?thesis by simp
qed

section \<open>Codes\<close>

lemma generate_unique_code_fresh:
  assumes "k < 500" and "random_code (draws k) \<notin> existing"
  shows "generate_unique_code draws suffix existing \<notin> existing"
proof -
  have "find (\<lambda>k. random_code (draws k) \<notin> existing) [0..<500] \<noteq> None"
    using assms by (auto simp: find_None_iff)
  then obtain m where m: "find (\<lambda>k. random_code (draws k) \<notin> existing) [0..<500] = Some m" by blast
  then have "random_code (draws m) \<notin> existing"
    by (auto simp: find_Some_iff)
  with m show ?thesis by (simp add: generate_unique_code_def)
qed

section \<open>Stored lists\<close>

lemma contents_insert: "contents (hm_insert k f m) k' = (if k' = k then (case f of Parsed xs \<Rightarrow> xs | Unparsed \<Rightarrow> []) else contents m k')"
  by (auto simp: contents_def hm_get_insert split: stored_file.splits)

lemma contents_absent: "hm_get m k = None \<Longrightarrow> contents m k = []"
  by (simp add: contents_def)

lemma add_allow_from_contents:
  "contents (ps_allow_from (add_allow_from key entry st)) k =
     (if k = key \<and> trim entry \<noteq> [] then [trim entry] else contents (ps_allow_from st) k)"
  by (simp add: add_allow_from_def Let_def contents_insert)

lemma add_allow_from_other [simp]:
  "ps_pairing (add_allow_from key entry st) = ps_pairing st" "ps_attempts (add_allow_from key entry st) = ps_attempts st"
  by (simp_all add: add_allow_from_def Let_def)

lemma record_failed_other [simp]:
  "ps_pairing (record_failed_approve now key st) = ps_pairing st"
  "ps_allow_from (record_failed_approve now key st) = ps_allow_from st"
  by (simp_all add: record_failed_approve_def)

text \<open>
  The three outcomes of an approval that is not refused: nothing asked, a failure that is recorded,
  or a request that leaves the pending ones and whose sender is put on the list.
\<close>

lemma approve_success:
  assumes "approve cal now channel code st = (Inr (Some r), st')"
  shows "\<exists>key i. safe_channel_key channel = Inr key \<and> \<not> is_approve_rate_limited now key st
    \<and> (let fresh = filter (\<lambda>r. \<not> is_expired cal r now) (contents (ps_pairing st) key)
       in i < length fresh \<and> r = fresh ! i \<and> to_uppercase (pq_code r) = to_uppercase (trim code)
          \<and> st' = add_allow_from key (pq_id r) (st\<lparr>ps_pairing :=
               hm_insert key (Parsed (take i fresh @ drop (Suc i) fresh)) (ps_pairing st)\<rparr>))"
  using assms by (auto simp: approve_def Let_def find_Some_iff split: if_splits sum.splits option.splits)

lemma approve_no_success:
  assumes "approve cal now channel code st = (res, st')" and "\<And>r. res \<noteq> Inr (Some r)"
  shows "st' = st \<or> (\<exists>key. safe_channel_key channel = Inr key \<and> \<not> is_approve_rate_limited now key st
    \<and> res = Inr None \<and> st' = record_failed_approve now key st)"
  using assms by (auto simp: approve_def Let_def split: if_splits sum.splits option.splits)

section \<open>Runs\<close>

text \<open>The calls that change the store, each at a time and with its random numbers.\<close>

datatype pairing_op =
    ListPending nat string
  | Upsert "nat \<Rightarrow> nat \<Rightarrow> nat" nat nat string string "json option"
  | Approve nat string string

fun pairing_step :: "calendar \<Rightarrow> pairing_store \<Rightarrow> pairing_op \<Rightarrow> pairing_store" where
  "pairing_step cal st (ListPending now channel) = snd (list_pending cal now channel st)"
| "pairing_step cal st (Upsert draws suffix now channel sender meta) =
     snd (upsert_request cal draws suffix now channel sender meta st)"
| "pairing_step cal st (Approve now channel code) = snd (approve cal now channel code st)"

definition pairing_run :: "calendar \<Rightarrow> pairing_op list \<Rightarrow> pairing_store" where
  "pairing_run cal ops = foldl (pairing_step cal) pairing_store_new ops"

lemma pairing_run_snoc: "pairing_run cal (ops @ [x]) = pairing_step cal (pairing_run cal ops) x"
  by (simp add: pairing_run_def)

lemma list_pending_pairing:
  "contents (ps_pairing (snd (list_pending cal now channel st))) k =
     (if safe_channel_key channel = Inr k then filter (\<lambda>r. \<not> is_expired cal r now) (contents (ps_pairing st) k)
      else contents (ps_pairing st) k)"
proof (cases "safe_channel_key channel")
  case (Inr key)
  have all: "filter P xs = xs" if "length (filter P xs) = length xs" for P and xs :: "pairing_request list"
    using that by (metis filter_True length_filter_less less_irrefl)
  show ?thesis
    using all [of "\<lambda>r. \<not> is_expired cal r now" "contents (ps_pairing st) key"]
    by (cases "hm_get (ps_pairing st) key") (auto simp: list_pending_def Inr Let_def contents_insert contents_absent)
qed (simp add: list_pending_def)

lemma list_pending_other [simp]:
  "ps_allow_from (snd (list_pending cal now channel st)) = ps_allow_from st"
  "ps_attempts (snd (list_pending cal now channel st)) = ps_attempts st"
  by (auto simp: list_pending_def Let_def split: sum.splits option.splits)

lemma upsert_other [simp]:
  "ps_allow_from (snd (upsert_request cal draws suffix now channel sender meta st)) = ps_allow_from st"
  "ps_attempts (snd (upsert_request cal draws suffix now channel sender meta st)) = ps_attempts st"
  by (auto simp: upsert_request_def Let_def split: sum.splits option.splits)

text \<open>The pending requests after an upsert: the same, one updated, or one more below the limit.\<close>

lemma upsert_pairing:
  fixes cal draws suffix now channel sender meta st
  defines "st' \<equiv> snd (upsert_request cal draws suffix now channel sender meta st)"
  defines "fresh \<equiv> \<lambda>k. filter (\<lambda>r. \<not> is_expired cal r now) (contents (ps_pairing st) k)"
  shows "contents (ps_pairing st') k = contents (ps_pairing st) k
    \<or> safe_channel_key channel = Inr k \<and> trim sender \<noteq> []
      \<and> ((\<exists>i r. i < length (fresh k) \<and> pq_id (fresh k ! i) = trim sender \<and> pq_id r = trim sender
             \<and> contents (ps_pairing st') k = (fresh k)[i := r])
         \<or> (\<exists>r. length (fresh k) < PAIRING_PENDING_MAX \<and> pq_id r = trim sender
             \<and> contents (ps_pairing st') k = fresh k @ [r]))"
proof (cases "safe_channel_key channel")
  case (Inr key)
  let ?st = "case hm_get (ps_pairing st) key of None \<Rightarrow> st\<lparr>ps_pairing := hm_insert key Unparsed (ps_pairing st)\<rparr> | Some _ \<Rightarrow> st"
  have st: "contents (ps_pairing ?st) k = contents (ps_pairing st) k" for k
    by (auto simp: contents_insert contents_absent split: option.splits)
  show ?thesis
  proof (cases "trim sender = []")
    case True
    then show ?thesis by (simp add: st'_def upsert_request_def Inr Let_def st)
  next
    case False
    define i where "i = find (\<lambda>i. pq_id (fresh key ! i) = trim sender) [0..<length (fresh key)]"
    show ?thesis
    proof (cases i)
      case None
      then show ?thesis
        using False by (auto simp: st'_def upsert_request_def Inr Let_def st contents_insert i_def fresh_def)
    next
      case (Some j)
      then have j: "j < length (fresh key)" "pq_id (fresh key ! j) = trim sender"
        by (auto simp: i_def find_Some_iff)
      define code where "code = (if pq_code (fresh key ! j) = []
        then generate_unique_code draws suffix (set (map (\<lambda>r. to_uppercase (pq_code r)) (fresh key))) else pq_code (fresh key ! j))"
      define r where "r = (fresh key ! j)\<lparr>pq_last_seen_at := cal_iso cal now, pq_code := code,
        pq_meta := (case meta of Some m \<Rightarrow> Some m | None \<Rightarrow> pq_meta (fresh key ! j))\<rparr>"
      have "contents (ps_pairing st') k = (if k = key then (fresh key)[j := r] else contents (ps_pairing st) k)"
        using Some [unfolded i_def fresh_def] False unfolding r_def code_def fresh_def st'_def
        by (simp add: upsert_request_def Inr Let_def st contents_insert)
      moreover have "pq_id r = trim sender" using j(2) by (simp add: r_def)
      ultimately show ?thesis using j False Inr by auto
    qed
  qed
qed (simp add: st'_def upsert_request_def)

lemma approve_pairing:
  assumes "approve cal now channel code st = (res, st')"
  shows "set (contents (ps_pairing st') k) \<subseteq> set (contents (ps_pairing st) k)
    \<and> length (contents (ps_pairing st') k) \<le> length (contents (ps_pairing st) k)"
proof (cases "\<exists>r. res = Inr (Some r)")
  case True
  then obtain r where "approve cal now channel code st = (Inr (Some r), st')"
    using assms by blast
  from approve_success [OF this] obtain key i where key: "safe_channel_key channel = Inr key"
    "i < length (filter (\<lambda>r. \<not> is_expired cal r now) (contents (ps_pairing st) key))"
    "st' = add_allow_from key (pq_id r) (st\<lparr>ps_pairing := hm_insert key
       (Parsed (take i (filter (\<lambda>r. \<not> is_expired cal r now) (contents (ps_pairing st) key))
          @ drop (Suc i) (filter (\<lambda>r. \<not> is_expired cal r now) (contents (ps_pairing st) key)))) (ps_pairing st)\<rparr>)"
    unfolding Let_def by blast
  have "length (filter (\<lambda>r. \<not> is_expired cal r now) (contents (ps_pairing st) key)) \<le> length (contents (ps_pairing st) key)"
    by simp
  then show ?thesis
    unfolding key(3) using key(2)
    by (auto simp: contents_insert dest!: in_set_takeD in_set_dropD intro: order.trans [OF diff_le_self])
next
  case False
  then show ?thesis using approve_no_success [OF assms] by auto
qed

text \<open>Whoever is pending has asked, and no channel has more pending requests than the limit.\<close>

lemma pending_asked:
  "r \<in> set (contents (ps_pairing (pairing_run cal ops)) k) \<Longrightarrow>
   \<exists>draws suffix now channel sender meta. Upsert draws suffix now channel sender meta \<in> set ops
     \<and> safe_channel_key channel = Inr k \<and> pq_id r = trim sender"
proof (induction ops arbitrary: r rule: rev_induct)
  case Nil
  then show ?case by (simp add: pairing_run_def pairing_store_new_def contents_def)
next
  case (snoc x ops)
  let ?st = "pairing_run cal ops"
  have old: ?case if "r' \<in> set (contents (ps_pairing ?st) k)" "pq_id r = pq_id r'" for r'
    using snoc.IH [OF that(1)] that(2) by fastforce
  show ?case
  proof (cases x)
    case (ListPending now channel)
    then show ?thesis
      using snoc.prems old [of r] by (auto simp: pairing_run_snoc list_pending_pairing split: if_splits)
  next
    case (Upsert draws suffix now channel sender meta)
    then have r: "r \<in> set (contents (ps_pairing (snd (upsert_request cal draws suffix now channel sender meta ?st))) k)"
      using snoc.prems by (simp add: pairing_run_snoc)
    from upsert_pairing [of cal draws suffix now channel sender meta ?st k] r
    have "r \<in> set (contents (ps_pairing ?st) k) \<or> safe_channel_key channel = Inr k \<and> pq_id r = trim sender"
      by (auto dest!: subsetD [OF set_update_subset_insert])
    then show ?thesis
    proof
      assume "r \<in> set (contents (ps_pairing ?st) k)"
      then show ?thesis using old [of r] by simp
    next
      assume "safe_channel_key channel = Inr k \<and> pq_id r = trim sender"
      moreover have "Upsert draws suffix now channel sender meta \<in> set (ops @ [x])"
        using Upsert by simp
      ultimately show ?thesis by blast
    qed
  next
    case (Approve now channel code)
    then show ?thesis
      using snoc.prems old [of r] approve_pairing [OF prod.collapse [symmetric], of cal now channel code ?st k]
      by (auto simp: pairing_run_snoc)
  qed
qed

lemma pending_bounded: "length (contents (ps_pairing (pairing_run cal ops)) k) \<le> PAIRING_PENDING_MAX"
proof (induction ops rule: rev_induct)
  case Nil
  then show ?case by (simp add: pairing_run_def pairing_store_new_def contents_def)
next
  case (snoc x ops)
  let ?st = "pairing_run cal ops"
  show ?case
  proof (cases x)
    case (ListPending now channel)
    then show ?thesis
      using snoc.IH by (auto simp: pairing_run_snoc list_pending_pairing intro: order.trans [OF length_filter_le])
  next
    case (Upsert draws suffix now channel sender meta)
    have "length (filter (\<lambda>r. \<not> is_expired cal r now) (contents (ps_pairing ?st) k)) \<le> PAIRING_PENDING_MAX"
      using snoc.IH order.trans [OF length_filter_le] by blast
    with Upsert show ?thesis
      using upsert_pairing [of cal draws suffix now channel sender meta ?st k] snoc.IH by (auto simp: pairing_run_snoc)
  next
    case (Approve now channel code)
    have "length (contents (ps_pairing (snd (approve cal now channel code ?st))) k) \<le> length (contents (ps_pairing ?st) k)"
      using approve_pairing [OF prod.collapse [symmetric]] by blast
    with Approve snoc.IH show ?thesis by (simp add: pairing_run_snoc)
  qed
qed

section \<open>Failed approvals\<close>

fun op_time :: "pairing_op \<Rightarrow> nat" where
  "op_time (ListPending now channel) = now"
| "op_time (Upsert draws suffix now channel sender meta) = now"
| "op_time (Approve now channel code) = now"

text \<open>The times at which a wrong code was tried on the channel with the given key.\<close>

definition failed_now :: "calendar \<Rightarrow> string \<Rightarrow> pairing_store \<Rightarrow> pairing_op \<Rightarrow> nat list" where
  "failed_now cal k st x =
     (case x of
        Approve now channel code \<Rightarrow>
          (if safe_channel_key channel = Inr k \<and> to_uppercase (trim code) \<noteq> [] \<and> fst (approve cal now channel code st) = Inr None
           then [now] else [])
      | _ \<Rightarrow> [])"

fun failures :: "calendar \<Rightarrow> string \<Rightarrow> pairing_store \<Rightarrow> pairing_op list \<Rightarrow> nat list" where
  "failures cal k st [] = []"
| "failures cal k st (x # xs) = failed_now cal k st x @ failures cal k (pairing_step cal st x) xs"

lemma failures_snoc: "failures cal k st (xs @ [x]) = failures cal k st xs @ failed_now cal k (foldl (pairing_step cal) st xs) x"
  by (induction xs arbitrary: st) simp_all

lemma rate_limited_iff:
  "is_approve_rate_limited now k st \<longleftrightarrow> PAIRING_APPROVE_RATE_LIMIT \<le> length (recent_failures now (contents (ps_attempts st) k))"
  by (auto simp: is_approve_rate_limited_def contents_absent recent_failures_def PAIRING_APPROVE_RATE_LIMIT_def split: option.splits)

text \<open>What an operation adds to the recorded failures of a channel.\<close>

lemma step_attempts:
  "contents (ps_attempts (pairing_step cal st x)) k =
     (case failed_now cal k st x of
        [] \<Rightarrow> contents (ps_attempts st) k
      | now # _ \<Rightarrow> recent_failures now (contents (ps_attempts st) k @ [now]))
   \<and> (\<forall>now \<in> set (failed_now cal k st x). now = op_time x \<and> \<not> is_approve_rate_limited now k st \<and> failed_now cal k st x = [now])"
proof (cases x)
  case (Approve now channel code)
  show ?thesis
  proof (cases "\<exists>r. fst (approve cal now channel code st) = Inr (Some r)")
    case True
    then obtain r st' where run: "approve cal now channel code st = (Inr (Some r), st')"
      by (metis prod.collapse)
    from approve_success [OF run] have "ps_attempts st' = ps_attempts st"
      unfolding Let_def by auto
    then show ?thesis using Approve run by (simp add: failed_now_def)
  next
    case False
    then show ?thesis
      using Approve
      by (auto simp: approve_def Let_def failed_now_def record_failed_approve_def contents_insert
          split: if_splits sum.splits option.splits)
  qed
qed (simp_all add: failed_now_def)

lemma recent_failures_twice: "now \<le> now' \<Longrightarrow> recent_failures now' (recent_failures now xs) = recent_failures now' xs"
  by (auto simp: recent_failures_def intro: filter_cong)

definition within_window :: "nat list \<Rightarrow> bool" where
  "within_window fs \<longleftrightarrow>
     (\<forall>t. length (filter (\<lambda>x. t \<le> x \<and> x \<le> t + PAIRING_APPROVE_RATE_WINDOW_SECS) fs) \<le> PAIRING_APPROVE_RATE_LIMIT)"

lemma length_filter_mono: "(\<And>x. x \<in> set xs \<Longrightarrow> P x \<Longrightarrow> Q x) \<Longrightarrow> length (filter P xs) \<le> length (filter Q xs)"
  by (induction xs) auto

lemma within_window_snoc:
  assumes "within_window fs" and "\<forall>x \<in> set fs. x \<le> now" and "length (recent_failures now fs) < PAIRING_APPROVE_RATE_LIMIT"
  shows "within_window (fs @ [now])"
  unfolding within_window_def
proof
  fix t
  let ?in = "\<lambda>x. t \<le> x \<and> x \<le> t + PAIRING_APPROVE_RATE_WINDOW_SECS"
  show "length (filter ?in (fs @ [now])) \<le> PAIRING_APPROVE_RATE_LIMIT"
  proof (cases "?in now")
    case True
    have "length (filter ?in fs) \<le> length (recent_failures now fs)"
      unfolding recent_failures_def
      by (rule length_filter_mono) (use True in auto)
    with True assms(3) show ?thesis by simp
  next
    case False
    then have "filter ?in (fs @ [now]) = filter ?in fs" by simp
    with assms(1) show ?thesis by (simp add: within_window_def)
  qed
qed

lemma failures_invariant:
  assumes "sorted (map op_time ops)"
  shows "within_window (failures cal k pairing_store_new ops)
    \<and> set (failures cal k pairing_store_new ops) \<subseteq> op_time ` set ops
    \<and> (\<forall>now. (\<forall>x \<in> set ops. op_time x \<le> now) \<longrightarrow>
         recent_failures now (contents (ps_attempts (pairing_run cal ops)) k)
         = recent_failures now (failures cal k pairing_store_new ops))"
  using assms
proof (induction ops rule: rev_induct)
  case Nil
  then show ?case by (simp add: within_window_def pairing_run_def pairing_store_new_def contents_def)
next
  case (snoc x ops)
  let ?F = "failures cal k pairing_store_new ops" and ?st = "pairing_run cal ops"
  let ?new = "failed_now cal k ?st x"
  have past: "\<forall>y \<in> set ops. op_time y \<le> op_time x" and "sorted (map op_time ops)"
    using snoc.prems by (auto simp: sorted_append)
  note IH = snoc.IH [OF this(2)]
  have F: "failures cal k pairing_store_new (ops @ [x]) = ?F @ ?new"
    by (simp add: failures_snoc pairing_run_def)
  note st = step_attempts [of cal ?st x k]
  show ?case
  proof (cases ?new)
    case Nil
    with IH st show ?thesis by (auto simp: F pairing_run_snoc)
  next
    case (Cons now ns)
    with st have now: "now = op_time x" "\<not> is_approve_rate_limited now k ?st" "?new = [now]"
      and stored: "contents (ps_attempts (pairing_step cal ?st x)) k = recent_failures now (contents (ps_attempts ?st) k @ [now])"
      by auto
    have "length (recent_failures now ?F) < PAIRING_APPROVE_RATE_LIMIT"
      using now(1,2) past IH by (auto simp: rate_limited_iff not_le)
    moreover have "\<forall>y \<in> set ?F. y \<le> now"
      using IH past now(1) by auto
    ultimately have "within_window (?F @ [now])"
      using within_window_snoc IH by blast
    moreover have "recent_failures n (contents (ps_attempts (pairing_step cal ?st x)) k) = recent_failures n (?F @ [now])"
      if "\<forall>y \<in> set (ops @ [x]). op_time y \<le> n" for n
    proof -
      have "recent_failures n (contents (ps_attempts (pairing_step cal ?st x)) k) = recent_failures n (contents (ps_attempts ?st) k @ [now])"
        using that now(1) by (simp add: stored recent_failures_twice)
      also have "\<dots> = recent_failures n (?F @ [now])"
        using IH that by (simp add: recent_failures_def)
      finally show ?thesis .
    qed
    ultimately show ?thesis
      using IH now by (auto simp: F pairing_run_snoc)
  qed
qed

section \<open>Properties\<close>

text \<open>An approved request gave the entry that an operation adds to an allow list.\<close>

lemma step_allow_from:
  assumes "e \<in> set (contents (ps_allow_from (pairing_step cal st x)) k)" and "e \<notin> set (contents (ps_allow_from st) k)"
  shows "\<exists>now channel code r. x = Approve now channel code \<and> fst (approve cal now channel code st) = Inr (Some r)
    \<and> safe_channel_key channel = Inr k \<and> r \<in> set (contents (ps_pairing st) k) \<and> \<not> is_expired cal r now
    \<and> to_uppercase (pq_code r) = to_uppercase (trim code) \<and> e = trim (pq_id r)"
proof (cases x)
  case (Approve now channel code)
  obtain res st' where run: "approve cal now channel code st = (res, st')" by fastforce
  show ?thesis
  proof (cases "\<exists>r. res = Inr (Some r)")
    case True
    then obtain r where r: "approve cal now channel code st = (Inr (Some r), st')" using run by blast
    from approve_success [OF this] obtain key i where key: "safe_channel_key channel = Inr key"
      "i < length (filter (\<lambda>r. \<not> is_expired cal r now) (contents (ps_pairing st) key))"
      "r = filter (\<lambda>r. \<not> is_expired cal r now) (contents (ps_pairing st) key) ! i"
      "to_uppercase (pq_code r) = to_uppercase (trim code)"
      "contents (ps_allow_from st') k = (if k = key \<and> trim (pq_id r) \<noteq> [] then [trim (pq_id r)] else contents (ps_allow_from st) k)"
      unfolding Let_def by (auto simp: add_allow_from_contents)
    have "r \<in> set (filter (\<lambda>r. \<not> is_expired cal r now) (contents (ps_pairing st) key))"
      using key(2,3) nth_mem by blast
    with assms key(1,4,5) r show ?thesis by (auto simp: Approve split: if_splits)
  next
    case False
    then have "ps_allow_from st' = ps_allow_from st" using approve_no_success [OF run] by auto
    with assms run show ?thesis by (simp add: Approve)
  qed
qed (use assms in simp_all)

text \<open>
  C21. Nobody gets onto an allow list by asking: whatever calls were made to the store, whoever is on the
  list of a channel was put there by an approval made with the code of a request that was pending on
  that channel and had not expired, and that sender had asked before the approval.
\<close>

theorem sender_needs_approval:
  assumes "e \<in> set (contents (ps_allow_from (pairing_run cal ops)) k)"
  shows "\<exists>pre now channel code post r asked_draws suffix asked asked_channel sender meta.
    ops = pre @ Approve now channel code # post
    \<and> fst (approve cal now channel code (pairing_run cal pre)) = Inr (Some r)
    \<and> r \<in> set (contents (ps_pairing (pairing_run cal pre)) k) \<and> \<not> is_expired cal r now
    \<and> safe_channel_key channel = Inr k \<and> to_uppercase (pq_code r) = to_uppercase (trim code) \<and> e = trim (pq_id r)
    \<and> Upsert asked_draws suffix asked asked_channel sender meta \<in> set pre
    \<and> safe_channel_key asked_channel = Inr k \<and> pq_id r = trim sender"
  using assms
proof (induction ops rule: rev_induct)
  case Nil
  then show ?case by (simp add: pairing_run_def pairing_store_new_def contents_def)
next
  case (snoc x ops)
  show ?case
  proof (cases "e \<in> set (contents (ps_allow_from (pairing_run cal ops)) k)")
    case True
    from snoc.IH [OF this] show ?thesis by (metis append.assoc append_Cons)
  next
    case False
    from step_allow_from [OF snoc.prems [unfolded pairing_run_snoc] False]
    obtain now channel code r where x: "x = Approve now channel code" "safe_channel_key channel = Inr k"
      "fst (approve cal now channel code (pairing_run cal ops)) = Inr (Some r)" "\<not> is_expired cal r now"
      "r \<in> set (contents (ps_pairing (pairing_run cal ops)) k)"
      "to_uppercase (pq_code r) = to_uppercase (trim code)" "e = trim (pq_id r)"
      by blast
    from x pending_asked [OF x(5)] show ?thesis by blast
  qed
qed

text \<open>
  C38. Codes cannot be searched for: when the clock does not run backwards, at most ten wrong codes are
  looked up on a channel in any window of five minutes, and at no time are more than three of its
  codes open.
\<close>

theorem code_search_bounded:
  assumes "sorted (map op_time ops)"
  shows "length (filter (\<lambda>x. t \<le> x \<and> x \<le> t + PAIRING_APPROVE_RATE_WINDOW_SECS) (failures cal k pairing_store_new ops)) \<le> 10
    \<and> length (contents (ps_pairing (pairing_run cal ops)) k) \<le> 3"
  using failures_invariant [OF assms] pending_bounded
  by (simp add: within_window_def PAIRING_APPROVE_RATE_LIMIT_def PAIRING_PENDING_MAX_def)

section \<open>A departure\<close>

text \<open>
  The allow list is read after it was truncated, so approving a second sender of a channel drops the
  first one from the list.
\<close>

lemma second_approval_drops_first:
  assumes "trim first \<noteq> []" and "trim second \<noteq> []" and "trim second \<noteq> trim first"
  shows "trim first \<in> set (contents (ps_allow_from (add_allow_from key first st)) key)
    \<and> trim first \<notin> set (contents (ps_allow_from (add_allow_from key second (add_allow_from key first st))) key)"
  using assms by (simp add: add_allow_from_contents)

section \<open>A concrete run\<close>

definition sample_calendar :: calendar where
  "sample_calendar = \<lparr>cal_iso = show_nat, cal_parse = (\<lambda>s. Some 0)\<rparr>"

definition sample_ops :: "pairing_op list" where
  "sample_ops = [Upsert (\<lambda>k i. i) 0 5 ''telegram'' '' 42 '' None,
     Approve 6 ''telegram'' ''wrong'', Approve 7 ''Telegram'' ''abcdefgh'']"

lemma sample_contents:
  "contents (ps_allow_from (pairing_run sample_calendar sample_ops)) ''telegram'' = [''42'']"
  by code_simp

lemma sender_needs_approval_witness:
  "\<exists>pre now channel code post r asked_draws suffix asked asked_channel sender meta.
    sample_ops = pre @ Approve now channel code # post
    \<and> fst (approve sample_calendar now channel code (pairing_run sample_calendar pre)) = Inr (Some r)
    \<and> r \<in> set (contents (ps_pairing (pairing_run sample_calendar pre)) ''telegram'') \<and> \<not> is_expired sample_calendar r now
    \<and> safe_channel_key channel = Inr ''telegram'' \<and> to_uppercase (pq_code r) = to_uppercase (trim code) \<and> ''42'' = trim (pq_id r)
    \<and> Upsert asked_draws suffix asked asked_channel sender meta \<in> set pre
    \<and> safe_channel_key asked_channel = Inr ''telegram'' \<and> pq_id r = trim sender"
  by (rule sender_needs_approval) (simp add: sample_contents)

lemma code_search_bounded_witness:
  "failures sample_calendar ''telegram'' pairing_store_new sample_ops = [6]
   \<and> length (filter (\<lambda>x. 5 \<le> x \<and> x \<le> 5 + PAIRING_APPROVE_RATE_WINDOW_SECS)
       (failures sample_calendar ''telegram'' pairing_store_new sample_ops)) \<le> 10
   \<and> length (contents (ps_pairing (pairing_run sample_calendar sample_ops)) ''telegram'') \<le> 3"
proof
  show "failures sample_calendar ''telegram'' pairing_store_new sample_ops = [6]" by code_simp
  have "sorted (map op_time sample_ops)" by (simp add: sample_ops_def)
  from code_search_bounded [OF this]
  show "length (filter (\<lambda>x. 5 \<le> x \<and> x \<le> 5 + PAIRING_APPROVE_RATE_WINDOW_SECS)
       (failures sample_calendar ''telegram'' pairing_store_new sample_ops)) \<le> 10
   \<and> length (contents (ps_pairing (pairing_run sample_calendar sample_ops)) ''telegram'') \<le> 3" .
qed

end
