(* ===== verification/Response_Text.thy ===== *)
theory Response_Text
  imports Tool_Types Llm_Types
begin

text \<open>
  The text processing of \<open>src/llm/reasoning.rs\<close>: detection of tool intent and of silent replies,
  code regions, removal of reasoning tags, of tool tags and of inline tool calls from the answer of
  a model, and recovery of tool calls written as text. Positions are byte offsets. The regular
  expressions are compiled by another crate: what the code asks of one is a record, and what it
  relies on (matches in order, disjoint, inside the text) is a hypothesis of the theorems.
\<close>

section \<open>Substrings\<close>

fun find_str :: "string \<Rightarrow> string \<Rightarrow> nat option" where
  "find_str pat [] = (if pat = [] then Some 0 else None)"
| "find_str pat (c # cs) = (if starts_with (c # cs) pat then Some 0 else map_option Suc (find_str pat cs))"

definition rfind_char :: "char \<Rightarrow> string \<Rightarrow> nat option" where
  "rfind_char c s = (if c \<in> set s then Some (length s - 1 - length (takeWhile (\<lambda>d. d \<noteq> c) (rev s))) else None)"

text \<open>The text before the first occurrence and the text after it.\<close>

definition cut_at :: "string \<Rightarrow> string \<Rightarrow> (string \<times> string) option" where
  "cut_at pat s = map_option (\<lambda>i. (take i s, drop (i + length pat) s)) (find_str pat s)"

definition slice :: "string \<Rightarrow> nat \<Rightarrow> nat \<Rightarrow> string" where
  "slice s a b = take (b - a) (drop a s)"

lemma find_str_Some: "find_str pat s = Some i \<Longrightarrow> i + length pat \<le> length s \<and> s = take i s @ pat @ drop (i + length pat) s"
proof (induction s arbitrary: i)
  case (Cons c cs)
  show ?case
  proof (cases "starts_with (c # cs) pat")
    case True
    then obtain r where r: "c # cs = pat @ r" by (auto simp: starts_with_iff)
    have "i = 0" using True Cons.prems by simp
    then show ?thesis by (simp add: r)
  next
    case False
    then obtain j where "find_str pat cs = Some j" "i = Suc j" using Cons.prems by auto
    with Cons.IH show ?thesis by simp
  qed
qed (auto split: if_splits)

lemma find_str_None: "find_str pat s = None \<longleftrightarrow> \<not> contains_str s pat"
  by (induction s) (auto simp: starts_with_def)

lemma cut_at_Some: "cut_at pat s = Some (a, b) \<Longrightarrow> s = a @ pat @ b"
  using find_str_Some by (fastforce simp: cut_at_def)

lemma cut_at_None: "cut_at pat s = None \<longleftrightarrow> \<not> contains_str s pat"
  by (simp add: cut_at_def find_str_None)

lemma cut_at_shorter: "cut_at pat s = Some (a, b) \<Longrightarrow> pat \<noteq> [] \<Longrightarrow> length b < length s"
  using cut_at_Some [of pat s a b] by auto

text \<open>The occurrence found is the first one.\<close>

lemma find_str_first: "find_str pat s = Some i \<Longrightarrow> j < i \<Longrightarrow> \<not> starts_with (drop j s) pat"
proof (induction s arbitrary: i j)
  case (Cons c cs)
  then obtain k where "find_str pat cs = Some k" "i = Suc k" "\<not> starts_with (c # cs) pat"
    by (auto split: if_splits)
  with Cons show ?case by (cases j) auto
qed (auto split: if_splits)

lemma find_str_append:
  assumes "\<And>j. j < length a \<Longrightarrow> \<not> starts_with (drop j (a @ pat @ b)) pat"
  shows "find_str pat (a @ pat @ b) = Some (length a)"
  using assms
proof (induction a)
  case Nil
  have "starts_with (pat @ b) pat" by (simp add: starts_with_def)
  then show ?case by (cases "pat @ b") auto
next
  case (Cons c cs)
  have "find_str pat (cs @ pat @ b) = Some (length cs)"
    using Cons.prems [of "Suc j" for j] by (intro Cons.IH) auto
  moreover have "\<not> starts_with (c # cs @ pat @ b) pat"
    using Cons.prems [of 0] by simp
  ultimately show ?case by simp
qed

section \<open>Tool intent and silent replies\<close>

definition SILENT_REPLY_TOKEN :: string where
  "SILENT_REPLY_TOKEN = ''NO_REPLY''"

definition is_ascii_punctuation :: "char \<Rightarrow> bool" where
  "is_ascii_punctuation c =
     (let n = of_char c :: nat in 33 \<le> n \<and> n \<le> 47 \<or> 58 \<le> n \<and> n \<le> 64 \<or> 91 \<le> n \<and> n \<le> 96 \<or> 123 \<le> n \<and> n \<le> 126)"

definition is_silent_reply :: "string \<Rightarrow> bool" where
  "is_silent_reply text =
     (let trimmed = trim text
      in trimmed = SILENT_REPLY_TOKEN
         \<or> starts_with trimmed SILENT_REPLY_TOKEN
           \<and> length trimmed \<le> length SILENT_REPLY_TOKEN + 4
           \<and> list_all (\<lambda>c. is_ws c \<or> is_ascii_punctuation c) (drop (length SILENT_REPLY_TOKEN) trimmed))"

fun strip_quoted_from :: "bool \<Rightarrow> char \<Rightarrow> string \<Rightarrow> string" where
  "strip_quoted_from in_quote prev [] = []"
| "strip_quoted_from in_quote prev (c # cs) =
     (if c = CHR 0x22 \<and> prev \<noteq> CHR 0x5C then strip_quoted_from (\<not> in_quote) prev cs
      else (if in_quote then [] else [c]) @ strip_quoted_from in_quote c cs)"

definition strip_quoted_strings :: "string \<Rightarrow> string" where
  "strip_quoted_strings line = strip_quoted_from False (CHR 0x00) line"

fun strip_code_lines :: "bool \<Rightarrow> string list \<Rightarrow> string" where
  "strip_code_lines in_fence [] = []"
| "strip_code_lines in_fence (line # lines) =
     (if starts_with (trim_start line) ''```'' then strip_code_lines (\<not> in_fence) lines
      else if in_fence then strip_code_lines in_fence lines
      else if starts_with line ''    '' \<or> starts_with line [CHR 0x09] then strip_code_lines in_fence lines
      else strip_quoted_strings line @ [CHR 0x0A] @ strip_code_lines in_fence lines)"

definition strip_code_blocks :: "string \<Rightarrow> string" where
  "strip_code_blocks text = strip_code_lines False (str_lines text)"

definition intent_exclusions :: "string list" where
  "intent_exclusions =
     [''let me explain'', ''let me know'', ''let me think'', ''let me summarize'', ''let me clarify'', ''let me describe'',
      ''let me help'', ''let me understand'', ''let me break'', ''let me outline'', ''let me walk you'', ''let me provide'',
      ''let me suggest'', ''let me elaborate'', ''let me start by'']"

definition intent_prefixes :: "string list" where
  "intent_prefixes = [''let me '', ''i'' @ [CHR 0x27] @ ''ll '', ''i will '', ''i'' @ [CHR 0x27] @ ''m going to '']"

definition action_verbs :: "string list" where
  "action_verbs =
     [''search'', ''look up'', ''check'', ''fetch'', ''find'', ''read the'', ''write the'', ''create'', ''run the'',
      ''execute'', ''query'', ''retrieve'', ''add it'', ''add the'', ''add this'', ''add that'', ''update the'',
      ''delete'', ''remove the'', ''look into'']"

text \<open>\<open>match_indices\<close>, with what follows each match.\<close>

function after_matches :: "string \<Rightarrow> string \<Rightarrow> string list" where
  "after_matches pat s =
     (if pat = [] then []
      else case cut_at pat s of None \<Rightarrow> [] | Some (a, b) \<Rightarrow> b # after_matches pat b)"
  by pat_completeness auto
termination
  by (relation "measure (length \<circ> snd)") (auto dest: cut_at_shorter)

declare after_matches.simps [simp del]

definition llm_signals_tool_intent :: "string \<Rightarrow> bool" where
  "llm_signals_tool_intent response =
     (let lower = to_lowercase (strip_code_blocks response)
      in if list_ex (contains_str lower) intent_exclusions then False
         else list_ex (\<lambda>prefix. list_ex (\<lambda>after. list_ex (\<lambda>verb. starts_with after verb \<or> contains_str after ('' '' @ verb)) action_verbs)
                (after_matches prefix lower)) intent_prefixes)"

section \<open>Code regions\<close>

type_synonym code_region = "nat \<times> nat"

definition skip_while :: "(char \<Rightarrow> bool) \<Rightarrow> string \<Rightarrow> nat \<Rightarrow> nat" where
  "skip_while p text i = i + length (takeWhile p (drop i text))"

definition skip_blank :: "string \<Rightarrow> nat \<Rightarrow> nat" where
  "skip_blank text i = skip_while (\<lambda>c. c = CHR '' '' \<or> c = CHR 0x09) text i"

definition next_line :: "string \<Rightarrow> nat \<Rightarrow> nat option" where
  "next_line text i = map_option (\<lambda>nl. i + nl + 1) (find_str [CHR 0x0A] (drop i text))"

lemma skip_while_bounds: "i \<le> skip_while p text i" "i \<le> length text \<Longrightarrow> skip_while p text i \<le> length text"
  using length_takeWhile_le [of p "drop i text"] by (auto simp: skip_while_def)

lemma skip_while_step: "i < length text \<Longrightarrow> p (text ! i) \<Longrightarrow> i < skip_while p text i"
  by (simp add: skip_while_def Cons_nth_drop_Suc [symmetric])

lemma skip_blank_ge: "i \<le> skip_blank t i"
  by (simp add: skip_blank_def skip_while_bounds(1))

lemma next_line_bounds: "next_line text i = Some j \<Longrightarrow> i < j \<and> j \<le> length text"
  by (auto simp: next_line_def dest!: find_str_Some)

text \<open>The line at \<open>i\<close> closes a fence of \<open>len\<close> characters: where the next line starts.\<close>

definition closes_fence :: "string \<Rightarrow> char \<Rightarrow> nat \<Rightarrow> nat \<Rightarrow> nat option" where
  "closes_fence text fence_char len i =
     (let a = skip_blank text i
      in if a < length text \<and> text ! a = fence_char
         then let b = skip_while (\<lambda>c. c = fence_char) text a
              in if b - a \<ge> len
                 then let e = skip_blank text b
                      in if e \<ge> length text then Some e
                         else if text ! e = CHR 0x0A then Some (e + 1) else None
                 else None
         else None)"

function find_closing :: "string \<Rightarrow> char \<Rightarrow> nat \<Rightarrow> nat \<Rightarrow> nat option" where
  "find_closing text fence_char len i =
     (if i < length text
      then (case closes_fence text fence_char len i of
              Some e \<Rightarrow> Some e
            | None \<Rightarrow> (case next_line text i of Some j \<Rightarrow> find_closing text fence_char len j | None \<Rightarrow> None))
      else None)"
  by pat_completeness auto
termination
  by (relation "measure (\<lambda>(text, _, _, i). length text - i)") (auto dest!: next_line_bounds)

declare find_closing.simps [simp del]

lemma closes_fence_bounds:
  assumes "closes_fence t fc len i = Some e" and "i < length t"
  shows "i < e \<and> e \<le> length t"
proof -
  let ?a = "skip_blank t i"
  let ?b = "skip_while (\<lambda>c. c = fc) t ?a"
  have a: "?a < length t" "t ! ?a = fc" and e: "skip_blank t ?b \<le> e" "e \<le> length t \<or> e = skip_blank t ?b"
    using assms(1) by (auto simp: closes_fence_def Let_def split: if_splits)
  have "i \<le> ?a" "?a < ?b" "?b \<le> length t"
    using a skip_while_bounds skip_while_step [of ?a t "\<lambda>c. c = fc"] by (auto simp: skip_blank_def)
  moreover have "?b \<le> skip_blank t ?b" "skip_blank t ?b \<le> length t"
    using \<open>?b \<le> length t\<close> skip_while_bounds by (auto simp: skip_blank_def)
  ultimately show ?thesis using e by linarith
qed

lemma find_closing_bounds: "find_closing t fc len i = Some e \<Longrightarrow> i < e \<and> e \<le> length t"
proof (induction t fc len i rule: find_closing.induct)
  case (1 t fc len i)
  from 1(2) have i: "i < length t" by (subst (asm) find_closing.simps) (simp split: if_splits)
  show ?case
  proof (cases "closes_fence t fc len i")
    case None
    with i 1(2) obtain j where "next_line t i = Some j" "find_closing t fc len j = Some e"
      by (subst (asm) find_closing.simps) (auto split: option.splits)
    with 1(1) [OF i None] next_line_bounds show ?thesis by fastforce
  next
    case (Some e')
    with i 1(2) closes_fence_bounds show ?thesis
      by (subst (asm) find_closing.simps) auto
  qed
qed

function fenced_regions :: "string \<Rightarrow> nat \<Rightarrow> code_region list" where
  "fenced_regions text i =
     (if i \<ge> length text then []
      else if i > 0 \<and> text ! (i - 1) \<noteq> CHR 0x0A
      then (case next_line text i of Some n \<Rightarrow> fenced_regions text n | None \<Rightarrow> [])
      else
        let j = skip_blank text i
        in if j < length text \<and> text ! j \<in> {CHR ''`'', CHR ''~''}
           then let k = skip_while (\<lambda>c. c = text ! j) text j
                in if k - j < 3
                   then (case next_line text k of Some n \<Rightarrow> fenced_regions text n | None \<Rightarrow> [])
                   else (case next_line text k of
                           None \<Rightarrow> [(i, length text)]
                         | Some c \<Rightarrow>
                             (case find_closing text (text ! j) (k - j) c of
                                Some e \<Rightarrow> (i, e) # fenced_regions text e
                              | None \<Rightarrow> [(i, length text)]))
           else (case next_line text j of Some n \<Rightarrow> fenced_regions text n | None \<Rightarrow> []))"
  by pat_completeness auto
termination
proof (relation "measure (\<lambda>(t, i). length t - i)", goal_cases)
  case (3 t i j k n)
  have "i \<le> j" "j \<le> k" unfolding 3(3,5) by (simp_all add: skip_blank_ge skip_while_bounds(1))
  with 3(1) next_line_bounds [OF 3(7)] show ?case by (simp add: diff_less_mono2)
next
  case (4 t i j k c e)
  have "i \<le> j" "j \<le> k" unfolding 4(3,5) by (simp_all add: skip_blank_ge skip_while_bounds(1))
  with 4(1) next_line_bounds [OF 4(7)] find_closing_bounds [OF 4(8)] show ?case by (simp add: diff_less_mono2)
next
  case (5 t i j n)
  have "i \<le> j" unfolding 5(3) by (rule skip_blank_ge)
  with 5(1) next_line_bounds [OF 5(5)] show ?case by (simp add: diff_less_mono2)
qed (auto dest!: next_line_bounds)

declare fenced_regions.simps [simp del]

function close_ticks :: "string \<Rightarrow> nat \<Rightarrow> nat \<Rightarrow> nat option" where
  "close_ticks text n k =
     (if k \<ge> length text then None
      else if text ! k \<noteq> CHR ''`'' then close_ticks text n (Suc k)
      else let m = skip_while (\<lambda>c. c = CHR ''`'') text k
           in if m - k = n then Some m else close_ticks text n m)"
  by pat_completeness auto
termination
proof (relation "measure (\<lambda>(t, _, k). length t - k)", goal_cases)
  case (3 t n k m)
  have "k < m" unfolding 3(3) using 3(1,2) by (intro skip_while_step) auto
  with 3(1) show ?case by simp
qed auto

declare close_ticks.simps [simp del]

lemma close_ticks_bounds: "close_ticks t n k = Some m \<Longrightarrow> k < m \<and> m \<le> length t"
proof (induction t n k rule: close_ticks.induct)
  case (1 t n k)
  let ?m = "skip_while (\<lambda>c. c = CHR ''`'') t k"
  have k: "k < length t" using 1(3) by (subst (asm) close_ticks.simps) (simp split: if_splits)
  show ?case
  proof (cases "t ! k = CHR ''`''")
    case True
    have m: "k < ?m" "?m \<le> length t" using k True skip_while_step skip_while_bounds by (simp_all add: less_imp_le)
    show ?thesis
    proof (cases "?m - k = n")
      case True
      with \<open>t ! k = _\<close> k 1(3) m show ?thesis by (subst (asm) close_ticks.simps) simp
    next
      case False
      then have "close_ticks t n ?m = Some m"
        using \<open>t ! k = _\<close> k 1(3) by (subst (asm) close_ticks.simps) (simp add: Let_def)
      with 1(2) [OF _ _ refl False] \<open>t ! k = _\<close> k m show ?thesis by simp
    qed
  next
    case False
    with k 1(3) have "close_ticks t n (Suc k) = Some m" by (subst (asm) close_ticks.simps) simp
    with 1(1) k False show ?thesis by simp
  qed
qed

definition is_inside_code :: "nat \<Rightarrow> code_region list \<Rightarrow> bool" where
  "is_inside_code pos regions = list_ex (\<lambda>(a, b). pos \<ge> a \<and> pos < b) regions"

function inline_spans :: "string \<Rightarrow> code_region list \<Rightarrow> nat \<Rightarrow> code_region list" where
  "inline_spans text regions j =
     (if j \<ge> length text then regions
      else if text ! j \<noteq> CHR ''`'' then inline_spans text regions (Suc j)
      else if is_inside_code j regions then inline_spans text regions (Suc j)
      else let m = skip_while (\<lambda>c. c = CHR ''`'') text j
           in case close_ticks text (m - j) m of
                Some k \<Rightarrow> inline_spans text (regions @ [(j, k)]) k
              | None \<Rightarrow> inline_spans text regions m)"
  by pat_completeness auto
termination
proof (relation "measure (\<lambda>(t, _, j). length t - j)", goal_cases)
  case (4 t rs j m)
  have "j < m" unfolding 4(4) using 4(1,2) by (intro skip_while_step) auto
  with 4(1) show ?case by simp
next
  case (5 t rs j m k)
  have "j < m" unfolding 5(4) using 5(1,2) by (intro skip_while_step) auto
  with 5(1) close_ticks_bounds [OF 5(5)] show ?case by (simp add: diff_less_mono2)
qed auto

declare inline_spans.simps [simp del]

definition find_code_regions :: "string \<Rightarrow> code_region list" where
  "find_code_regions text = sort_key fst (inline_spans text (fenced_regions text 0) 0)"

definition regions_ok :: "string \<Rightarrow> code_region list \<Rightarrow> bool" where
  "regions_ok text regions \<longleftrightarrow> (\<forall>(a, b) \<in> set regions. a < b \<and> b \<le> length text)"

lemma regions_ok_simps [simp]:
  "regions_ok t []" "regions_ok t ((a, b) # rs) \<longleftrightarrow> a < b \<and> b \<le> length t \<and> regions_ok t rs"
  "regions_ok t (rs @ rs') \<longleftrightarrow> regions_ok t rs \<and> regions_ok t rs'"
  by (auto simp: regions_ok_def)

lemma fenced_regions_ok: "regions_ok t (fenced_regions t i)"
proof (induction "length t - i" arbitrary: i rule: less_induct)
  case less
  let ?j = "skip_blank t i"
  let ?k = "skip_while (\<lambda>c. c = t ! ?j) t ?j"
  show ?case
  proof (cases "i \<ge> length t")
    case False
    have jk: "i \<le> ?j" "?j \<le> ?k" by (simp_all add: skip_blank_ge skip_while_bounds(1))
    have IH: "regions_ok t (fenced_regions t n)" if "i < n" for n
      using less [of n] that False by simp
    have line: "regions_ok t (case next_line t m of Some n \<Rightarrow> fenced_regions t n | None \<Rightarrow> [])" if "i \<le> m" for m
      using that IH by (auto split: option.split dest!: next_line_bounds)
    have fence: "regions_ok t (case next_line t ?k of None \<Rightarrow> [(i, length t)]
        | Some c \<Rightarrow> (case find_closing t fc len c of Some e \<Rightarrow> (i, e) # fenced_regions t e | None \<Rightarrow> [(i, length t)]))" for fc len
      using jk False IH by (auto split: option.split dest!: next_line_bounds find_closing_bounds)
    have "regions_ok t []" by simp
    with line [of i] line [of ?j] line [of ?k] jk fence show ?thesis
      unfolding fenced_regions.simps [of t i] Let_def by (simp only: if_split [of "regions_ok t"]) auto
  qed (simp add: fenced_regions.simps)
qed

lemma inline_spans_ok: "regions_ok t rs \<Longrightarrow> regions_ok t (inline_spans t rs j)"
proof (induction "length t - j" arbitrary: rs j rule: less_induct)
  case less
  let ?m = "skip_while (\<lambda>c. c = CHR ''`'') t j"
  show ?case
  proof (cases "j \<ge> length t")
    case False
    have IH: "regions_ok t (inline_spans t rs' n)" if "j < n" "regions_ok t rs'" for n rs'
      using less(1) [of n rs'] that False by simp
    have m: "j < ?m" if "t ! j = CHR ''`''" using that False by (intro skip_while_step) auto
    have span: "regions_ok t (case close_ticks t n ?m of Some k \<Rightarrow> inline_spans t (rs @ [(j, k)]) k | None \<Rightarrow> inline_spans t rs ?m)"
      if "t ! j = CHR ''`''" for n
      using m [OF that] IH less.prems by (auto split: option.split dest!: close_ticks_bounds)
    show ?thesis
      by (subst inline_spans.simps) (use False less.prems in \<open>simp add: Let_def IH span\<close>)
  qed (simp add: inline_spans.simps less.prems)
qed

lemma find_code_regions_ok: "regions_ok t (find_code_regions t) \<and> sorted (map fst (find_code_regions t))"
  using inline_spans_ok [OF fenced_regions_ok] by (simp add: find_code_regions_def regions_ok_def)

section \<open>Removal of tags\<close>

text \<open>What the code asks of a compiled expression: whether and where it matches, and whether group 1 is a slash.\<close>

record tag_regex =
  tr_is_match :: "string \<Rightarrow> bool"
  tr_find_iter :: "string \<Rightarrow> (nat \<times> nat) list"
  tr_is_close :: "string \<Rightarrow> bool"

fun strip_loop :: "tag_regex \<Rightarrow> string \<Rightarrow> code_region list \<Rightarrow> (nat \<times> nat) list \<Rightarrow> nat \<Rightarrow> bool \<Rightarrow> string \<Rightarrow> string \<times> nat \<times> bool" where
  "strip_loop re text regions [] last_index in_tag result = (result, last_index, in_tag)"
| "strip_loop re text regions ((idx, fin) # ms) last_index in_tag result =
     (if is_inside_code idx regions then strip_loop re text regions ms last_index in_tag result
      else let is_close = tr_is_close re (drop idx text)
           in if \<not> in_tag
              then strip_loop re text regions ms fin (\<not> is_close) (result @ slice text last_index idx)
              else strip_loop re text regions ms fin (if is_close then False else in_tag) result)"

fun final_loop :: "tag_regex \<Rightarrow> string \<Rightarrow> code_region list \<Rightarrow> (nat \<times> nat) list \<Rightarrow> bool \<Rightarrow> nat \<Rightarrow> bool \<Rightarrow> string list
  \<Rightarrow> bool \<times> nat \<times> bool \<times> string list" where
  "final_loop re text regions [] in_final last_index found_any parts = (in_final, last_index, found_any, parts)"
| "final_loop re text regions ((idx, fin) # ms) in_final last_index found_any parts =
     (if is_inside_code idx regions then final_loop re text regions ms in_final last_index found_any parts
      else let is_close = tr_is_close re (drop idx text)
           in if \<not> in_final \<and> \<not> is_close then final_loop re text regions ms True fin True parts
              else if in_final \<and> is_close then final_loop re text regions ms False fin found_any (parts @ [slice text last_index idx])
              else final_loop re text regions ms in_final last_index found_any parts)"

definition extract_final_content :: "tag_regex \<Rightarrow> string \<Rightarrow> code_region list \<Rightarrow> string option" where
  "extract_final_content re text regions =
     (case final_loop re text regions (tr_find_iter re text) False 0 False [] of
        (in_final, last_index, found_any, parts) \<Rightarrow>
          (if \<not> found_any then None
           else Some (concat (if in_final then parts @ [drop last_index text] else parts))))"

definition strip_thinking_tags_regex :: "tag_regex \<Rightarrow> tag_regex \<Rightarrow> string \<Rightarrow> code_region list \<Rightarrow> string" where
  "strip_thinking_tags_regex thinking_re final_re text regions =
     (case strip_loop thinking_re text regions (tr_find_iter thinking_re text) 0 False [] of
        (result, last_index, in_thinking) \<Rightarrow>
          (if \<not> in_thinking then result @ drop last_index text
           else let trailing = drop last_index text
                in case extract_final_content final_re trailing (find_code_regions trailing) of
                     Some final_content \<Rightarrow> result @ final_content
                   | None \<Rightarrow> result))"

definition strip_pipe_reasoning_tags :: "tag_regex \<Rightarrow> string \<Rightarrow> string" where
  "strip_pipe_reasoning_tags pipe_re text =
     (if \<not> tr_is_match pipe_re text then text
      else case strip_loop pipe_re text (find_code_regions text) (tr_find_iter pipe_re text) 0 False [] of
             (result, last_index, in_tag) \<Rightarrow> (if \<not> in_tag then result @ drop last_index text else result))"

text \<open>Matches in order, disjoint and inside the text, as an iterator over matches gives them.\<close>

fun matches_ok :: "nat \<Rightarrow> nat \<Rightarrow> (nat \<times> nat) list \<Rightarrow> bool" where
  "matches_ok lo n [] \<longleftrightarrow> lo \<le> n"
| "matches_ok lo n ((a, b) # ms) \<longleftrightarrow> lo \<le> a \<and> a < b \<and> matches_ok b n ms"

lemma matches_ok_weaken: "matches_ok lo n ms \<Longrightarrow> lo' \<le> lo \<Longrightarrow> matches_ok lo' n ms"
  by (cases ms) auto

lemma matches_ok_le: "matches_ok lo n ms \<Longrightarrow> lo \<le> n"
  by (induction lo n ms rule: matches_ok.induct) auto

text \<open>The tags outside code, with the kind of each.\<close>

definition tags_of :: "tag_regex \<Rightarrow> string \<Rightarrow> code_region list \<Rightarrow> (nat \<times> nat) list \<Rightarrow> (nat \<times> nat \<times> bool) list" where
  "tags_of re text regions ms =
     map (\<lambda>(a, b). (a, b, tr_is_close re (drop a text))) (filter (\<lambda>(a, b). \<not> is_inside_code a regions) ms)"

text \<open>
  Reference: a position is hidden when it is part of a tag or when the tag before it, if there is
  one, opens.
\<close>

fun hidden_at :: "bool \<Rightarrow> (nat \<times> nat \<times> bool) list \<Rightarrow> nat \<Rightarrow> bool" where
  "hidden_at h [] p = h"
| "hidden_at h ((a, b, is_close) # ts) p = (if p < a then h else if p < b then True else hidden_at (\<not> is_close) ts p)"

definition shown_text :: "(nat \<times> nat \<times> bool) list \<Rightarrow> string \<Rightarrow> string" where
  "shown_text ts text = map ((!) text) (filter (\<lambda>p. \<not> hidden_at False ts p) [0..<length text])"

lemma drop_as_map: "drop k xs = map ((!) xs) [k..<length xs]"
  by (metis drop_map drop_upt add_0 map_nth)

lemma slice_as_map: "a \<le> b \<Longrightarrow> b \<le> length xs \<Longrightarrow> slice xs a b = map ((!) xs) [a..<b]"
  by (simp add: slice_def drop_as_map take_map take_upt)

lemma upt_split: "i \<le> j \<Longrightarrow> j \<le> k \<Longrightarrow> [i..<k] = [i..<j] @ [j..<k]"
  by (metis le_iff_add upt_add_eq_append)

lemma strip_loop_shown:
  assumes "matches_ok last_index (length t) ms" and "strip_loop re t regions ms last_index h res = (r, l, h')"
  shows "r @ (if h' then [] else drop l t)
    = res @ map ((!) t) (filter (\<lambda>p. \<not> hidden_at h (tags_of re t regions ms) p) [last_index..<length t])"
  using assms
proof (induction re t regions ms last_index h res rule: strip_loop.induct)
  case (1 re t regions last_index h res)
  then show ?case by (auto simp: tags_of_def drop_as_map)
next
  case (2 re t regions idx fin ms last_index h res)
  have ms: "matches_ok fin (length t) ms" "last_index \<le> idx" "idx < fin" using "2.prems"(1) by auto
  show ?case
  proof (cases "is_inside_code idx regions")
    case True
    have "matches_ok last_index (length t) ms" using ms matches_ok_weaken by (meson le_trans less_imp_le)
    with True 2 show ?thesis by (simp add: tags_of_def)
  next
    case False
    let ?c = "tr_is_close re (drop idx t)" and ?ts = "tags_of re t regions ms"
    have tags: "tags_of re t regions ((idx, fin) # ms) = (idx, fin, ?c) # ?ts"
      using False by (simp add: tags_of_def)
    have fin: "fin \<le> length t" using ms(1) matches_ok_le by blast
    then have split: "[last_index..<length t] = [last_index..<idx] @ [idx..<fin] @ [fin..<length t]"
      using ms upt_split [of last_index idx "length t"] upt_split [of idx fin "length t"] by simp
    have none: "filter (\<lambda>p. \<not> hidden_at h ((idx, fin, ?c) # ?ts) p) [idx..<fin] = []"
      by (auto simp: filter_empty_conv)
    have first: "map ((!) t) (filter (\<lambda>p. \<not> hidden_at h ((idx, fin, ?c) # ?ts) p) [last_index..<idx])
        = (if h then [] else slice t last_index idx)"
      using ms fin by (auto simp: filter_empty_conv slice_as_map intro!: arg_cong [of _ _ "map ((!) t)"] filter_True)
    have rest: "filter (\<lambda>p. \<not> hidden_at h ((idx, fin, ?c) # ?ts) p) [fin..<length t]
        = filter (\<lambda>p. \<not> hidden_at (\<not> ?c) ?ts p) [fin..<length t]"
      using ms by (intro filter_cong) auto
    have run: "strip_loop re t regions ms fin (\<not> ?c) (if h then res else res @ slice t last_index idx) = (r, l, h')"
      using "2.prems"(2) False by (cases h; cases ?c) (simp_all add: Let_def)
    have "r @ (if h' then [] else drop l t) = (if h then res else res @ slice t last_index idx)
        @ map ((!) t) (filter (\<lambda>p. \<not> hidden_at (\<not> ?c) ?ts p) [fin..<length t])"
      using "2.IH" ms False run by (cases h; cases ?c) (simp_all add: Let_def)
    then show ?thesis
      unfolding tags split by (simp only: filter_append map_append none first rest list.map append_Nil) simp
  qed
qed

section \<open>Tool tags and inline tool calls\<close>

definition TOOL_TAGS :: "string list" where
  "TOOL_TAGS = [''tool_call'', ''function_call'', ''tool_calls'']"

definition open_exact :: "string \<Rightarrow> string" where
  "open_exact tag = ''<'' @ tag @ ''>''"

definition open_prefix :: "string \<Rightarrow> string" where
  "open_prefix tag = ''<'' @ tag @ '' ''"

definition close_tag :: "string \<Rightarrow> string" where
  "close_tag tag = ''</'' @ tag @ ''>''"

definition tag_start :: "string \<Rightarrow> string \<Rightarrow> nat option" where
  "tag_start tag remaining =
     (case (find_str (open_exact tag) remaining, find_str (open_prefix tag) remaining) of
        (Some a, Some b) \<Rightarrow> Some (min a b)
      | (Some a, None) \<Rightarrow> Some a
      | (None, Some b) \<Rightarrow> Some b
      | (None, None) \<Rightarrow> None)"

lemma tag_start_less: "tag_start tag s = Some i \<Longrightarrow> i < length s"
  by (auto simp: tag_start_def open_exact_def open_prefix_def split: option.splits dest!: find_str_Some)

text \<open>
  The loop of \<open>strip_xml_tag\<close>. When the opening tag has no end, the loop is left after the text
  before the tag was copied, and all of the remaining text is then copied again.
\<close>

function strip_xml_tag :: "string \<Rightarrow> string \<Rightarrow> string" where
  "strip_xml_tag tag remaining =
     (case tag_start tag remaining of
        None \<Rightarrow> remaining
      | Some start \<Rightarrow>
          take start remaining
          @ (case find_str ''>'' (drop start remaining) of
               None \<Rightarrow> remaining
             | Some pos \<Rightarrow>
                 (let open_end = start + pos + 1
                  in case find_str (close_tag tag) (drop open_end remaining) of
                       Some close_offset \<Rightarrow> strip_xml_tag tag (drop (open_end + close_offset + length (close_tag tag)) remaining)
                     | None \<Rightarrow> [])))"
  by pat_completeness auto
termination
  by (relation "measure (length \<circ> snd)") (auto dest!: tag_start_less)

declare strip_xml_tag.simps [simp del]

definition pipe_open :: "string \<Rightarrow> string" where
  "pipe_open tag = ''<|'' @ tag @ ''|>''"

definition pipe_close :: "string \<Rightarrow> string" where
  "pipe_close tag = ''<|/'' @ tag @ ''|>''"

function strip_pipe_tag :: "string \<Rightarrow> string \<Rightarrow> string" where
  "strip_pipe_tag tag remaining =
     (case find_str (pipe_open tag) remaining of
        None \<Rightarrow> remaining
      | Some start \<Rightarrow>
          take start remaining
          @ (case find_str (pipe_close tag) (drop start remaining) of
               Some close_offset \<Rightarrow> strip_pipe_tag tag (drop (start + close_offset + length (pipe_close tag)) remaining)
             | None \<Rightarrow> []))"
  by pat_completeness auto
termination
  by (relation "measure (length \<circ> snd)") (auto simp: pipe_open_def pipe_close_def dest!: find_str_Some)

declare strip_pipe_tag.simps [simp del]

definition called_tool :: string where
  "called_tool = ''[Called tool `''"

definition bracket_end :: "string \<Rightarrow> nat option" where
  "bracket_end after =
     (case find_str ('']'' @ [CHR 0x0A]) after of
        Some i \<Rightarrow> Some (i + 2)
      | None \<Rightarrow> map_option (\<lambda>i. i + 1) (rfind_char (CHR '']'') after))"

function strip_bracket_tool_calls :: "string \<Rightarrow> string" where
  "strip_bracket_tool_calls remaining =
     (case find_str called_tool remaining of
        None \<Rightarrow> remaining
      | Some start \<Rightarrow>
          take start remaining
          @ (case bracket_end (drop start remaining) of
               Some fin \<Rightarrow> strip_bracket_tool_calls (drop fin (drop start remaining))
             | None \<Rightarrow> drop start remaining))"
  by pat_completeness auto
termination
  by (relation "measure length") (auto simp: called_tool_def bracket_end_def split: option.splits dest!: find_str_Some)

declare strip_bracket_tool_calls.simps [simp del]

lemma starts_with_length: "starts_with s p \<Longrightarrow> length p \<le> length s"
  by (auto simp: starts_with_iff)

lemma length_replace_le: "length q \<le> length p \<Longrightarrow> length (replace_str p q s) \<le> length s"
proof (induction p q s rule: replace_str.induct)
  case (2 p q c cs)
  then show ?case using starts_with_length [of "c # cs" p] by (cases "p \<noteq> [] \<and> starts_with (c # cs) p") auto
qed simp

lemma length_replace_less:
  "contains_str s p \<Longrightarrow> length q < length p \<Longrightarrow> length (replace_str p q s) < length s"
proof (induction p q s rule: replace_str.induct)
  case (2 p q c cs)
  show ?case
  proof (cases "starts_with (c # cs) p")
    case True
    have "length (replace_str p q (drop (length p) (c # cs))) \<le> length (drop (length p) (c # cs))"
      using 2 by (intro length_replace_le) simp
    moreover have "length p \<le> length (c # cs)" using True by (rule starts_with_length)
    ultimately show ?thesis using True 2 by auto
  next
    case False
    with 2 show ?thesis by auto
  qed
qed (auto simp: starts_with_def)

function collapse_from :: "string \<Rightarrow> string" where
  "collapse_from result =
     (if contains_str result [CHR 0x0A, CHR 0x0A, CHR 0x0A]
      then collapse_from (replace_str [CHR 0x0A, CHR 0x0A, CHR 0x0A] [CHR 0x0A, CHR 0x0A] result)
      else result)"
  by pat_completeness auto
termination
  by (relation "measure length") (auto intro!: length_replace_less)

declare collapse_from.simps [simp del]

definition collapse_newlines :: "string \<Rightarrow> string" where
  "collapse_newlines text = trim (collapse_from text)"

section \<open>Recovery of tool calls\<close>

definition recovered_id :: "nat \<Rightarrow> string" where
  "recovered_id n = ''recovered_'' @ show_nat n"

definition recover_inner :: "(string \<Rightarrow> json option) \<Rightarrow> string list \<Rightarrow> string \<Rightarrow> (string \<times> json) option" where
  "recover_inner from_json tool_names inner =
     (let bare = (if trim inner \<in> set tool_names then Some (trim inner, JObject []) else None)
      in case from_json inner of
           None \<Rightarrow> bare
         | Some parsed \<Rightarrow>
             (case Option.bind (json_get parsed ''name'') as_str of
                None \<Rightarrow> bare
              | Some name \<Rightarrow>
                  (if name \<in> set tool_names
                   then Some (name, case json_get parsed ''arguments'' of Some a \<Rightarrow> a | None \<Rightarrow> JObject [])
                   else bare)))"

definition push_call :: "tool_call list \<Rightarrow> string \<times> json \<Rightarrow> tool_call list" where
  "push_call calls na = calls @ [\<lparr>tc_id = recovered_id (length calls), tc_name = fst na, tc_arguments = snd na\<rparr>]"

function recover_tags ::
  "(string \<Rightarrow> json option) \<Rightarrow> string list \<Rightarrow> string \<Rightarrow> string \<Rightarrow> string \<Rightarrow> tool_call list \<Rightarrow> tool_call list" where
  "recover_tags from_json tool_names op cl remaining calls =
     (if op = [] then calls
      else case cut_at op remaining of
             None \<Rightarrow> calls
           | Some (_, after) \<Rightarrow>
               (case cut_at cl after of
                  None \<Rightarrow> calls
                | Some (inner, remaining') \<Rightarrow>
                    (let inner = trim inner
                     in recover_tags from_json tool_names op cl remaining'
                          (if inner = [] then calls
                           else case recover_inner from_json tool_names inner of
                                  Some na \<Rightarrow> push_call calls na
                                | None \<Rightarrow> calls))))"
  by pat_completeness auto
termination
  by (relation "measure (\<lambda>(_, _, _, _, r, _). length r)") (auto dest!: cut_at_Some)

declare recover_tags.simps [simp del]

function recover_brackets :: "(string \<Rightarrow> json option) \<Rightarrow> string list \<Rightarrow> string \<Rightarrow> tool_call list \<Rightarrow> tool_call list" where
  "recover_brackets from_json tool_names remaining calls =
     (case cut_at called_tool remaining of
        None \<Rightarrow> calls
      | Some (_, after_prefix) \<Rightarrow>
          (case cut_at ''`'' after_prefix of
             None \<Rightarrow> calls
           | Some (name, after_name) \<Rightarrow>
               (if name \<notin> set tool_names then recover_brackets from_json tool_names after_name calls
                else let no_args = recover_brackets from_json tool_names after_name (push_call calls (name, JObject []))
                     in case strip_prefix after_name '' with arguments: '' of
                          None \<Rightarrow> no_args
                        | Some args_start \<Rightarrow>
                            (case rfind_char (CHR '']'') args_start of
                               None \<Rightarrow> no_args
                             | Some k \<Rightarrow>
                                 recover_brackets from_json tool_names (drop (k + 1) args_start)
                                   (push_call calls
                                     (name, case from_json (take k args_start) of Some a \<Rightarrow> a | None \<Rightarrow> JObject []))))))"
  by pat_completeness auto
termination
  by (relation "measure (\<lambda>(_, _, r, _). length r)")
    (auto simp: called_tool_def strip_prefix_Some dest!: cut_at_Some)

declare recover_brackets.simps [simp del]

definition tool_call_tags :: "(string \<times> string) list" where
  "tool_call_tags =
     [(''<tool_call>'', ''</tool_call>''), (''<|tool_call|>'', ''<|/tool_call|>''),
      (''<function_call>'', ''</function_call>''), (''<|function_call|>'', ''<|/function_call|>'')]"

definition recover_tool_calls_from_content :: "(string \<Rightarrow> json option) \<Rightarrow> string \<Rightarrow> tool_definition list \<Rightarrow> tool_call list" where
  "recover_tool_calls_from_content from_json content available_tools =
     (let tool_names = map td_name available_tools;
          calls = foldl (\<lambda>calls (op, cl). recover_tags from_json tool_names op cl content calls) [] tool_call_tags
      in recover_brackets from_json tool_names content calls)"

section \<open>Cleaning\<close>

record response_regexes =
  quick_tag_is_match :: "string \<Rightarrow> bool"
  thinking_tag_re :: tag_regex
  final_tag_re :: tag_regex
  pipe_reasoning_tag_re :: tag_regex

definition strip_reasoning :: "response_regexes \<Rightarrow> string \<Rightarrow> string" where
  "strip_reasoning re text =
     (if \<not> quick_tag_is_match re text then text
      else let after_thinking = strip_thinking_tags_regex (thinking_tag_re re) (final_tag_re re) text (find_code_regions text)
           in if tr_is_match (final_tag_re re) after_thinking
              then (case extract_final_content (final_tag_re re) after_thinking (find_code_regions after_thinking) of
                      Some c \<Rightarrow> c | None \<Rightarrow> after_thinking)
              else after_thinking)"

definition clean_response :: "response_regexes \<Rightarrow> string \<Rightarrow> string" where
  "clean_response re text =
     (let result = strip_pipe_reasoning_tags (pipe_reasoning_tag_re re) (strip_reasoning re text);
          result = foldl (\<lambda>r tag. strip_pipe_tag tag (strip_xml_tag tag r)) result TOOL_TAGS
      in collapse_newlines (strip_bracket_tool_calls result))"

definition extract_json :: "string \<Rightarrow> string option" where
  "extract_json text =
     (case (find_str ''{'' text, rfind_char (CHR ''}'') text) of
        (Some start, Some fin) \<Rightarrow> (if start < fin then Some (slice text start (fin + 1)) else None)
      | _ \<Rightarrow> None)"

text \<open>The last tag outside code decides how the loop ends.\<close>

lemma strip_loop_last:
  "strip_loop re t regions ms l0 h0 res = (r, l, h) \<Longrightarrow>
   (l, h) = (case rev (tags_of re t regions ms) of [] \<Rightarrow> (l0, h0) | (a, b, c) # _ \<Rightarrow> (b, \<not> c))"
proof (induction re t regions ms l0 h0 res rule: strip_loop.induct)
  case (2 re t regions idx fin ms l0 h0 res)
  then show ?case
    by (cases "is_inside_code idx regions"; cases "tr_is_close re (drop idx t)"; cases h0)
      (auto simp: tags_of_def Let_def split: list.splits)
qed (simp add: tags_of_def)

section \<open>What cleaning guarantees\<close>

text \<open>
  C25. Reasoning is not shown: when the matches of the expression for reasoning tags are in order, what
  remains of an answer are exactly the characters that are neither part of a tag outside code nor
  preceded by an opening tag as the last one; if the last tag opens, only the content of a final
  block behind it is added.
\<close>

theorem thinking_hidden:
  fixes thinking_re final_re t regions
  defines "ms \<equiv> tr_find_iter thinking_re t"
  defines "ts \<equiv> tags_of thinking_re t regions ms"
  assumes "matches_ok 0 (length t) ms"
  shows "strip_thinking_tags_regex thinking_re final_re t regions =
    shown_text ts t
    @ (case rev ts of
         (_, fin, False) # _ \<Rightarrow>
           (case extract_final_content final_re (drop fin t) (find_code_regions (drop fin t)) of Some c \<Rightarrow> c | None \<Rightarrow> [])
       | _ \<Rightarrow> [])"
proof -
  obtain r l h where run: "strip_loop thinking_re t regions ms 0 False [] = (r, l, h)" by (metis prod_cases3)
  have "r @ (if h then [] else drop l t) = shown_text ts t"
    using strip_loop_shown [OF assms(3) run] by (simp add: shown_text_def ts_def)
  moreover have "(l, h) = (case rev ts of [] \<Rightarrow> (0, False) | (a, b, c) # _ \<Rightarrow> (b, \<not> c))"
    using strip_loop_last [OF run] by (simp add: ts_def)
  ultimately show ?thesis
    using run by (auto simp: strip_thinking_tags_regex_def ms_def Let_def split: option.split if_splits list.splits bool.splits)
qed

lemma collapse_from_done: "\<not> contains_str (collapse_from s) [CHR 0x0A, CHR 0x0A, CHR 0x0A]"
  by (induction s rule: collapse_from.induct) (subst collapse_from.simps, simp)

lemma trim_infix: "\<exists>a b. s = a @ trim s @ b"
proof -
  have "\<exists>a. s = a @ trim_start s" for s
    by (metis takeWhile_dropWhile_id trim_start_def)
  moreover have "\<exists>b. s = trim_end s @ b" for s
    by (metis rev_append rev_rev_ident takeWhile_dropWhile_id trim_end_def)
  ultimately show ?thesis unfolding trim_def by (metis append.assoc)
qed

lemma collapse_newlines_clean: "\<not> contains_str (collapse_newlines s) [CHR 0x0A, CHR 0x0A, CHR 0x0A]"
  using collapse_from_done [of s] trim_infix [of "collapse_from s"]
  unfolding collapse_newlines_def contains_str_iff by (metis append.assoc)

text \<open>Whatever the answer, the cleaned text has no two empty lines in a row.\<close>

lemma clean_response_lines: "\<not> contains_str (clean_response re s) [CHR 0x0A, CHR 0x0A, CHR 0x0A]"
  by (simp add: clean_response_def Let_def collapse_newlines_clean)

text \<open>Recovered calls name available tools and are numbered from zero.\<close>

definition recovered_ok :: "string list \<Rightarrow> tool_call list \<Rightarrow> bool" where
  "recovered_ok names calls \<longleftrightarrow> (\<forall>c \<in> set calls. tc_name c \<in> set names)
     \<and> map tc_id calls = map recovered_id [0..<length calls]"

lemma recovered_ok_push: "recovered_ok names calls \<Longrightarrow> fst na \<in> set names \<Longrightarrow> recovered_ok names (push_call calls na)"
  by (auto simp: recovered_ok_def push_call_def)

lemma recover_inner_known: "recover_inner from_json names inner = Some na \<Longrightarrow> fst na \<in> set names"
  by (auto simp: recover_inner_def Let_def split: option.splits if_splits)

lemma recover_tags_ok: "recovered_ok names calls \<Longrightarrow> recovered_ok names (recover_tags from_json names op cl rest calls)"
proof (induction from_json names op cl rest calls rule: recover_tags.induct)
  case (1 from_json names op cl rest calls)
  show ?case
  proof (cases "op = [] \<or> cut_at op rest = None")
    case False
    then obtain a after where op: "op \<noteq> []" "cut_at op rest = Some (a, after)" by auto
    show ?thesis
    proof (cases "cut_at cl after")
      case (Some ir)
      then obtain inner rest' where cl: "cut_at cl after = Some (inner, rest')" by (cases ir) auto
      let ?calls = "if trim inner = [] then calls
        else case recover_inner from_json names (trim inner) of Some na \<Rightarrow> push_call calls na | None \<Rightarrow> calls"
      have "recovered_ok names ?calls"
        using "1.prems" by (auto split: option.split intro: recovered_ok_push dest: recover_inner_known)
      then have "recovered_ok names (recover_tags from_json names op cl rest' ?calls)"
        using "1.IH" [OF op(1) op(2) refl cl refl refl] by blast
      with op cl show ?thesis by (subst recover_tags.simps) (simp add: Let_def)
    qed (use op "1.prems" in \<open>subst recover_tags.simps, simp\<close>)
  qed (use "1.prems" in \<open>subst recover_tags.simps, auto\<close>)
qed

lemma recover_brackets_ok: "recovered_ok names calls \<Longrightarrow> recovered_ok names (recover_brackets from_json names rest calls)"
proof (induction "length rest" arbitrary: rest calls rule: less_induct)
  case less
  have IH: "recovered_ok names (recover_brackets from_json names r cs)" if "length r < length rest" "recovered_ok names cs" for r cs
    using less(1) that by blast
  show ?case
  proof (cases "cut_at called_tool rest")
    case (Some ap)
    then obtain a after where ap: "cut_at called_tool rest = Some (a, after)" by (cases ap) auto
    then have rest: "rest = a @ called_tool @ after" by (rule cut_at_Some)
    show ?thesis
    proof (cases "cut_at ''`'' after")
      case (Some nr)
      then obtain name rest' where nr: "cut_at ''`'' after = Some (name, rest')" by (cases nr) auto
      then have after: "after = name @ ''`'' @ rest'" by (rule cut_at_Some)
      have len: "length rest' < length rest" by (simp add: rest after called_tool_def)
      have args: "length (drop (Suc k) args) < length rest" if "strip_prefix rest' '' with arguments: '' = Some args" for k args
        using that len by (auto simp: strip_prefix_Some)
      have push: "recovered_ok names (push_call calls (name, x))" if "name \<in> set names" for x
        using that less.prems by (simp add: recovered_ok_push)
      show ?thesis
        using ap nr by (subst recover_brackets.simps)
          (auto simp: Let_def split: option.split intro!: IH len args push less.prems)
    qed (use ap less.prems in \<open>subst recover_brackets.simps, simp\<close>)
  qed (use less.prems in \<open>subst recover_brackets.simps, simp\<close>)
qed

lemma recover_tool_calls_ok: "recovered_ok (map td_name tools) (recover_tool_calls_from_content from_json content tools)"
proof -
  have "recovered_ok names (foldl (\<lambda>calls (op, cl). recover_tags from_json names op cl content calls) [] xs)" for names xs
    by (induction xs rule: rev_induct) (auto simp: recover_tags_ok, simp add: recovered_ok_def)
  then show ?thesis by (simp add: recover_tool_calls_from_content_def Let_def recover_brackets_ok)
qed

text \<open>
  Tool calls recovered from the text of an answer, whatever that text is, name tools that were
  offered to the model, and their identifiers are the numbered ones, in order.
\<close>

theorem recovered_calls_available:
  "tc_name ` set (recover_tool_calls_from_content from_json content tools) \<subseteq> td_name ` set tools
   \<and> map tc_id (recover_tool_calls_from_content from_json content tools)
     = map recovered_id [0..<length (recover_tool_calls_from_content from_json content tools)]"
  using recover_tool_calls_ok [of tools from_json content] by (auto simp: recovered_ok_def)

section \<open>Departures\<close>

text \<open>
  The closing bracket of an inline call is searched from the end of the whole text, so of two such
  calls the first loses its arguments and the second is lost.
\<close>

definition bracket_call :: "string \<Rightarrow> string \<Rightarrow> string" where
  "bracket_call name args = called_tool @ name @ ''` with arguments: '' @ args @ '']''"

definition two_calls :: string where
  "two_calls = bracket_call ''echo'' ''1'' @ [CHR 0x0A] @ bracket_call ''time'' ''2''"

lemma second_bracket_call_lost:
  assumes "from_json (''1]'' @ [CHR 0x0A] @ called_tool @ ''time` with arguments: 2'') = None"
  shows "recover_brackets from_json [''echo'', ''time''] two_calls []
    = [\<lparr>tc_id = ''recovered_0'', tc_name = ''echo'', tc_arguments = JObject []\<rparr>]"
proof -
  let ?args = "''1]'' @ [CHR 0x0A] @ called_tool @ ''time` with arguments: 2''"
  have 1: "cut_at called_tool two_calls = Some ([], ''echo` with arguments: '' @ ?args @ '']'')" by code_simp
  have 2: "cut_at ''`'' (''echo` with arguments: '' @ ?args @ '']'') = Some (''echo'', '' with arguments: '' @ ?args @ '']'')" by code_simp
  have 3: "rfind_char (CHR '']'') (?args @ '']'') = Some (length ?args)" by code_simp
  have 4: "strip_prefix ('' with arguments: '' @ ?args @ '']'') '' with arguments: '' = Some (?args @ '']'')"
    by (simp only: strip_prefix_Some)
  have 5: "recover_brackets from_json [''echo'', ''time''] [] cs = cs" for cs
    by (subst recover_brackets.simps) (simp add: cut_at_def called_tool_def)
  have 6: "recovered_id 0 = ''recovered_0''" by code_simp
  show ?thesis
    by (subst recover_brackets.simps)
      (simp add: 1 2 3 4 5 6 assms push_call_def del: append_Cons append.simps append_assoc)
qed

text \<open>An opening tag without its end makes the text before it appear twice.\<close>

lemma unfinished_tag_duplicates: "strip_xml_tag ''tool_call'' ''hi <tool_call x'' = ''hi hi <tool_call x''"
  by code_simp

text \<open>A pair of tags inside another shows the rest of the outer one.\<close>

definition think_re :: tag_regex where
  "think_re =
     \<lparr>tr_is_match = (\<lambda>t. contains_str t ''<think>'' \<or> contains_str t ''</think>''),
      tr_find_iter = (\<lambda>t. List.map_filter
        (\<lambda>p. if starts_with (drop p t) ''<think>'' then Some (p, p + 7)
             else if starts_with (drop p t) ''</think>'' then Some (p, p + 8) else None) [0..<length t]),
      tr_is_close = (\<lambda>t. starts_with t ''</'')\<rparr>"

lemma nested_thinking_shown:
  "strip_thinking_tags_regex think_re think_re ''<think>a<think>b</think>c</think>d'' [] = ''cd''"
  by code_simp

section \<open>Concrete inputs\<close>

definition sample_answer :: string where
  "sample_answer = ''ok <think>no</think>yes <think>x''"

lemma thinking_hidden_witness:
  "strip_thinking_tags_regex think_re think_re sample_answer [] =
    shown_text (tags_of think_re sample_answer [] (tr_find_iter think_re sample_answer)) sample_answer
    @ (case rev (tags_of think_re sample_answer [] (tr_find_iter think_re sample_answer)) of
         (_, fin, False) # _ \<Rightarrow>
           (case extract_final_content think_re (drop fin sample_answer) (find_code_regions (drop fin sample_answer)) of
              Some c \<Rightarrow> c | None \<Rightarrow> [])
       | _ \<Rightarrow> [])
   \<and> strip_thinking_tags_regex think_re think_re sample_answer [] = ''ok yes ''"
proof
  have "matches_ok 0 (length sample_answer) (tr_find_iter think_re sample_answer)" by code_simp
  from thinking_hidden [OF this]
  show "strip_thinking_tags_regex think_re think_re sample_answer [] =
    shown_text (tags_of think_re sample_answer [] (tr_find_iter think_re sample_answer)) sample_answer
    @ (case rev (tags_of think_re sample_answer [] (tr_find_iter think_re sample_answer)) of
         (_, fin, False) # _ \<Rightarrow>
           (case extract_final_content think_re (drop fin sample_answer) (find_code_regions (drop fin sample_answer)) of
              Some c \<Rightarrow> c | None \<Rightarrow> [])
       | _ \<Rightarrow> [])" .
  show "strip_thinking_tags_regex think_re think_re sample_answer [] = ''ok yes ''" by code_simp
qed

end
