(* ===== verification/Reasoning.thy ===== *)
theory Reasoning
  imports Response_Text Provider
begin

text \<open>
  The reasoning engine of \<open>src/llm/reasoning.rs\<close>: plans, tool selection, evaluation and answers,
  each one call to the provider followed by cleaning of the text. The provider, the compiled
  expressions, JSON and the texts of the prompts are fields of a record. Numbers that are floats in
  the code are bit patterns.
\<close>

section \<open>Data\<close>

record reasoning_context =
  rx_messages :: "chat_message list"
  rx_available_tools :: "tool_definition list"
  rx_job_description :: "string option"
  rx_current_state :: "string option"
  rx_metadata :: "string \<rightharpoonup> string"
  rx_force_text :: bool
  rx_system_prompt :: "string option"

definition reasoning_context_new :: reasoning_context where
  "reasoning_context_new =
     \<lparr>rx_messages = [], rx_available_tools = [], rx_job_description = None, rx_current_state = None,
      rx_metadata = Map.empty, rx_force_text = False, rx_system_prompt = None\<rparr>"

definition push_message :: "chat_message \<Rightarrow> reasoning_context \<Rightarrow> reasoning_context" where
  "push_message m ctx = ctx\<lparr>rx_messages := rx_messages ctx @ [m]\<rparr>"

record planned_action =
  pa_tool_name :: string
  pa_parameters :: json
  pa_reasoning :: string
  pa_expected_outcome :: string

record action_plan =
  ap_goal :: string
  ap_actions :: "planned_action list"
  ap_estimated_cost :: "u64 option"
  ap_estimated_time_secs :: "u64 option"
  ap_confidence :: u64

record tool_selection =
  ts_tool_name :: string
  ts_parameters :: json
  ts_reasoning :: string
  ts_alternatives :: "string list"
  ts_tool_call_id :: string

record token_usage =
  tu_input_tokens :: u32
  tu_output_tokens :: u32
  tu_cache_read_input_tokens :: u32
  tu_cache_creation_input_tokens :: u32

definition token_usage_total :: "token_usage \<Rightarrow> u32" where
  "token_usage_total u = tu_input_tokens u + tu_output_tokens u"

datatype respond_result = RespondText string | RespondToolCalls "tool_call list" "string option"

record respond_output =
  ro_result :: respond_result
  ro_usage :: token_usage

record success_evaluation =
  se_success :: bool
  se_confidence :: u64
  se_reasoning :: string
  se_issues :: "string list"
  se_suggestions :: "string list"

record tool_completion_request =
  tq_messages :: "chat_message list"
  tq_tools :: "tool_definition list"
  tq_model :: "string option"
  tq_max_tokens :: "u32 option"
  tq_temperature :: "u32 option"
  tq_tool_choice :: "string option"
  tq_metadata :: "string \<rightharpoonup> string"

definition tool_completion_request_new :: "chat_message list \<Rightarrow> tool_definition list \<Rightarrow> tool_completion_request" where
  "tool_completion_request_new msgs tools =
     \<lparr>tq_messages = msgs, tq_tools = tools, tq_model = None, tq_max_tokens = None, tq_temperature = None,
      tq_tool_choice = None, tq_metadata = Map.empty\<rparr>"

record tool_completion_response =
  tp_content :: "string option"
  tp_tool_calls :: "tool_call list"
  tp_input_tokens :: u32
  tp_output_tokens :: u32
  tp_finish_reason :: finish_reason
  tp_cache_read_input_tokens :: u32
  tp_cache_creation_input_tokens :: u32

record 's reasoning =
  re_complete :: "(completion_request, completion_response, 's) provider"
  re_complete_with_tools :: "(tool_completion_request, tool_completion_response, 's) provider"
  re_model_name :: string
  re_regexes :: response_regexes
  re_from_json :: "string \<Rightarrow> json option"
  re_show_json :: "json \<Rightarrow> string"
  re_parse_plan :: "string \<Rightarrow> string + action_plan"
  re_parse_evaluation :: "string \<Rightarrow> string + success_evaluation"
  re_planning_prompt :: "reasoning_context \<Rightarrow> string"
  re_evaluation_prompt :: string
  re_system_prompt :: "tool_definition list \<Rightarrow> string"

definition f32_0_1 :: u32 where
  "f32_0_1 = 0x3DCCCCCD"

definition f32_0_3 :: u32 where
  "f32_0_3 = 0x3E99999A"

definition f32_0_7 :: u32 where
  "f32_0_7 = 0x3F333333"

section \<open>Operations\<close>

definition cleaned :: "'s reasoning \<Rightarrow> string \<Rightarrow> string" where
  "cleaned re t = clean_response (re_regexes re) t"

definition usage_of_completion :: "completion_response \<Rightarrow> token_usage" where
  "usage_of_completion r =
     \<lparr>tu_input_tokens = rs_input_tokens r, tu_output_tokens = rs_output_tokens r,
      tu_cache_read_input_tokens = rs_cache_read_input_tokens r,
      tu_cache_creation_input_tokens = rs_cache_creation_input_tokens r\<rparr>"

definition usage_of_tool_completion :: "tool_completion_response \<Rightarrow> token_usage" where
  "usage_of_tool_completion r =
     \<lparr>tu_input_tokens = tp_input_tokens r, tu_output_tokens = tp_output_tokens r,
      tu_cache_read_input_tokens = tp_cache_read_input_tokens r,
      tu_cache_creation_input_tokens = tp_cache_creation_input_tokens r\<rparr>"

definition reasoning_complete :: "'s reasoning \<Rightarrow> (completion_request, string \<times> token_usage, 's) provider" where
  "reasoning_complete re request s =
     (case re_complete re request s of
        (Inl e, s) \<Rightarrow> (Inl e, s)
      | (Inr response, s) \<Rightarrow> (Inr (cleaned re (rs_content response), usage_of_completion response), s))"

definition parse_plan :: "'s reasoning \<Rightarrow> string \<Rightarrow> llm_error + action_plan" where
  "parse_plan re content =
     (case re_parse_plan re (case extract_json content of Some j \<Rightarrow> j | None \<Rightarrow> content) of
        Inl e \<Rightarrow> Inl (InvalidResponse (re_model_name re) (''Failed to parse plan: '' @ e))
      | Inr p \<Rightarrow> Inr p)"

definition parse_evaluation :: "'s reasoning \<Rightarrow> string \<Rightarrow> llm_error + success_evaluation" where
  "parse_evaluation re content =
     (case re_parse_evaluation re (case extract_json content of Some j \<Rightarrow> j | None \<Rightarrow> content) of
        Inl e \<Rightarrow> Inl (InvalidResponse (re_model_name re) (''Failed to parse evaluation: '' @ e))
      | Inr p \<Rightarrow> Inr p)"

definition reasoning_plan :: "'s reasoning \<Rightarrow> (reasoning_context, action_plan, 's) provider" where
  "reasoning_plan re ctx s =
     (let messages = msg_system (re_planning_prompt re ctx) # rx_messages ctx
            @ (case rx_job_description ctx of
                 Some job \<Rightarrow> [msg_user (''Please create a plan to complete this job:'' @ [CHR 0x0A, CHR 0x0A] @ job)]
               | None \<Rightarrow> []);
          request = (completion_request_new messages)\<lparr>rq_max_tokens := Some 2048, rq_temperature := Some f32_0_3\<rparr>
      in case re_complete re request s of
           (Inl e, s) \<Rightarrow> (Inl e, s)
         | (Inr response, s) \<Rightarrow> (parse_plan re (cleaned re (rs_content response)), s))"

definition select_tools :: "'s reasoning \<Rightarrow> (reasoning_context, tool_selection list, 's) provider" where
  "select_tools re ctx s =
     (if rx_available_tools ctx = [] then (Inr [], s)
      else let request = (tool_completion_request_new (rx_messages ctx) (rx_available_tools ctx))
                 \<lparr>tq_max_tokens := Some 1024, tq_tool_choice := Some ''auto'', tq_metadata := rx_metadata ctx\<rparr>
      in case re_complete_with_tools re request s of
           (Inl e, s) \<Rightarrow> (Inl e, s)
         | (Inr response, s) \<Rightarrow>
             (let why = (case tp_content response of Some c \<Rightarrow> c | None \<Rightarrow> [])
              in (Inr (map (\<lambda>tc. \<lparr>ts_tool_name = tc_name tc, ts_parameters = tc_arguments tc, ts_reasoning = why,
                                 ts_alternatives = [], ts_tool_call_id = tc_id tc\<rparr>) (tp_tool_calls response)), s)))"

definition select_tool :: "'s reasoning \<Rightarrow> (reasoning_context, tool_selection option, 's) provider" where
  "select_tool re ctx s =
     (case select_tools re ctx s of
        (Inl e, s) \<Rightarrow> (Inl e, s)
      | (Inr xs, s) \<Rightarrow> (Inr (case xs of [] \<Rightarrow> None | x # _ \<Rightarrow> Some x), s))"

definition evaluate_success :: "'s reasoning \<Rightarrow> string \<Rightarrow> (reasoning_context, success_evaluation, 's) provider" where
  "evaluate_success re result ctx s =
     (let nl = [CHR 0x0A];
          question = (case rx_job_description ctx of
                        Some job \<Rightarrow> ''Task description:'' @ nl @ job @ nl @ nl @ ''Result:'' @ nl @ result
                      | None \<Rightarrow> ''Result to evaluate:'' @ nl @ result);
          request = (completion_request_new [msg_system (re_evaluation_prompt re), msg_user question])
            \<lparr>rq_max_tokens := Some 1024, rq_temperature := Some f32_0_1\<rparr>
      in case re_complete re request s of
           (Inl e, s) \<Rightarrow> (Inl e, s)
         | (Inr response, s) \<Rightarrow> (parse_evaluation re (cleaned re (rs_content response)), s))"

definition unsure_reply :: string where
  "unsure_reply = ''I'' @ [CHR 0x27] @ ''m not sure how to respond to that.''"

definition text_or_fallback :: "string \<Rightarrow> string" where
  "text_or_fallback t = (if trim t = [] then unsure_reply else t)"

definition tool_response_result :: "'s reasoning \<Rightarrow> reasoning_context \<Rightarrow> tool_completion_response \<Rightarrow> respond_result" where
  "tool_response_result re ctx response =
     (if tp_tool_calls response \<noteq> []
      then RespondToolCalls (tp_tool_calls response) (map_option (cleaned re) (tp_content response))
      else let content = (case tp_content response of Some c \<Rightarrow> c | None \<Rightarrow> unsure_reply);
               recovered = recover_tool_calls_from_content (re_from_json re) content (rx_available_tools ctx)
           in if recovered \<noteq> []
              then RespondToolCalls recovered (let c = cleaned re content in if c = [] then None else Some c)
              else RespondText (text_or_fallback (cleaned re content)))"

definition respond_with_tools :: "'s reasoning \<Rightarrow> (reasoning_context, respond_output, 's) provider" where
  "respond_with_tools re ctx s =
     (let system_prompt = (case rx_system_prompt ctx of Some p \<Rightarrow> p | None \<Rightarrow> re_system_prompt re (rx_available_tools ctx));
          messages = msg_system system_prompt # rx_messages ctx;
          effective_tools = (if rx_force_text ctx then [] else rx_available_tools ctx)
      in if effective_tools \<noteq> []
         then let request = (tool_completion_request_new messages effective_tools)
                    \<lparr>tq_max_tokens := Some 4096, tq_temperature := Some f32_0_7, tq_tool_choice := Some ''auto'',
                     tq_metadata := rx_metadata ctx\<rparr>
              in case re_complete_with_tools re request s of
                   (Inl e, s) \<Rightarrow> (Inl e, s)
                 | (Inr response, s) \<Rightarrow>
                     (Inr \<lparr>ro_result = tool_response_result re ctx response, ro_usage = usage_of_tool_completion response\<rparr>, s)
         else let request = (completion_request_new messages)
                    \<lparr>rq_max_tokens := Some 4096, rq_temperature := Some f32_0_7, rq_metadata := rx_metadata ctx\<rparr>
              in case re_complete re request s of
                   (Inl e, s) \<Rightarrow> (Inl e, s)
                 | (Inr response, s) \<Rightarrow>
                     (Inr \<lparr>ro_result = RespondText (text_or_fallback (cleaned re (rs_content response))),
                          ro_usage = usage_of_completion response\<rparr>, s))"

definition respond :: "'s reasoning \<Rightarrow> (reasoning_context, string, 's) provider" where
  "respond re ctx s =
     (case respond_with_tools re ctx s of
        (Inl e, s) \<Rightarrow> (Inl e, s)
      | (Inr out, s) \<Rightarrow>
          (Inr (case ro_result out of
                  RespondText t \<Rightarrow> t
                | RespondToolCalls calls _ \<Rightarrow>
                    ''[Calling tools: ''
                    @ join '', '' (map (\<lambda>tc. ''`'' @ tc_name tc @ ''('' @ re_show_json re (tc_arguments tc) @ '')`'') calls) @ '']''), s))"

section \<open>Answers\<close>

lemma text_or_fallback_shown: "trim (text_or_fallback t) \<noteq> []"
proof (cases "trim t = []")
  case True
  have "trim unsure_reply \<noteq> []" by code_simp
  with True show ?thesis by (simp add: text_or_fallback_def)
qed (simp add: text_or_fallback_def)

lemma tool_response_result_cases:
  "case tool_response_result re ctx response of
     RespondText t \<Rightarrow> trim t \<noteq> []
   | RespondToolCalls calls _ \<Rightarrow>
       calls \<noteq> []
       \<and> (calls = tp_tool_calls response \<or> tp_tool_calls response = [] \<and> tc_name ` set calls \<subseteq> td_name ` set (rx_available_tools ctx))"
  using recover_tool_calls_ok [of "rx_available_tools ctx" "re_from_json re"]
  by (fastforce simp: tool_response_result_def Let_def text_or_fallback_shown recovered_ok_def)

text \<open>
  C33. An answer is never blank: it is a text with something to show, or at least one tool call. Calls
  only come when tools were offered and text was not forced; they are the calls of the provider's
  response, or, if it has none, calls recovered from its text, which name offered tools.
\<close>

theorem answer_sound:
  assumes "respond_with_tools re ctx s = (Inr out, s')"
  shows "case ro_result out of
      RespondText t \<Rightarrow> trim t \<noteq> []
    | RespondToolCalls calls _ \<Rightarrow>
        calls \<noteq> [] \<and> \<not> rx_force_text ctx
        \<and> (\<exists>request response. re_complete_with_tools re request s = (Inr response, s')
             \<and> tq_tools request = rx_available_tools ctx \<and> rx_available_tools ctx \<noteq> []
             \<and> (calls = tp_tool_calls response
                \<or> tp_tool_calls response = [] \<and> tc_name ` set calls \<subseteq> td_name ` set (rx_available_tools ctx)))"
proof (cases "rx_force_text ctx \<or> rx_available_tools ctx = []")
  case True
  then have "(if rx_force_text ctx then [] else rx_available_tools ctx) = []" by auto
  then have "\<exists>t. ro_result out = RespondText (text_or_fallback t)"
    using assms unfolding respond_with_tools_def Let_def by (auto split: prod.splits sum.splits)
  then show ?thesis using text_or_fallback_shown by auto
next
  case False
  let ?prompt = "case rx_system_prompt ctx of Some p \<Rightarrow> p | None \<Rightarrow> re_system_prompt re (rx_available_tools ctx)"
  let ?request = "(tool_completion_request_new (msg_system ?prompt # rx_messages ctx) (rx_available_tools ctx))
    \<lparr>tq_max_tokens := Some 4096, tq_temperature := Some f32_0_7, tq_tool_choice := Some ''auto'', tq_metadata := rx_metadata ctx\<rparr>"
  obtain response where "re_complete_with_tools re ?request s = (Inr response, s')"
    and "ro_result out = tool_response_result re ctx response"
    using assms False unfolding respond_with_tools_def Let_def by (auto split: prod.splits sum.splits)
  moreover have "tq_tools ?request = rx_available_tools ctx" by (simp add: tool_completion_request_new_def)
  ultimately have "\<exists>request response. re_complete_with_tools re request s = (Inr response, s')
      \<and> tq_tools request = rx_available_tools ctx \<and> ro_result out = tool_response_result re ctx response"
    by blast
  then obtain request response where "re_complete_with_tools re request s = (Inr response, s')"
    "tq_tools request = rx_available_tools ctx" "ro_result out = tool_response_result re ctx response"
    by blast
  with tool_response_result_cases [where re = re and ctx = ctx and response = response] False
  show ?thesis by (cases "tool_response_result re ctx response") (simp, simp, blast)
qed

text \<open>A provider whose calls keep an invariant of its state keeps it through every operation of the engine.\<close>

definition engine_ok :: "'s reasoning \<Rightarrow> ('s \<Rightarrow> bool) \<Rightarrow> bool" where
  "engine_ok re ok \<longleftrightarrow> provider_ok (re_complete re) ok (\<lambda>_ _. True) \<and> provider_ok (re_complete_with_tools re) ok (\<lambda>_ _. True)"

lemma engine_keeps:
  assumes "engine_ok re ok" and "ok s"
  shows "ok (snd (respond_with_tools re ctx s))" "ok (snd (select_tools re ctx s))" "ok (snd (reasoning_plan re ctx s))"
    "ok (snd (evaluate_success re result ctx s))" "ok (snd (reasoning_complete re request s))"
proof -
  have c: "ok s'" if "re_complete re q s = (x, s')" for q x s'
    using assms that provider_ok_state unfolding engine_ok_def by (metis snd_conv)
  have t: "ok s'" if "re_complete_with_tools re q s = (x, s')" for q x s'
    using assms that provider_ok_state unfolding engine_ok_def by (metis snd_conv)
  show "ok (snd (respond_with_tools re ctx s))"
    by (auto simp: respond_with_tools_def Let_def assms(2) split: prod.split sum.split dest: c t)
  show "ok (snd (select_tools re ctx s))"
    by (auto simp: select_tools_def Let_def assms(2) split: prod.split sum.split dest: t)
  show "ok (snd (reasoning_plan re ctx s))" "ok (snd (evaluate_success re result ctx s))" "ok (snd (reasoning_complete re request s))"
    by (auto simp: reasoning_plan_def evaluate_success_def reasoning_complete_def Let_def split: prod.split sum.split dest: c)
qed

section \<open>A concrete engine\<close>

definition sample_engine :: "unit reasoning" where
  "sample_engine =
     \<lparr>re_complete = (\<lambda>q s. (Inl (AuthFailed ''none''), s)),
      re_complete_with_tools = (\<lambda>q s. (Inr \<lparr>tp_content = Some ''<tool_call>time</tool_call>'', tp_tool_calls = [],
        tp_input_tokens = 1, tp_output_tokens = 1, tp_finish_reason = Stop, tp_cache_read_input_tokens = 0,
        tp_cache_creation_input_tokens = 0\<rparr>, s)),
      re_model_name = ''m'',
      re_regexes = \<lparr>quick_tag_is_match = (\<lambda>_. False), thinking_tag_re = think_re, final_tag_re = think_re,
        pipe_reasoning_tag_re = think_re\<rparr>,
      re_from_json = (\<lambda>_. None), re_show_json = (\<lambda>_. ''{}''), re_parse_plan = (\<lambda>_. Inl ''''),
      re_parse_evaluation = (\<lambda>_. Inl ''''), re_planning_prompt = (\<lambda>_. ''''), re_evaluation_prompt = '''',
      re_system_prompt = (\<lambda>_. '''')\<rparr>"

definition sample_context :: reasoning_context where
  "sample_context = reasoning_context_new\<lparr>rx_available_tools := [\<lparr>td_name = ''time'', td_description = '''', td_parameters = JNull\<rparr>]\<rparr>"

definition sample_calls :: "tool_call list" where
  "sample_calls = [\<lparr>tc_id = ''recovered_0'', tc_name = ''time'', tc_arguments = JObject []\<rparr>]"

lemma answer_sound_witness:
  "sample_calls \<noteq> [] \<and> \<not> rx_force_text sample_context
   \<and> (\<exists>request response. re_complete_with_tools sample_engine request () = (Inr response, ())
        \<and> tq_tools request = rx_available_tools sample_context \<and> rx_available_tools sample_context \<noteq> []
        \<and> (sample_calls = tp_tool_calls response
           \<or> tp_tool_calls response = [] \<and> tc_name ` set sample_calls \<subseteq> td_name ` set (rx_available_tools sample_context)))"
proof -
  have "respond_with_tools sample_engine sample_context ()
    = (Inr \<lparr>ro_result = RespondToolCalls sample_calls None, ro_usage = \<lparr>tu_input_tokens = 1, tu_output_tokens = 1,
         tu_cache_read_input_tokens = 0, tu_cache_creation_input_tokens = 0\<rparr>\<rparr>, ())"
    by code_simp
  from answer_sound [OF this] show ?thesis by simp
qed

end
