(* ===== verification/Worker.thy ===== *)
theory Worker
  imports Context_Manager Preflight Rate_Limiter Safety_Layer Reasoning
begin

text \<open>
  \<open>src/agent/worker.rs\<close>: the worker that runs one job. It waits for the start message, lets the
  model plan or choose tools round by round, runs the tools behind approval, rate limit, hooks and
  validation, and moves the job to its next state. What the worker shares with other tasks, the
  context manager and the rate limiter, may change whenever it waits: \<open>wd_await\<close> gives the
  messages that have arrived and what the others did. Messages, saved events, statuses, actions and
  failures are lists of the state; \<open>w_trace\<close> is added to record model answers and tool runs.
\<close>

section \<open>Data\<close>

datatype worker_message = WM_Start | WM_Stop | WM_Ping | WM_UserMessage string

datatype exec_error =
    TE_NotFound string
  | TE_ExecutionFailed string string
  | TE_Timeout string duration
  | TE_InvalidParameters string string
  | TE_Disabled string string
  | TE_Sandbox string string
  | TE_AuthRequired string
  | TE_RateLimited string "duration option"
  | TE_BuilderFailed string

datatype worker_error = ToolErr exec_error | LlmErr llm_error | JobErr job_error

datatype sse_event =
    SseJobMessage uuid string string
  | SseJobToolUse uuid string json
  | SseJobToolResult uuid string string
  | SseJobStatus uuid string
  | SseJobResult uuid string "string option"

record 's worker_tool = tool +
  wt_rate_limit :: "tool_rate_limit_config option"
  wt_timeout :: duration
  wt_execute :: "json \<Rightarrow> job_context \<Rightarrow> 's \<Rightarrow> (tool_error + tool_output) option \<times> 's"

text \<open>\<open>wt_execute\<close> gives \<open>None\<close> when the tool does not end within its timeout.\<close>

record 's worker_deps =
  wd_tool :: "'s \<Rightarrow> string \<Rightarrow> 's worker_tool option"
  wd_tool_definitions :: "'s \<Rightarrow> tool_definition list"
  wd_engine :: "'s reasoning"
  wd_hooks :: "'s hook_registry"
  wd_safety :: safety_layer
  wd_approval :: "approval_context option"
  wd_use_planning :: bool
  wd_store :: bool
  wd_sse :: bool
  wd_await :: "context_manager \<times> rate_limiter \<Rightarrow> 's \<Rightarrow> worker_message list \<times> (context_manager \<times> rate_limiter) \<times> 's"
  wd_schedule :: "'s \<Rightarrow> nat \<Rightarrow> nat list"
  wd_clock :: "'s \<Rightarrow> nat \<Rightarrow> instant"
  wd_now :: "'s \<Rightarrow> datetime"
  wd_elapsed :: "'s \<Rightarrow> duration"
  wd_fresh :: "'s \<Rightarrow> uuid"
  wd_from_json :: "string \<Rightarrow> json option"
  wd_to_json :: "json \<Rightarrow> string option"
  wd_pretty :: "json \<Rightarrow> string + string"
  wd_show_json :: "json \<Rightarrow> string"
  wd_show_uuid :: "uuid \<Rightarrow> string"
  wd_show_error :: "worker_error \<Rightarrow> string"
  wd_show_tool_error :: "tool_error \<Rightarrow> string"
  wd_show_hook_error :: "hook_error \<Rightarrow> string"

datatype worker_trace =
    TrSelect
  | TrAnswer string
  | TrRun string json

record 's worker_state =
  w_mgr :: context_manager
  w_limiter :: rate_limiter
  w_ext :: 's
  w_queue :: "worker_message list"
  w_ctx :: reasoning_context
  w_events :: "(string \<times> json) list"
  w_sse :: "sse_event list"
  w_status :: "(job_state \<times> string option) list"
  w_actions :: "action_record list"
  w_failures :: "(string \<times> string) list"
  w_trace :: "worker_trace list"

section \<open>Logging and waiting\<close>

definition str_field :: "json \<Rightarrow> string \<Rightarrow> string \<Rightarrow> string" where
  "str_field data k dflt = (case Option.bind (json_get data k) as_str of Some s \<Rightarrow> s | None \<Rightarrow> dflt)"

definition sse_of_event :: "uuid \<Rightarrow> string \<Rightarrow> json \<Rightarrow> sse_event option" where
  "sse_of_event jid event_type data =
     (if event_type = ''message'' then Some (SseJobMessage jid (str_field data ''role'' ''assistant'') (str_field data ''content'' []))
      else if event_type = ''tool_use''
      then Some (SseJobToolUse jid (str_field data ''tool_name'' ''unknown'') (case json_get data ''input'' of Some v \<Rightarrow> v | None \<Rightarrow> JNull))
      else if event_type = ''tool_result''
      then Some (SseJobToolResult jid (str_field data ''tool_name'' ''unknown'') (str_field data ''output'' []))
      else if event_type = ''status'' then Some (SseJobStatus jid (str_field data ''message'' []))
      else if event_type = ''result''
      then Some (SseJobResult jid (str_field data ''status'' ''completed'') (Option.bind (json_get data ''session_id'') as_str))
      else None)"

definition log_event :: "'s worker_deps \<Rightarrow> uuid \<Rightarrow> string \<Rightarrow> json \<Rightarrow> 's worker_state \<Rightarrow> 's worker_state" where
  "log_event deps jid event_type data w =
     (let w = (if wd_store deps then w\<lparr>w_events := w_events w @ [(event_type, data)]\<rparr> else w)
      in if wd_sse deps
         then (case sse_of_event jid event_type data of Some e \<Rightarrow> w\<lparr>w_sse := w_sse w @ [e]\<rparr> | None \<Rightarrow> w)
         else w)"

definition persist_status :: "'s worker_deps \<Rightarrow> job_state \<Rightarrow> string option \<Rightarrow> 's worker_state \<Rightarrow> 's worker_state" where
  "persist_status deps st reason w = (if wd_store deps then w\<lparr>w_status := w_status w @ [(st, reason)]\<rparr> else w)"

definition await :: "'s worker_deps \<Rightarrow> 's worker_state \<Rightarrow> 's worker_state" where
  "await deps w =
     (case wd_await deps (w_mgr w, w_limiter w) (w_ext w) of
        (msgs, (mgr, rl), s) \<Rightarrow> w\<lparr>w_queue := w_queue w @ msgs, w_mgr := mgr, w_limiter := rl, w_ext := s\<rparr>)"

definition push :: "chat_message \<Rightarrow> 's worker_state \<Rightarrow> 's worker_state" where
  "push m w = w\<lparr>w_ctx := push_message m (w_ctx w)\<rparr>"

definition traced :: "worker_trace \<Rightarrow> 's worker_state \<Rightarrow> 's worker_state" where
  "traced e w = w\<lparr>w_trace := w_trace w @ [e]\<rparr>"

definition char_starts :: "string \<Rightarrow> nat list" where
  "char_starts s = filter (\<lambda>i. \<not> is_continuation (s ! i)) [0..<length s]"

definition take_chars :: "nat \<Rightarrow> string \<Rightarrow> string" where
  "take_chars n s = (if n < length (char_starts s) then take (char_starts s ! n) s else s)"

definition truncate_for_preview :: "string \<Rightarrow> nat \<Rightarrow> string" where
  "truncate_for_preview output max_chars =
     (let collapsed = join '' '' (split_whitespace (map (\<lambda>c. if c = CHR 0x0A then CHR '' '' else c) (take_chars (max_chars + 50) output)))
      in if length (char_starts collapsed) > max_chars then take_chars max_chars collapsed @ ''...'' else collapsed)"

section \<open>Job state\<close>

text \<open>An update of the job's context; a refused transition is a context error.\<close>

definition update_job ::
  "uuid \<Rightarrow> (job_context \<Rightarrow> (string + unit) \<times> job_context) \<Rightarrow> 's worker_state \<Rightarrow> (worker_error + unit) \<times> 's worker_state" where
  "update_job jid f w =
     (case update_context jid f (w_mgr w) of
        (Inl e, m) \<Rightarrow> (Inl (JobErr e), w\<lparr>w_mgr := m\<rparr>)
      | (Inr (Inl reason), m) \<Rightarrow> (Inl (JobErr (ContextError jid reason)), w\<lparr>w_mgr := m\<rparr>)
      | (Inr (Inr ()), m) \<Rightarrow> (Inr (), w\<lparr>w_mgr := m\<rparr>))"

definition result_json :: "string \<Rightarrow> bool \<Rightarrow> string \<Rightarrow> json" where
  "result_json status success message =
     JObject [(''status'', JString status), (''success'', JBool success), (''message'', JString message)]"

definition mark_with ::
  "'s worker_deps \<Rightarrow> uuid \<Rightarrow> (job_context \<Rightarrow> (string + unit) \<times> job_context) \<Rightarrow> job_state \<Rightarrow> string \<Rightarrow> json \<Rightarrow> 's worker_state
   \<Rightarrow> (worker_error + unit) \<times> 's worker_state" where
  "mark_with deps jid f st reason data w =
     (case update_job jid f w of
        (Inl e, w) \<Rightarrow> (Inl e, w)
      | (Inr _, w) \<Rightarrow> (Inr (), persist_status deps st (Some reason) (log_event deps jid ''result'' data w)))"

definition mark_completed :: "'s worker_deps \<Rightarrow> uuid \<Rightarrow> 's worker_state \<Rightarrow> (worker_error + unit) \<times> 's worker_state" where
  "mark_completed deps jid w =
     mark_with deps jid (transition_to Job_Completed (Some ''Job completed successfully'') (wd_now deps (w_ext w)))
       Job_Completed ''Job completed successfully'' (result_json ''completed'' True ''Job completed successfully'') w"

definition mark_failed :: "'s worker_deps \<Rightarrow> uuid \<Rightarrow> string \<Rightarrow> 's worker_state \<Rightarrow> (worker_error + unit) \<times> 's worker_state" where
  "mark_failed deps jid reason w =
     mark_with deps jid (transition_to Job_Failed (Some reason) (wd_now deps (w_ext w)))
       Job_Failed reason (result_json ''failed'' False (''Execution failed: '' @ reason)) w"

definition worker_mark_stuck :: "'s worker_deps \<Rightarrow> uuid \<Rightarrow> string \<Rightarrow> 's worker_state \<Rightarrow> (worker_error + unit) \<times> 's worker_state" where
  "worker_mark_stuck deps jid reason w =
     mark_with deps jid (mark_stuck reason (wd_now deps (w_ext w)))
       Job_Stuck reason (result_json ''stuck'' False (''Job stuck: '' @ reason)) w"

section \<open>Tools\<close>

definition hook_event_of :: "'s worker_deps \<Rightarrow> uuid \<Rightarrow> 's worker_tool \<Rightarrow> string \<Rightarrow> json \<Rightarrow> job_context \<Rightarrow> hook_event" where
  "hook_event_of deps jid tool name params ctx =
     ToolCallEvent name (redact_params params (tool_sensitive_params tool)) (job_user_id ctx) (''job:'' @ wd_show_uuid deps jid)"

definition worker_hooks ::
  "'s worker_deps \<Rightarrow> uuid \<Rightarrow> 's worker_tool \<Rightarrow> string \<Rightarrow> json \<Rightarrow> job_context \<Rightarrow> 's \<Rightarrow> (worker_error + json) \<times> 's" where
  "worker_hooks deps jid tool name params ctx s =
     (case run_hooks (wd_from_json deps) (wd_to_json deps) (wd_show_hook_error deps) (wd_hooks deps)
             (hook_event_of deps jid tool name params ctx) s of
        (Inl (Rejected reason), s) \<Rightarrow> (Inl (ToolErr (TE_ExecutionFailed name (''Blocked by hook: '' @ reason))), s)
      | (Inl err, s) \<Rightarrow> (Inl (ToolErr (TE_ExecutionFailed name (''Blocked by hook failure mode: '' @ wd_show_hook_error deps err))), s)
      | (Inr (Continue (Some new_params)), s) \<Rightarrow>
          (Inr (case wd_from_json deps new_params of Some p \<Rightarrow> p | None \<Rightarrow> params), s)
      | (Inr _, s) \<Rightarrow> (Inr params, s))"

definition rate_check_for ::
  "'s worker_deps \<Rightarrow> 's worker_tool \<Rightarrow> string \<Rightarrow> job_context \<Rightarrow> 's worker_state \<Rightarrow> duration option \<times> 's worker_state" where
  "rate_check_for deps tool name ctx w =
     (case wt_rate_limit tool of
        None \<Rightarrow> (None, w)
      | Some cfg \<Rightarrow>
          (case check_and_record (wd_clock deps (w_ext w)) (job_user_id ctx) name cfg (w_limiter w) of
             (RateLimitedBy d _, rl) \<Rightarrow> (Some d, w\<lparr>w_limiter := rl\<rparr>)
           | (RateAllowed _ _, rl) \<Rightarrow> (None, w\<lparr>w_limiter := rl\<rparr>)))"

definition invalid_details :: "validation_result \<Rightarrow> string" where
  "invalid_details v =
     ''Invalid tool parameters: '' @ join ''; '' (map (\<lambda>e. ve_field e @ '': '' @ ve_message e) (vr_errors v))"

text \<open>The record of the call in the job's memory, which is also saved.\<close>

definition action_of ::
  "'s worker_deps \<Rightarrow> string \<Rightarrow> (tool_error + tool_output) option \<Rightarrow> duration \<Rightarrow> action_record \<Rightarrow> action_record" where
  "action_of deps name outcome d a =
     (case outcome of
        Some (Inr out) \<Rightarrow>
          action_succeed
            (case wd_pretty deps (to_result out) of
               Inr t \<Rightarrow> Some (so_content (sanitize_tool_output (wd_safety deps) name t)) | Inl _ \<Rightarrow> None)
            (to_result out) d a
      | Some (Inl e) \<Rightarrow> action_fail (wd_show_tool_error deps e) d a
      | None \<Rightarrow> action_fail ''Execution timeout'' d a)"

definition record_outcome ::
  "'s worker_deps \<Rightarrow> uuid \<Rightarrow> string \<Rightarrow> json \<Rightarrow> (tool_error + tool_output) option \<Rightarrow> 's worker_state \<Rightarrow> 's worker_state" where
  "record_outcome deps jid name safe_params outcome w =
     (case update_memory jid
             (\<lambda>mem. case create_action (wd_fresh deps (w_ext w)) name safe_params (wd_now deps (w_ext w)) mem of
                      (a, mem) \<Rightarrow> (let rec = action_of deps name outcome (wd_elapsed deps (w_ext w)) a in (rec, record_action rec mem)))
             (w_mgr w) of
        (Inr rec, m) \<Rightarrow> w\<lparr>w_mgr := m, w_actions := (if wd_store deps then w_actions w @ [rec] else w_actions w)\<rparr>
      | (Inl _, m) \<Rightarrow> w\<lparr>w_mgr := m\<rparr>)"

definition outcome_text :: "'s worker_deps \<Rightarrow> 's worker_tool \<Rightarrow> string \<Rightarrow> (tool_error + tool_output) option \<Rightarrow> worker_error + string" where
  "outcome_text deps tool name outcome =
     (case outcome of
        None \<Rightarrow> Inl (ToolErr (TE_Timeout name (wt_timeout tool)))
      | Some (Inl e) \<Rightarrow> Inl (ToolErr (TE_ExecutionFailed name (wd_show_tool_error deps e)))
      | Some (Inr out) \<Rightarrow>
          (case wd_pretty deps (to_result out) of
             Inr t \<Rightarrow> Inr t
           | Inl e \<Rightarrow> Inl (ToolErr (TE_ExecutionFailed name (''Failed to serialize result: '' @ e)))))"

definition run_tool ::
  "'s worker_deps \<Rightarrow> uuid \<Rightarrow> 's worker_tool \<Rightarrow> string \<Rightarrow> json \<Rightarrow> job_context \<Rightarrow> 's worker_state \<Rightarrow> (worker_error + string) \<times> 's worker_state" where
  "run_tool deps jid tool name params ctx w =
     (let safe_params = redact_params params (tool_sensitive_params tool)
      in case wt_execute tool params ctx (w_ext w) of
           (outcome, s) \<Rightarrow>
             (let w = await deps (traced (TrRun name params) (w\<lparr>w_ext := s\<rparr>))
              in (outcome_text deps tool name outcome, record_outcome deps jid name safe_params outcome w)))"

definition execute_tool_inner ::
  "'s worker_deps \<Rightarrow> uuid \<Rightarrow> string \<Rightarrow> json \<Rightarrow> 's worker_state \<Rightarrow> (worker_error + string) \<times> 's worker_state" where
  "execute_tool_inner deps jid name params w =
     (case wd_tool deps (w_ext w) name of
        None \<Rightarrow> (Inl (ToolErr (TE_NotFound name)), w)
      | Some tool \<Rightarrow>
          (if is_blocked_or_default (wd_approval deps) name (tool_requires_approval tool params)
           then (Inl (ToolErr (TE_AuthRequired name)), w)
           else case get_context jid (w_mgr w) of
                  Inl e \<Rightarrow> (Inl (JobErr e), w)
                | Inr ctx \<Rightarrow>
                    (case rate_check_for deps tool name ctx w of
                       (Some d, w) \<Rightarrow> (Inl (ToolErr (TE_RateLimited name (Some d))), w)
                     | (None, w) \<Rightarrow>
                         (case worker_hooks deps jid tool name params ctx (w_ext w) of
                            (Inl e, s) \<Rightarrow> (Inl e, w\<lparr>w_ext := s\<rparr>)
                          | (Inr params, s) \<Rightarrow>
                              (let w = w\<lparr>w_ext := s\<rparr>;
                                   validation = validate_tool_params (sl_validator (wd_safety deps)) params
                               in if job_state ctx = Job_Cancelled
                                  then (Inl (ToolErr (TE_ExecutionFailed name ''Job is cancelled'')), w)
                                  else if \<not> vr_is_valid validation
                                  then (Inl (ToolErr (TE_InvalidParameters name (invalid_details validation))), w)
                                  else run_tool deps jid tool name params ctx w)))))"

text \<open>
  The tasks of a parallel batch: \<open>wd_schedule\<close> gives the indices in the order in which the tasks
  end; a task that panics is missing there and its slot is filled with an error.
\<close>

fun run_batch ::
  "'s worker_deps \<Rightarrow> uuid \<Rightarrow> tool_selection list \<Rightarrow> nat list \<Rightarrow> (worker_error + string) option list \<Rightarrow> 's worker_state
   \<Rightarrow> (worker_error + string) option list \<times> 's worker_state" where
  "run_batch deps jid sels [] results w = (results, w)"
| "run_batch deps jid sels (i # is) results w =
     (case execute_tool_inner deps jid (ts_tool_name (sels ! i)) (ts_parameters (sels ! i)) w of
        (r, w) \<Rightarrow> run_batch deps jid sels is (results[i := Some r]) w)"

definition execute_tools_parallel ::
  "'s worker_deps \<Rightarrow> uuid \<Rightarrow> tool_selection list \<Rightarrow> 's worker_state \<Rightarrow> (worker_error + string) list \<times> 's worker_state" where
  "execute_tools_parallel deps jid sels w =
     (case sels of
        [] \<Rightarrow> ([], w)
      | [sel] \<Rightarrow> (case execute_tool_inner deps jid (ts_tool_name sel) (ts_parameters sel) w of (r, w) \<Rightarrow> ([r], w))
      | _ \<Rightarrow>
          (case run_batch deps jid sels (filter (\<lambda>i. i < length sels) (wd_schedule deps (w_ext w) (length sels)))
                  (replicate (length sels) None) w of
             (results, w) \<Rightarrow>
               (map (\<lambda>i. case results ! i of
                           Some r \<Rightarrow> r
                         | None \<Rightarrow> Inl (ToolErr (TE_ExecutionFailed (ts_tool_name (sels ! i)) ''Task failed during execution'')))
                  [0..<length sels], w)))"

definition process_tool_result ::
  "'s worker_deps \<Rightarrow> uuid \<Rightarrow> tool_selection \<Rightarrow> worker_error + string \<Rightarrow> 's worker_state \<Rightarrow> bool \<times> 's worker_state" where
  "process_tool_result deps jid sel result w =
     (let name = ts_tool_name sel;
          w = log_event deps jid ''tool_use''
                (JObject [(''tool_name'', JString name),
                          (''input'', JString (truncate_for_preview (wd_show_json deps (ts_parameters sel)) 500))]) w
      in case result of
           Inr output \<Rightarrow>
             (let sanitized = sanitize_tool_output (wd_safety deps) name output;
                  w = push (msg_tool_result (ts_tool_call_id sel) name
                             (wrap_for_llm name (so_content sanitized) (so_was_modified sanitized))) w
              in (False, log_event deps jid ''tool_result''
                           (JObject [(''tool_name'', JString name), (''success'', JBool True),
                                     (''output'', JString (truncate_for_preview (so_content sanitized) 500))]) w))
         | Inl e \<Rightarrow>
             (let text = ''Error: '' @ wd_show_error deps e;
                  w = (if wd_store deps then w\<lparr>w_failures := w_failures w @ [(name, wd_show_error deps e)]\<rparr> else w);
                  w = log_event deps jid ''tool_result''
                        (JObject [(''tool_name'', JString name), (''success'', JBool False), (''output'', JString text)]) w
              in (False, push (msg_tool_result (ts_tool_call_id sel) name text) w)))"

fun process_results ::
  "'s worker_deps \<Rightarrow> uuid \<Rightarrow> (tool_selection \<times> (worker_error + string)) list \<Rightarrow> 's worker_state \<Rightarrow> 's worker_state" where
  "process_results deps jid [] w = w"
| "process_results deps jid ((sel, r) # rest) w = process_results deps jid rest (snd (process_tool_result deps jid sel r w))"

section \<open>Messages\<close>

definition user_event :: "string \<Rightarrow> json" where
  "user_event content = JObject [(''role'', JString ''user''), (''content'', JString content)]"

definition assistant_event :: "string \<Rightarrow> json" where
  "assistant_event content = JObject [(''role'', JString ''assistant''), (''content'', JString content)]"

definition status_event :: "string \<Rightarrow> json" where
  "status_event message = JObject [(''message'', JString message)]"

text \<open>\<open>try_recv\<close> in the loop of the rounds: whether a stop message was found.\<close>

fun drain :: "'s worker_deps \<Rightarrow> uuid \<Rightarrow> worker_message list \<Rightarrow> 's worker_state \<Rightarrow> bool \<times> 's worker_state" where
  "drain deps jid [] w = (False, w\<lparr>w_queue := []\<rparr>)"
| "drain deps jid (WM_Stop # ms) w = (True, w\<lparr>w_queue := ms\<rparr>)"
| "drain deps jid (WM_UserMessage c # ms) w =
     drain deps jid ms (log_event deps jid ''message'' (user_event c) (push (msg_user c) w))"
| "drain deps jid (WM_Ping # ms) w = drain deps jid ms w"
| "drain deps jid (WM_Start # ms) w = drain deps jid ms w"

definition poll :: "'s worker_deps \<Rightarrow> uuid \<Rightarrow> 's worker_state \<Rightarrow> bool \<times> 's worker_state" where
  "poll deps jid w = (let w = await deps w in drain deps jid (w_queue w) w)"

text \<open>The same during a plan, where also a user message ends the plan and leaves the rest in the queue.\<close>

fun plan_drain :: "'s worker_deps \<Rightarrow> uuid \<Rightarrow> worker_message list \<Rightarrow> 's worker_state \<Rightarrow> bool \<times> 's worker_state" where
  "plan_drain deps jid [] w = (False, w\<lparr>w_queue := []\<rparr>)"
| "plan_drain deps jid (WM_Stop # ms) w = (True, w\<lparr>w_queue := ms\<rparr>)"
| "plan_drain deps jid (WM_UserMessage c # ms) w =
     (True, log_event deps jid ''status'' (status_event ''Plan interrupted by user message, re-evaluating...'')
       (log_event deps jid ''message'' (user_event c) (push (msg_user c) (w\<lparr>w_queue := ms\<rparr>))))"
| "plan_drain deps jid (WM_Ping # ms) w = plan_drain deps jid ms w"
| "plan_drain deps jid (WM_Start # ms) w = plan_drain deps jid ms w"

definition plan_poll :: "'s worker_deps \<Rightarrow> uuid \<Rightarrow> 's worker_state \<Rightarrow> bool \<times> 's worker_state" where
  "plan_poll deps jid w = (let w = await deps w in plan_drain deps jid (w_queue w) w)"

section \<open>Model calls\<close>

definition engine_call ::
  "'s worker_deps \<Rightarrow> (reasoning_context, 'r, 's) provider \<Rightarrow> 's worker_state \<Rightarrow> (llm_error + 'r) \<times> 's worker_state" where
  "engine_call deps call w =
     (case call (w_ctx w) (w_ext w) of (r, s) \<Rightarrow> (r, await deps (w\<lparr>w_ext := s\<rparr>)))"

definition refresh_tools :: "'s worker_deps \<Rightarrow> 's worker_state \<Rightarrow> 's worker_state" where
  "refresh_tools deps w = w\<lparr>w_ctx := (w_ctx w)\<lparr>rx_available_tools := wd_tool_definitions deps (w_ext w)\<rparr>\<rparr>"

section \<open>Plans\<close>

definition plan_lines :: "action_plan \<Rightarrow> string" where
  "plan_lines p =
     join [CHR 0x0A] (map (\<lambda>(i, a). show_nat (i + 1) @ ''. '' @ pa_tool_name a @ '' - '' @ pa_reasoning a) (enumerate 0 (ap_actions p)))"

definition make_plan :: "'s worker_deps \<Rightarrow> uuid \<Rightarrow> 's worker_state \<Rightarrow> action_plan option \<times> 's worker_state" where
  "make_plan deps jid w =
     (if \<not> wd_use_planning deps then (None, w)
      else case engine_call deps (reasoning_plan (wd_engine deps)) w of
             (Inl e, w) \<Rightarrow> (None, w)
           | (Inr p, w) \<Rightarrow>
               (Some p, log_event deps jid ''message''
                  (assistant_event (''Plan: '' @ ap_goal p @ [CHR 0x0A, CHR 0x0A] @ plan_lines p))
                  (push (msg_assistant (''I'' @ [CHR 0x27] @ ''ve created a plan to accomplish this goal: '' @ ap_goal p
                     @ [CHR 0x0A, CHR 0x0A] @ ''Steps:'' @ [CHR 0x0A] @ plan_lines p)) w)))"

definition plan_selection :: "'s worker_deps \<Rightarrow> uuid \<Rightarrow> nat \<Rightarrow> planned_action \<Rightarrow> tool_selection" where
  "plan_selection deps jid i a =
     \<lparr>ts_tool_name = pa_tool_name a, ts_parameters = pa_parameters a, ts_reasoning = pa_reasoning a,
      ts_alternatives = [], ts_tool_call_id = ''plan_'' @ wd_show_uuid deps jid @ ''_'' @ show_nat i\<rparr>"

text \<open>The actions in order; \<open>True\<close> if all were run, \<open>False\<close> if the plan was left.\<close>

fun plan_actions ::
  "'s worker_deps \<Rightarrow> uuid \<Rightarrow> nat \<Rightarrow> planned_action list \<Rightarrow> 's worker_state \<Rightarrow> bool \<times> 's worker_state" where
  "plan_actions deps jid i [] w = (True, w)"
| "plan_actions deps jid i (a # as) w =
     (case plan_poll deps jid w of
        (True, w) \<Rightarrow> (False, w)
      | (False, w) \<Rightarrow>
          (case execute_tool_inner deps jid (pa_tool_name a) (pa_parameters a) w of
             (r, w) \<Rightarrow>
               (case process_tool_result deps jid (plan_selection deps jid i a) r w of
                  (True, w) \<Rightarrow> (False, w)
                | (False, w) \<Rightarrow> plan_actions deps jid (Suc i) as w)))"

definition plan_question :: string where
  "plan_question = ''All planned actions have been executed. Is the job complete? If not, what else needs to be done?''"

definition execute_plan :: "'s worker_deps \<Rightarrow> uuid \<Rightarrow> action_plan \<Rightarrow> 's worker_state \<Rightarrow> (worker_error + unit) \<times> 's worker_state" where
  "execute_plan deps jid p w =
     (case plan_actions deps jid 0 (ap_actions p) w of
        (False, w) \<Rightarrow> (Inr (), w)
      | (True, w) \<Rightarrow>
          (case engine_call deps (respond (wd_engine deps)) (push (msg_user plan_question) w) of
             (Inl e, w) \<Rightarrow> (Inl (LlmErr e), w)
           | (Inr reply, w) \<Rightarrow>
               (let w = push (msg_assistant reply) (traced (TrAnswer reply) w)
                in if llm_signals_completion reply then mark_completed deps jid w
                   else (Inr (), log_event deps jid ''status''
                           (status_event ''Plan completed but job needs more work, continuing...'') w))))"

section \<open>Rounds\<close>

definition MAX_WORKER_ITERATIONS :: nat where
  "MAX_WORKER_ITERATIONS = 500"

definition MAX_CONSECUTIVE_RATE_LIMITS :: nat where
  "MAX_CONSECUTIVE_RATE_LIMITS = 10"

definition MAX_TOOL_INTENT_NUDGES :: nat where
  "MAX_TOOL_INTENT_NUDGES = 2"

definition TOOL_INTENT_NUDGE :: string where
  "TOOL_INTENT_NUDGE =
     ''You said you would perform an action, but you did not include any tool calls.'' @ [CHR 0x0A]
     @ ''Do NOT describe what you intend to do '' @ [CHR 0xE2, CHR 0x80, CHR 0x94] @ '' actually call the tool now.'' @ [CHR 0x0A]
     @ ''Use the tool_calls mechanism to invoke the appropriate tool.''"

datatype round_result = RoundDone "worker_error + unit" | RoundContinue nat nat

definition done_after :: "(worker_error + unit) \<times> 's worker_state \<Rightarrow> round_result \<times> 's worker_state" where
  "done_after rw = (RoundDone (fst rw), snd rw)"

definition rate_limited_round ::
  "'s worker_deps \<Rightarrow> uuid \<Rightarrow> duration option \<Rightarrow> nat \<Rightarrow> nat \<Rightarrow> 's worker_state \<Rightarrow> round_result \<times> 's worker_state" where
  "rate_limited_round deps jid retry_after limits nudges w =
     (let limits = limits + 1; wait = (case retry_after of Some d \<Rightarrow> d | None \<Rightarrow> secs 5)
      in if limits \<ge> MAX_CONSECUTIVE_RATE_LIMITS
         then done_after (worker_mark_stuck deps jid ''Persistent rate limiting'' w)
         else (RoundContinue limits nudges,
               log_event deps jid ''status''
                 (status_event (''Rate limited, retrying in '' @ show_nat (wait div 1000000000) @ ''s ('' @ show_nat limits @ ''/''
                    @ show_nat MAX_CONSECUTIVE_RATE_LIMITS @ '')...'')) w))"

definition selection_of_call :: "tool_call \<Rightarrow> tool_selection" where
  "selection_of_call tc =
     \<lparr>ts_tool_name = tc_name tc, ts_parameters = tc_arguments tc, ts_reasoning = [], ts_alternatives = [], ts_tool_call_id = tc_id tc\<rparr>"

definition run_selections :: "'s worker_deps \<Rightarrow> uuid \<Rightarrow> tool_selection list \<Rightarrow> 's worker_state \<Rightarrow> 's worker_state" where
  "run_selections deps jid sels w =
     (case execute_tools_parallel deps jid sels w of (rs, w) \<Rightarrow> process_results deps jid (zip sels rs) w)"

definition answer_round ::
  "'s worker_deps \<Rightarrow> uuid \<Rightarrow> nat \<Rightarrow> nat \<Rightarrow> nat \<Rightarrow> 's worker_state \<Rightarrow> round_result \<times> 's worker_state" where
  "answer_round deps jid iteration limits nudges w =
     (case engine_call deps (respond_with_tools (wd_engine deps)) w of
        (Inl (llm_error.RateLimited _ retry_after), w) \<Rightarrow> rate_limited_round deps jid retry_after limits nudges w
      | (Inl e, w) \<Rightarrow> (RoundDone (Inl (LlmErr e)), w)
      | (Inr out, w) \<Rightarrow>
          (case ro_result out of
             RespondText reply \<Rightarrow>
               (let w = traced (TrAnswer reply) w
                in if llm_signals_completion reply then done_after (mark_completed deps jid w)
                   else let w = log_event deps jid ''message'' (assistant_event reply) (push (msg_assistant reply) w);
                            signals_intent = (rx_available_tools (w_ctx w) \<noteq> [] \<and> llm_signals_tool_intent reply)
                        in if signals_intent \<and> nudges < MAX_TOOL_INTENT_NUDGES
                           then (RoundContinue 0 (nudges + 1), push (msg_user TOOL_INTENT_NUDGE) w)
                           else if \<not> signals_intent
                           then (RoundContinue 0 0,
                                 if iteration > 3 \<and> iteration mod 5 = 0
                                 then push (msg_user ''Are you stuck? Do you need help completing this job?'') w else w)
                           else (RoundContinue 0 nudges, w))
           | RespondToolCalls calls content \<Rightarrow>
               (let w = (case content of Some t \<Rightarrow> log_event deps jid ''message'' (assistant_event t) w | None \<Rightarrow> w);
                    w = push (msg_assistant_with_tool_calls content calls) w
                in (RoundContinue 0 0, run_selections deps jid (map selection_of_call calls) w))))"

definition job_cancelled :: "uuid \<Rightarrow> context_manager \<Rightarrow> bool" where
  "job_cancelled jid m = (case get_context jid m of Inr c \<Rightarrow> job_state c = Job_Cancelled | Inl _ \<Rightarrow> False)"

definition worker_round ::
  "'s worker_deps \<Rightarrow> uuid \<Rightarrow> nat \<Rightarrow> nat \<Rightarrow> nat \<Rightarrow> nat \<Rightarrow> 's worker_state \<Rightarrow> round_result \<times> 's worker_state" where
  "worker_round deps jid max_iterations iteration limits nudges w =
     (case poll deps jid w of
        (True, w) \<Rightarrow> (RoundDone (Inr ()), w)
      | (False, w) \<Rightarrow>
          (if job_cancelled jid (w_mgr w) then (RoundDone (Inr ()), w)
           else let iteration = iteration + 1
                in if iteration > max_iterations then done_after (worker_mark_stuck deps jid ''Maximum iterations exceeded'' w)
                   else case engine_call deps (select_tools (wd_engine deps)) (traced TrSelect (refresh_tools deps w)) of
                          (Inl (llm_error.RateLimited _ retry_after), w) \<Rightarrow> rate_limited_round deps jid retry_after limits nudges w
                        | (Inl e, w) \<Rightarrow> (RoundDone (Inl (LlmErr e)), w)
                        | (Inr [], w) \<Rightarrow> answer_round deps jid iteration limits nudges w
                        | (Inr [sel], w) \<Rightarrow>
                            (case execute_tool_inner deps jid (ts_tool_name sel) (ts_parameters sel) w of
                               (r, w) \<Rightarrow> (RoundContinue 0 0, snd (process_tool_result deps jid sel r w)))
                        | (Inr sels, w) \<Rightarrow> (RoundContinue 0 nudges, run_selections deps jid sels w)))"

lemma worker_round_continue:
  "worker_round deps jid n it limits nudges w = (RoundContinue a b, w') \<Longrightarrow> it < n"
  by (auto simp: worker_round_def done_after_def Let_def split: prod.splits if_splits bool.splits)

function execution_rounds ::
  "'s worker_deps \<Rightarrow> uuid \<Rightarrow> nat \<Rightarrow> nat \<Rightarrow> nat \<Rightarrow> nat \<Rightarrow> 's worker_state \<Rightarrow> (worker_error + unit) \<times> 's worker_state" where
  "execution_rounds deps jid max_iterations iteration limits nudges w =
     (case worker_round deps jid max_iterations iteration limits nudges w of
        (RoundDone r, w) \<Rightarrow> (r, w)
      | (RoundContinue limits nudges, w) \<Rightarrow> execution_rounds deps jid max_iterations (iteration + 1) limits nudges w)"
  by pat_completeness auto
termination
  by (relation "measure (\<lambda>(_, _, n, it, _). n - it)") (auto dest!: worker_round_continue [OF sym])

declare execution_rounds.simps [simp del]

definition max_iterations_of :: "uuid \<Rightarrow> context_manager \<Rightarrow> nat" where
  "max_iterations_of jid m =
     min (case get_context jid m of
            Inl _ \<Rightarrow> 50
          | Inr c \<Rightarrow> (case Option.bind (json_get (job_metadata c) ''max_iterations'') as_u64 of Some k \<Rightarrow> k | None \<Rightarrow> 50))
       MAX_WORKER_ITERATIONS"

definition job_settled :: "uuid \<Rightarrow> context_manager \<Rightarrow> bool" where
  "job_settled jid m =
     (case get_context jid m of
        Inr c \<Rightarrow> is_terminal (job_state c) \<or> job_state c = Job_Stuck \<or> job_state c = Job_Completed
      | Inl _ \<Rightarrow> False)"

definition execution_loop :: "'s worker_deps \<Rightarrow> uuid \<Rightarrow> 's worker_state \<Rightarrow> (worker_error + unit) \<times> 's worker_state" where
  "execution_loop deps jid w =
     (let n = max_iterations_of jid (w_mgr w)
      in case make_plan deps jid (refresh_tools deps w) of
           (None, w) \<Rightarrow> execution_rounds deps jid n 0 0 0 w
         | (Some p, w) \<Rightarrow>
             (case execute_plan deps jid p w of
                (Inl e, w) \<Rightarrow> (Inl e, w)
              | (Inr _, w) \<Rightarrow> (if job_settled jid (w_mgr w) then (Inr (), w) else execution_rounds deps jid n 0 0 0 w)))"

section \<open>The worker\<close>

definition job_prompt :: "job_context \<Rightarrow> string" where
  "job_prompt c =
     join [CHR 0x0A]
       [''You are an autonomous agent working on a job.'', '''', ''Job: '' @ job_title c, ''Description: '' @ job_description c, '''',
        ''You have access to tools to complete this job. Plan your approach and execute tools as needed.'',
        ''You may request multiple tools at once if they can be executed in parallel.'',
        ''Report when the job is complete or if you encounter issues you cannot resolve.'']"

text \<open>What follows the loop: how it ended, with \<open>None\<close> for the timeout of the job.\<close>

definition finish_run :: "'s worker_deps \<Rightarrow> uuid \<Rightarrow> (worker_error + unit) option \<Rightarrow> 's worker_state \<Rightarrow> (worker_error + unit) \<times> 's worker_state" where
  "finish_run deps jid result w =
     (case result of
        Some (Inr _) \<Rightarrow>
          (case get_context jid (w_mgr w) of
             Inl _ \<Rightarrow> (Inr (), w)
           | Inr c \<Rightarrow>
               (if is_terminal (job_state c) \<or> job_state c = Job_Completed \<or> job_state c = Job_Stuck then (Inr (), w)
                else mark_completed deps jid w))
      | Some (Inl e) \<Rightarrow> mark_failed deps jid (wd_show_error deps e) w
      | None \<Rightarrow> worker_mark_stuck deps jid ''Execution timeout'' w)"

text \<open>
  \<open>run\<close>: \<open>first\<close> is the first message of the channel. When the job's timeout elapses the loop is
  dropped where it waits: \<open>timed_out\<close> then holds the state at that point.
\<close>

definition worker_run ::
  "'s worker_deps \<Rightarrow> uuid \<Rightarrow> worker_message option \<Rightarrow> 's worker_state option \<Rightarrow> 's worker_state \<Rightarrow> (worker_error + unit) \<times> 's worker_state" where
  "worker_run deps jid first timed_out w =
     (if first = None \<or> first = Some WM_Stop then (Inr (), w)
      else case get_context jid (w_mgr w) of
             Inl e \<Rightarrow> (Inl (JobErr e), w)
           | Inr c \<Rightarrow>
               (let ctx = push_message (msg_system (job_prompt c)) (reasoning_context_new\<lparr>rx_job_description := Some (job_description c)\<rparr>);
                    w = w\<lparr>w_ctx := ctx\<rparr>
                in case timed_out of
                     Some w \<Rightarrow> finish_run deps jid None w
                   | None \<Rightarrow> (case execution_loop deps jid w of (r, w) \<Rightarrow> finish_run deps jid (Some r) w)))"

section \<open>What the helpers leave alone\<close>

named_theorems worker_frame \<open>the manager and the trace after operations that do not touch them\<close>

lemma log_event_frame [worker_frame]:
  "w_mgr (log_event deps jid t d w) = w_mgr w" "w_trace (log_event deps jid t d w) = w_trace w"
  "w_ext (log_event deps jid t d w) = w_ext w" "w_ctx (log_event deps jid t d w) = w_ctx w"
  by (simp_all add: log_event_def Let_def split: option.split)

lemma persist_status_frame [worker_frame]:
  "w_mgr (persist_status deps st r w) = w_mgr w" "w_trace (persist_status deps st r w) = w_trace w"
  by (simp_all add: persist_status_def)

lemma push_frame [worker_frame]:
  "w_mgr (push m w) = w_mgr w" "w_trace (push m w) = w_trace w" "w_ext (push m w) = w_ext w"
  by (simp_all add: push_def)

lemma traced_frame [worker_frame]:
  "w_mgr (traced e w) = w_mgr w" "w_trace (traced e w) = w_trace w @ [e]" "w_ext (traced e w) = w_ext w"
  by (simp_all add: traced_def)

lemma refresh_frame [worker_frame]:
  "w_mgr (refresh_tools deps w) = w_mgr w" "w_trace (refresh_tools deps w) = w_trace w"
  by (simp_all add: refresh_tools_def)

lemma await_trace [worker_frame]: "w_trace (await deps w) = w_trace w"
  by (simp add: await_def split: prod.split)

lemma rate_check_frame [worker_frame]:
  "w_mgr (snd (rate_check_for deps tool name ctx w)) = w_mgr w" "w_trace (snd (rate_check_for deps tool name ctx w)) = w_trace w"
  "w_ext (snd (rate_check_for deps tool name ctx w)) = w_ext w"
  by (simp_all add: rate_check_for_def split: option.split prod.split rate_limit_result.split)

lemma drain_frame [worker_frame]:
  "w_mgr (snd (drain deps jid ms w)) = w_mgr w" "w_trace (snd (drain deps jid ms w)) = w_trace w"
  by (induction deps jid ms w rule: drain.induct) (simp_all add: worker_frame)

lemma plan_drain_frame [worker_frame]:
  "w_mgr (snd (plan_drain deps jid ms w)) = w_mgr w" "w_trace (snd (plan_drain deps jid ms w)) = w_trace w"
  by (induction deps jid ms w rule: plan_drain.induct) (simp_all add: worker_frame)

lemma process_tool_result_frame [worker_frame]:
  "w_mgr (snd (process_tool_result deps jid sel r w)) = w_mgr w" "w_trace (snd (process_tool_result deps jid sel r w)) = w_trace w"
  "fst (process_tool_result deps jid sel r w) = False"
  by (simp_all add: process_tool_result_def Let_def worker_frame split: sum.split)

lemma process_results_frame [worker_frame]:
  "w_mgr (process_results deps jid rs w) = w_mgr w" "w_trace (process_results deps jid rs w) = w_trace w"
  by (induction deps jid rs w rule: process_results.induct) (simp_all add: worker_frame)

lemma record_outcome_trace [worker_frame]: "w_trace (record_outcome deps jid name p out w) = w_trace w"
  by (simp add: record_outcome_def split: prod.split sum.split)

lemma poll_trace [worker_frame]: "w_trace (snd (poll deps jid w)) = w_trace w" "w_trace (snd (plan_poll deps jid w)) = w_trace w"
  by (simp_all add: poll_def plan_poll_def Let_def worker_frame)

lemma engine_call_trace [worker_frame]: "w_trace (snd (engine_call deps call w)) = w_trace w"
  by (simp add: engine_call_def worker_frame split: prod.split)

lemma update_job_trace [worker_frame]: "w_trace (snd (update_job jid f w)) = w_trace w"
  by (simp add: update_job_def split: prod.split sum.split unit.split)

lemma mark_with_trace [worker_frame]: "w_trace (snd (mark_with deps jid f st r d w)) = w_trace w"
  using update_job_trace [of jid f w]
  by (auto simp: mark_with_def log_event_frame persist_status_frame split: prod.split sum.split)

lemma update_job_mgr: "w_mgr (snd (update_job jid f w)) = snd (update_context jid f (w_mgr w))"
  by (simp add: update_job_def split: prod.split sum.split unit.split)

lemma mark_with_mgr: "w_mgr (snd (mark_with deps jid f st r d w)) = snd (update_context jid f (w_mgr w))"
  using update_job_mgr [of jid f w]
  by (auto simp: mark_with_def log_event_frame persist_status_frame split: prod.split sum.split)

lemma run_tool_trace: "w_trace (snd (run_tool deps jid tool name params ctx w)) = w_trace w @ [TrRun name params]"
  by (simp add: run_tool_def Let_def worker_frame split: prod.split)

section \<open>One tool call\<close>

text \<open>The ways a tool call can go.\<close>

lemma execute_tool_cases:
  "w_trace (snd (execute_tool_inner deps jid name params w)) = w_trace w
   \<or> (\<exists>tool ctx params' s.
        w_trace (snd (execute_tool_inner deps jid name params w)) = w_trace w @ [TrRun name params']
        \<and> wd_tool deps (w_ext w) name = Some tool
        \<and> \<not> is_blocked_or_default (wd_approval deps) name (tool_requires_approval tool params)
        \<and> get_context jid (w_mgr w) = Inr ctx \<and> job_state ctx \<noteq> Job_Cancelled
        \<and> fst (rate_check_for deps tool name ctx w) = None
        \<and> worker_hooks deps jid tool name params ctx (w_ext w) = (Inr params', s)
        \<and> vr_is_valid (validate_tool_params (sl_validator (wd_safety deps)) params'))"
proof (cases "wd_tool deps (w_ext w) name")
  case (Some tool)
  show ?thesis
  proof (cases "is_blocked_or_default (wd_approval deps) name (tool_requires_approval tool params)")
    case False
    show ?thesis
    proof (cases "get_context jid (w_mgr w)")
      case (Inr ctx)
      obtain d w1 where rate: "rate_check_for deps tool name ctx w = (d, w1)" by fastforce
      have w1: "w_trace w1 = w_trace w" "w_ext w1 = w_ext w"
        using rate_check_frame [of deps tool name ctx w] rate by simp_all
      show ?thesis
        using Some False Inr rate w1
        by (auto simp: execute_tool_inner_def Let_def run_tool_trace split: option.splits prod.splits sum.splits)
    qed (use Some False in \<open>simp add: execute_tool_inner_def\<close>)
  qed (use Some in \<open>simp add: execute_tool_inner_def\<close>)
qed (simp add: execute_tool_inner_def)

section \<open>The number of rounds\<close>

definition selects :: "'s worker_state \<Rightarrow> nat" where
  "selects w = count_list (w_trace w) TrSelect"

lemma selects_trace: "w_trace w' = w_trace w \<Longrightarrow> selects w' = selects w"
  by (simp add: selects_def)

lemma selects_tool: "selects (snd (execute_tool_inner deps jid name params w)) = selects w"
  using execute_tool_cases [of deps jid name params w] by (auto simp: selects_def)

lemma selects_batch: "selects (snd (run_batch deps jid sels is rs w)) = selects w"
proof (induction deps jid sels "is" rs w rule: run_batch.induct)
  case (2 deps jid sels i "is" results w)
  then show ?case
    using selects_tool [of deps jid "ts_tool_name (sels ! i)" "ts_parameters (sels ! i)" w]
    by (auto split: prod.split)
qed simp

lemma selects_parallel: "selects (snd (execute_tools_parallel deps jid sels w)) = selects w"
  using selects_tool [of deps jid "ts_tool_name (hd sels)" "ts_parameters (hd sels)" w]
    selects_batch [of deps jid sels "filter (\<lambda>i. i < length sels) (wd_schedule deps (w_ext w) (length sels))" "replicate (length sels) None" w]
  by (auto simp: execute_tools_parallel_def split: list.split prod.split)

lemma selects_run: "selects (run_selections deps jid sels w) = selects w"
  using selects_parallel [of deps jid sels w]
  by (auto simp: run_selections_def selects_def worker_frame split: prod.split)

lemma mark_trace [worker_frame]:
  "w_trace (snd (mark_completed deps jid w)) = w_trace w" "w_trace (snd (mark_failed deps jid r w)) = w_trace w"
  "w_trace (snd (worker_mark_stuck deps jid r w)) = w_trace w"
  by (simp_all add: mark_completed_def mark_failed_def worker_mark_stuck_def worker_frame)

lemma rate_limited_trace [worker_frame]: "w_trace (snd (rate_limited_round deps jid r l n w)) = w_trace w"
  by (simp add: rate_limited_round_def Let_def done_after_def worker_frame)

lemma selects_append [simp]: "selects (traced e w) = (if e = TrSelect then Suc (selects w) else selects w)"
  by (simp add: selects_def worker_frame)

lemma selects_answer: "selects (snd (answer_round deps jid it l n w)) = selects w"
proof -
  obtain r w1 where call: "engine_call deps (respond_with_tools (wd_engine deps)) w = (r, w1)" by fastforce
  have w1: "selects w1 = selects w" using engine_call_trace [of deps "respond_with_tools (wd_engine deps)" w] call by (simp add: selects_def)
  show ?thesis
  proof (cases r)
    case (Inl e)
    then show ?thesis using call w1 by (cases e) (auto simp: answer_round_def selects_def worker_frame)
  next
    case (Inr out)
    show ?thesis
    proof (cases "ro_result out")
      case (RespondText reply)
      have "w_trace (snd (answer_round deps jid it l n w)) = w_trace w1 @ [TrAnswer reply]"
        using call Inr RespondText by (simp add: answer_round_def Let_def done_after_def worker_frame)
      with w1 show ?thesis by (simp add: selects_def)
    next
      case (RespondToolCalls calls content)
      then show ?thesis
        using call Inr w1 by (auto simp: answer_round_def Let_def selects_run) (auto simp: selects_def worker_frame split: option.split)
    qed
  qed
qed

text \<open>A round asks the model at most once which tools to use.\<close>

lemma selects_round: "selects (snd (worker_round deps jid n it l k w)) \<le> Suc (selects w)"
proof -
  obtain stop w1 where poll: "poll deps jid w = (stop, w1)" by fastforce
  have w1: "selects w1 = selects w" using poll_trace(1) [of deps jid w] poll by (simp add: selects_def)
  let ?w2 = "traced TrSelect (refresh_tools deps w1)"
  obtain r w3 where call: "engine_call deps (select_tools (wd_engine deps)) ?w2 = (r, w3)" by fastforce
  have w3: "selects w3 = Suc (selects w)"
    using engine_call_trace [of deps "select_tools (wd_engine deps)" ?w2] call w1 by (simp add: selects_def worker_frame)
  show ?thesis
  proof (cases "stop \<or> job_cancelled jid (w_mgr w1) \<or> n < Suc it")
    case True
    then have "w_trace (snd (worker_round deps jid n it l k w)) = w_trace w1"
      using poll by (auto simp: worker_round_def Let_def done_after_def worker_frame split: bool.split)
    with w1 show ?thesis by (simp add: selects_def)
  next
    case False
    have "selects (snd (worker_round deps jid n it l k w)) = selects w3"
    proof (cases r)
      case (Inl e)
      then show ?thesis
        using False poll call by (cases e) (auto simp: worker_round_def Let_def selects_def worker_frame)
    next
      case (Inr sels)
      show ?thesis
        using False poll call Inr selects_tool [of deps jid "ts_tool_name (hd sels)" "ts_parameters (hd sels)" w3]
        by (auto simp: worker_round_def Let_def selects_answer selects_run split: list.split prod.split)
          (auto simp: selects_def worker_frame)
    qed
    with w3 show ?thesis by simp
  qed
qed

lemma worker_round_last: "n \<le> it \<Longrightarrow> selects (snd (worker_round deps jid n it l k w)) = selects w"
proof -
  assume n: "n \<le> it"
  obtain stop w1 where poll: "poll deps jid w = (stop, w1)" by fastforce
  have "w_trace (snd (worker_round deps jid n it l k w)) = w_trace w1"
    using n poll by (auto simp: worker_round_def Let_def done_after_def worker_frame split: bool.split)
  with poll_trace(1) [of deps jid w] poll show ?thesis by (simp add: selects_def)
qed

lemma selects_rounds: "selects (snd (execution_rounds deps jid n it l k w)) \<le> selects w + (n - it)"
proof (induction deps jid n it l k w rule: execution_rounds.induct)
  case (1 deps jid n it l k w)
  obtain r w1 where round: "worker_round deps jid n it l k w = (r, w1)" by fastforce
  have w1: "selects w1 \<le> Suc (selects w)" "n \<le> it \<longrightarrow> selects w1 = selects w"
    using selects_round [of deps jid n it l k w] worker_round_last [of n it deps jid l k w] round by simp_all
  show ?case
  proof (cases r)
    case (RoundDone x)
    then show ?thesis using round w1 by (subst execution_rounds.simps) (cases "n \<le> it"; simp)
  next
    case (RoundContinue l' k')
    with round have "it < n" by (auto dest: worker_round_continue)
    moreover have "selects (snd (execution_rounds deps jid n (it + 1) l' k' w1)) \<le> selects w1 + (n - (it + 1))"
      using 1 [OF round [symmetric] RoundContinue] .
    ultimately show ?thesis
      using round RoundContinue w1 by (subst execution_rounds.simps) simp
  qed
qed

lemma selects_plan_actions: "selects (snd (plan_actions deps jid i as w)) = selects w"
proof (induction deps jid i "as" w rule: plan_actions.induct)
  case (2 deps jid i a "as" w)
  obtain stop w1 where poll: "plan_poll deps jid w = (stop, w1)" by fastforce
  obtain r w2 where run: "execute_tool_inner deps jid (pa_tool_name a) (pa_parameters a) w1 = (r, w2)" by fastforce
  obtain d w3 where res: "process_tool_result deps jid (plan_selection deps jid i a) r w2 = (d, w3)" by fastforce
  have sel: "selects w1 = selects w" "selects w2 = selects w1" "selects w3 = selects w2" "d = False"
    using poll_trace(2) [of deps jid w] poll selects_tool [of deps jid "pa_tool_name a" "pa_parameters a" w1] run
      process_tool_result_frame [of deps jid "plan_selection deps jid i a" r w2] res
    by (simp_all add: selects_def)
  show ?case
  proof (cases stop)
    case False
    with 2 [OF poll [symmetric] _ run [symmetric] res [symmetric]] poll run res sel show ?thesis by simp
  qed (use poll sel in simp)
qed simp

lemma selects_execute_plan: "selects (snd (execute_plan deps jid p w)) = selects w"
proof -
  obtain all w1 where acts: "plan_actions deps jid 0 (ap_actions p) w = (all, w1)" by fastforce
  have w1: "selects w1 = selects w" using selects_plan_actions [of deps jid 0 "ap_actions p" w] acts by simp
  obtain r w2 where call: "engine_call deps (respond (wd_engine deps)) (push (msg_user plan_question) w1) = (r, w2)" by fastforce
  have w2: "selects w2 = selects w1"
    using engine_call_trace [of deps "respond (wd_engine deps)" "push (msg_user plan_question) w1"] call
    by (simp add: selects_def worker_frame)
  show ?thesis
  proof (cases all)
    case True
    show ?thesis
    proof (cases r)
      case (Inr reply)
      have "w_trace (snd (execute_plan deps jid p w)) = w_trace w2 @ [TrAnswer reply]"
        using acts call True Inr by (simp add: execute_plan_def Let_def worker_frame)
      with w1 w2 show ?thesis by (simp add: selects_def)
    qed (use acts call True w1 w2 in \<open>simp add: execute_plan_def\<close>)
  qed (use acts w1 in \<open>simp add: execute_plan_def\<close>)
qed

lemma selects_make_plan: "selects (snd (make_plan deps jid w)) = selects w"
  using engine_call_trace [of deps "reasoning_plan (wd_engine deps)" w]
  by (auto simp: make_plan_def selects_def log_event_frame push_frame split: prod.split sum.split)

lemma selects_loop: "selects (snd (execution_loop deps jid w)) \<le> selects w + max_iterations_of jid (w_mgr w)"
proof -
  let ?n = "max_iterations_of jid (w_mgr w)"
  obtain plan w1 where plan: "make_plan deps jid (refresh_tools deps w) = (plan, w1)" by fastforce
  have w1: "selects w1 = selects w"
    using selects_make_plan [of deps jid "refresh_tools deps w"] plan by (simp add: selects_def worker_frame)
  show ?thesis
  proof (cases plan)
    case None
    then show ?thesis
      using plan w1 selects_rounds [of deps jid ?n 0 0 0 w1] by (simp add: execution_loop_def Let_def)
  next
    case (Some p)
    obtain r w2 where exec: "execute_plan deps jid p w1 = (r, w2)" by fastforce
    have "selects w2 = selects w" using selects_execute_plan [of deps jid p w1] exec w1 by simp
    then show ?thesis
      using plan Some exec selects_rounds [of deps jid ?n 0 0 0 w2] by (auto simp: execution_loop_def Let_def split: sum.split)
  qed
qed

text \<open>
  C18. The loop of a worker ends: whatever the model answers, the tools return and the other tasks do,
  the loop returns, and it asks the model which tools to use at most as often as the job's metadata
  allow, never more than 500 times.
\<close>

theorem worker_rounds_bounded:
  "count_list (w_trace (snd (execution_loop deps jid w))) TrSelect
     \<le> count_list (w_trace w) TrSelect + max_iterations_of jid (w_mgr w)
   \<and> max_iterations_of jid (w_mgr w) \<le> 500"
  using selects_loop [of deps jid w] by (simp add: selects_def max_iterations_of_def MAX_WORKER_ITERATIONS_def)


section \<open>Invariants of the loop\<close>

text \<open>
  A property of the manager and of the trace that the other tasks keep, that does not depend on
  memories, that a longer trace keeps, and that marking the job keeps (as completed only after an
  answer that says so) holds throughout the loop.
\<close>

locale worker_invariant =
  fixes deps :: "'s worker_deps" and jid :: uuid and I :: "context_manager \<Rightarrow> worker_trace list \<Rightarrow> bool"
  assumes await_keeps: "I m tr \<Longrightarrow> wd_await deps (m, rl) s = (msgs, (m', rl'), s') \<Longrightarrow> I m' tr"
    and memory_keeps: "I m tr \<Longrightarrow> I (m\<lparr>memories := mem\<rparr>) tr"
    and trace_keeps: "I m tr \<Longrightarrow> I m (tr @ [e])"
    and stuck_keeps: "I m tr \<Longrightarrow> I (snd (update_context jid (mark_stuck reason now) m)) tr"
    and completed_keeps: "I m tr \<Longrightarrow> TrAnswer reply \<in> set tr \<Longrightarrow> llm_signals_completion reply
      \<Longrightarrow> I (snd (update_context jid (transition_to Job_Completed why now) m)) tr"
begin

lemma await_inv: "I (w_mgr w) (w_trace w) \<Longrightarrow> I (w_mgr (await deps w)) (w_trace w)"
  by (auto simp: await_def split: prod.split intro: await_keeps)

lemma engine_call_inv: "I (w_mgr w) (w_trace w) \<Longrightarrow> I (w_mgr (snd (engine_call deps call w))) (w_trace w)"
  using await_inv [of "w\<lparr>w_ext := s\<rparr>" for s] by (auto simp: engine_call_def split: prod.split)

lemma poll_inv:
  "I (w_mgr w) (w_trace w) \<Longrightarrow> I (w_mgr (snd (poll deps jid w))) (w_trace w)"
  "I (w_mgr w) (w_trace w) \<Longrightarrow> I (w_mgr (snd (plan_poll deps jid w))) (w_trace w)"
  by (simp_all add: poll_def plan_poll_def Let_def worker_frame await_inv)

lemma record_outcome_inv: "I (w_mgr w) tr \<Longrightarrow> I (w_mgr (record_outcome deps jid name p out w)) tr"
  by (auto simp: record_outcome_def update_memory_def split: prod.splits sum.splits option.splits intro: memory_keeps)

lemma tool_inv:
  assumes "I (w_mgr w) (w_trace w)"
  shows "I (w_mgr (snd (execute_tool_inner deps jid name params w))) (w_trace (snd (execute_tool_inner deps jid name params w)))"
proof -
  have run: "I (w_mgr (snd (run_tool deps jid tool name params' ctx w'))) (w_trace (snd (run_tool deps jid tool name params' ctx w')))"
    if "w_mgr w' = w_mgr w" "w_trace w' = w_trace w" for tool params' ctx and w' :: "'s worker_state"
  proof -
    have "I (w_mgr (await deps (traced e (w'\<lparr>w_ext := s\<rparr>)))) (w_trace w @ [e])" for e s
      using await_inv [of "traced e (w'\<lparr>w_ext := s\<rparr>)"] trace_keeps assms that by (simp add: worker_frame)
    then show ?thesis
      using that by (auto simp: run_tool_def Let_def worker_frame split: prod.split intro: record_outcome_inv)
  qed
  show ?thesis
  proof (cases "wd_tool deps (w_ext w) name")
    case (Some tool)
    show ?thesis
    proof (cases "get_context jid (w_mgr w)")
      case (Inr ctx)
      obtain d w1 where rate: "rate_check_for deps tool name ctx w = (d, w1)" by fastforce
      have w1: "w_mgr w1 = w_mgr w" "w_trace w1 = w_trace w"
        using rate_check_frame [of deps tool name ctx w] rate by simp_all
      show ?thesis
        using Some Inr rate assms by (auto simp: execute_tool_inner_def Let_def w1 intro: run split: option.split prod.split sum.split)
    qed (use Some assms in \<open>auto simp: execute_tool_inner_def\<close>)
  qed (use assms in \<open>simp add: execute_tool_inner_def\<close>)
qed

lemma batch_inv:
  "I (w_mgr w) (w_trace w) \<Longrightarrow> I (w_mgr (snd (run_batch deps jid sels is rs w))) (w_trace (snd (run_batch deps jid sels is rs w)))"
proof (induction "is" arbitrary: rs w)
  case (Cons i "is")
  then show ?case
    using tool_inv [OF Cons.prems, of "ts_tool_name (sels ! i)" "ts_parameters (sels ! i)"] by (auto split: prod.split)
qed simp

lemma selections_inv:
  assumes "I (w_mgr w) (w_trace w)"
  shows "I (w_mgr (run_selections deps jid sels w)) (w_trace (run_selections deps jid sels w))"
proof -
  have "I (w_mgr (snd (execute_tools_parallel deps jid sels w))) (w_trace (snd (execute_tools_parallel deps jid sels w)))"
    using assms tool_inv [OF assms, of "ts_tool_name (hd sels)" "ts_parameters (hd sels)"]
      batch_inv [OF assms, of sels "filter (\<lambda>i. i < length sels) (wd_schedule deps (w_ext w) (length sels))" "replicate (length sels) None"]
    by (auto simp: execute_tools_parallel_def split: list.split prod.split)
  then show ?thesis by (auto simp: run_selections_def worker_frame split: prod.split)
qed

lemma stuck_inv: "I (w_mgr w) tr \<Longrightarrow> I (w_mgr (snd (worker_mark_stuck deps jid reason w))) tr"
  by (simp add: worker_mark_stuck_def mark_with_mgr stuck_keeps)

lemma rate_limited_inv: "I (w_mgr w) tr \<Longrightarrow> I (w_mgr (snd (rate_limited_round deps jid r l n w))) tr"
  by (simp add: rate_limited_round_def Let_def done_after_def worker_frame stuck_inv)

lemma completed_inv:
  "I (w_mgr w) tr \<Longrightarrow> TrAnswer reply \<in> set tr \<Longrightarrow> llm_signals_completion reply \<Longrightarrow> I (w_mgr (snd (mark_completed deps jid w))) tr"
  by (simp add: mark_completed_def mark_with_mgr completed_keeps)

lemma answer_inv:
  assumes "I (w_mgr w) (w_trace w)"
  shows "I (w_mgr (snd (answer_round deps jid it l n w))) (w_trace (snd (answer_round deps jid it l n w)))"
proof -
  obtain r w1 where call: "engine_call deps (respond_with_tools (wd_engine deps)) w = (r, w1)" by fastforce
  have w1: "I (w_mgr w1) (w_trace w1)"
    using engine_call_inv [OF assms, of "respond_with_tools (wd_engine deps)"] engine_call_trace [of deps "respond_with_tools (wd_engine deps)" w] call by simp
  show ?thesis
  proof (cases r)
    case (Inl e)
    then show ?thesis using call w1 by (cases e) (auto simp: answer_round_def worker_frame rate_limited_inv)
  next
    case (Inr out)
    show ?thesis
    proof (cases "ro_result out")
      case (RespondText reply)
      have "I (w_mgr (traced (TrAnswer reply) w1)) (w_trace w1 @ [TrAnswer reply])"
        using w1 trace_keeps by (simp add: worker_frame)
      then show ?thesis
        using call Inr RespondText
        by (auto simp: answer_round_def Let_def done_after_def worker_frame intro!: completed_inv [of _ _ reply])
    next
      case (RespondToolCalls calls content)
      then show ?thesis
        using call Inr w1
        by (auto simp: answer_round_def Let_def worker_frame split: option.split intro!: selections_inv)
    qed
  qed
qed

lemma round_inv:
  assumes "I (w_mgr w) (w_trace w)"
  shows "I (w_mgr (snd (worker_round deps jid n it l k w))) (w_trace (snd (worker_round deps jid n it l k w)))"
proof -
  obtain stop w1 where poll: "poll deps jid w = (stop, w1)" by fastforce
  have w1: "I (w_mgr w1) (w_trace w1)" using poll_inv(1) [OF assms] poll_trace(1) [of deps jid w] poll by simp
  let ?w2 = "traced TrSelect (refresh_tools deps w1)"
  obtain r w3 where call: "engine_call deps (select_tools (wd_engine deps)) ?w2 = (r, w3)" by fastforce
  have "I (w_mgr ?w2) (w_trace ?w2)" using w1 trace_keeps by (simp add: worker_frame)
  then have w3: "I (w_mgr w3) (w_trace w3)"
    using engine_call_inv [of ?w2 "select_tools (wd_engine deps)"] engine_call_trace [of deps "select_tools (wd_engine deps)" ?w2] call by simp
  show ?thesis
  proof (cases "stop \<or> job_cancelled jid (w_mgr w1) \<or> n < Suc it")
    case True
    then show ?thesis
      using poll w1 by (auto simp: worker_round_def Let_def done_after_def worker_frame stuck_inv split: bool.split)
  next
    case False
    show ?thesis
    proof (cases r)
      case (Inl e)
      then show ?thesis
        using False poll call w3 by (cases e) (auto simp: worker_round_def Let_def worker_frame rate_limited_inv)
    next
      case (Inr sels)
      show ?thesis
        using False poll call Inr answer_inv [OF w3] selections_inv [OF w3]
          tool_inv [OF w3, of "ts_tool_name (hd sels)" "ts_parameters (hd sels)"]
        by (auto simp: worker_round_def Let_def worker_frame split: list.split prod.split)
    qed
  qed
qed

lemma rounds_inv:
  "I (w_mgr w) (w_trace w) \<Longrightarrow> I (w_mgr (snd (execution_rounds deps jid n it l k w))) (w_trace (snd (execution_rounds deps jid n it l k w)))"
proof (induction "n - it" arbitrary: it l k w rule: less_induct)
  case less
  obtain r w1 where round: "worker_round deps jid n it l k w = (r, w1)" by fastforce
  have w1: "I (w_mgr w1) (w_trace w1)" using round_inv [OF less.prems, of n it l k] round by simp
  show ?case
  proof (cases r)
    case (RoundDone x)
    with round w1 show ?thesis by (subst (1 2) execution_rounds.simps) simp
  next
    case (RoundContinue l' k')
    with round have "it < n" by (auto dest: worker_round_continue)
    with less.hyps [of "it + 1" w1 l' k'] w1 round RoundContinue show ?thesis
      by (subst (1 2) execution_rounds.simps) simp
  qed
qed

lemma plan_actions_inv:
  "I (w_mgr w) (w_trace w) \<Longrightarrow> I (w_mgr (snd (plan_actions deps jid i as w))) (w_trace (snd (plan_actions deps jid i as w)))"
proof (induction "as" arbitrary: i w)
  case (Cons a "as")
  obtain stop w1 where poll: "plan_poll deps jid w = (stop, w1)" by fastforce
  have w1: "I (w_mgr w1) (w_trace w1)" using poll_inv(2) [OF Cons.prems] poll_trace(2) [of deps jid w] poll by simp
  obtain r w2 where run: "execute_tool_inner deps jid (pa_tool_name a) (pa_parameters a) w1 = (r, w2)" by fastforce
  obtain d w3 where res: "process_tool_result deps jid (plan_selection deps jid i a) r w2 = (d, w3)" by fastforce
  have "I (w_mgr w3) (w_trace w3)" "d = False"
    using tool_inv [OF w1, of "pa_tool_name a" "pa_parameters a"] run
      process_tool_result_frame [of deps jid "plan_selection deps jid i a" r w2] res by simp_all
  with Cons.IH w1 poll run res show ?case by (cases stop) simp_all
qed simp

lemma execute_plan_inv:
  assumes "I (w_mgr w) (w_trace w)"
  shows "I (w_mgr (snd (execute_plan deps jid p w))) (w_trace (snd (execute_plan deps jid p w)))"
proof -
  obtain all w1 where acts: "plan_actions deps jid 0 (ap_actions p) w = (all, w1)" by fastforce
  have w1: "I (w_mgr w1) (w_trace w1)" using plan_actions_inv [OF assms, of 0 "ap_actions p"] acts by simp
  let ?w = "push (msg_user plan_question) w1"
  obtain r w2 where call: "engine_call deps (respond (wd_engine deps)) ?w = (r, w2)" by fastforce
  have w2: "I (w_mgr w2) (w_trace w2)"
    using engine_call_inv [of ?w "respond (wd_engine deps)"] engine_call_trace [of deps "respond (wd_engine deps)" ?w] call w1
    by (simp add: worker_frame)
  show ?thesis
  proof (cases all)
    case True
    show ?thesis
    proof (cases r)
      case (Inr reply)
      then show ?thesis
        using acts call True w2 trace_keeps [OF w2]
        by (auto simp: execute_plan_def Let_def worker_frame intro!: completed_inv [of _ _ reply])
    qed (use acts call True w2 in \<open>simp add: execute_plan_def\<close>)
  qed (use acts w1 in \<open>simp add: execute_plan_def\<close>)
qed

lemma loop_inv:
  assumes "I (w_mgr w) (w_trace w)"
  shows "I (w_mgr (snd (execution_loop deps jid w))) (w_trace (snd (execution_loop deps jid w)))"
proof -
  let ?n = "max_iterations_of jid (w_mgr w)"
  obtain plan w1 where plan: "make_plan deps jid (refresh_tools deps w) = (plan, w1)" by fastforce
  have w: "I (w_mgr (refresh_tools deps w)) (w_trace (refresh_tools deps w))" using assms by (simp add: worker_frame)
  have w1: "I (w_mgr w1) (w_trace w1)"
    using engine_call_inv [OF w, of "reasoning_plan (wd_engine deps)"] w plan
      engine_call_trace [of deps "reasoning_plan (wd_engine deps)" "refresh_tools deps w"]
    by (auto simp: make_plan_def log_event_frame push_frame split: prod.splits sum.splits if_splits)
  show ?thesis
  proof (cases plan)
    case None
    then show ?thesis using plan rounds_inv [OF w1, of ?n 0 0 0] by (simp add: execution_loop_def Let_def)
  next
    case (Some p)
    obtain r w2 where exec: "execute_plan deps jid p w1 = (r, w2)" by fastforce
    have "I (w_mgr w2) (w_trace w2)" using execute_plan_inv [OF w1, of p] exec by simp
    then show ?thesis
      using plan Some exec rounds_inv [of w2 ?n 0 0 0] by (auto simp: execution_loop_def Let_def split: sum.split)
  qed
qed

end

section \<open>The two invariants\<close>

definition others :: "'s worker_deps \<Rightarrow> (context_manager \<Rightarrow> context_manager \<Rightarrow> bool) \<Rightarrow> bool" where
  "others deps P \<longleftrightarrow> (\<forall>m rl s. P m (fst (fst (snd (wd_await deps (m, rl) s)))))"

definition state_in :: "uuid \<Rightarrow> job_state set \<Rightarrow> context_manager \<Rightarrow> bool" where
  "state_in jid S m \<longleftrightarrow> (\<exists>c. hm_get (contexts m) jid = Some c \<and> job_state c \<in> S)"

definition started :: "uuid \<Rightarrow> context_manager \<Rightarrow> bool" where
  "started jid m = state_in jid (- {Job_Pending}) m"

definition keeps_started :: "uuid \<Rightarrow> context_manager \<Rightarrow> context_manager \<Rightarrow> bool" where
  "keeps_started jid m m' \<longleftrightarrow> (started jid m \<longrightarrow> started jid m')"

definition no_completion :: "uuid \<Rightarrow> context_manager \<Rightarrow> context_manager \<Rightarrow> bool" where
  "no_completion jid m m' \<longleftrightarrow> (state_in jid {Job_Completed} m' \<longrightarrow> state_in jid {Job_Completed} m)"

definition justified :: "uuid \<Rightarrow> context_manager \<Rightarrow> worker_trace list \<Rightarrow> bool" where
  "justified jid m tr \<longleftrightarrow>
     (state_in jid {Job_Completed} m \<longrightarrow> (\<exists>reply. TrAnswer reply \<in> set tr \<and> llm_signals_completion reply))"

lemma update_context_get:
  "hm_get (contexts (snd (update_context jid f m))) jid = map_option (snd \<circ> f) (hm_get (contexts m) jid)"
  by (simp add: update_context_def hm_get_update split: option.split)

lemma state_in_update:
  assumes "\<And>c. job_state c \<in> S \<Longrightarrow> job_state (snd (f c)) \<in> T"
  shows "state_in jid S m \<Longrightarrow> state_in jid T (snd (update_context jid f m))"
  using assms by (auto simp: state_in_def update_context_get)

lemma state_in_memories [simp]: "state_in jid S (m\<lparr>memories := mem\<rparr>) = state_in jid S m"
  by (simp add: state_in_def)

lemma othersD: "others deps P \<Longrightarrow> wd_await deps (m, rl) s = (msgs, (m', rl'), s') \<Longrightarrow> P m m'"
  unfolding others_def by (metis fst_conv snd_conv)

lemma mark_stuck_state:
  "job_state (snd (mark_stuck r now c)) = (if can_transition_to (job_state c) Job_Stuck then Job_Stuck else job_state c)"
  by (simp add: mark_stuck_def transition_to_state)

interpretation started: worker_invariant deps jid "\<lambda>m tr. others deps (keeps_started jid) \<and> started jid m" for deps jid
proof
  fix m rl s msgs m' rl' s' and tr :: "worker_trace list"
  assume "others deps (keeps_started jid) \<and> started jid m" "wd_await deps (m, rl) s = (msgs, (m', rl'), s')"
  then show "others deps (keeps_started jid) \<and> started jid m'"
    using othersD by (fastforce simp: keeps_started_def)
qed (auto simp: started_def mark_stuck_state transition_to_state intro!: state_in_update [of "- {Job_Pending}" _ "- {Job_Pending}"] split: if_splits)

lemma uncompleted_after_stuck:
  "state_in jid {Job_Completed} (snd (update_context jid (mark_stuck r now) m)) \<Longrightarrow> state_in jid {Job_Completed} m"
  by (auto simp: state_in_def update_context_get mark_stuck_state split: if_splits)

interpretation justified: worker_invariant deps jid "\<lambda>m tr. others deps (no_completion jid) \<and> justified jid m tr" for deps jid
proof
  fix m rl s msgs m' rl' s' and tr :: "worker_trace list"
  assume "others deps (no_completion jid) \<and> justified jid m tr" "wd_await deps (m, rl) s = (msgs, (m', rl'), s')"
  then show "others deps (no_completion jid) \<and> justified jid m' tr"
    using othersD [of deps "no_completion jid" m rl s msgs m' rl' s'] by (auto simp: no_completion_def justified_def)
qed (auto simp: justified_def dest: uncompleted_after_stuck)

section \<open>How a job ends\<close>

lemma finish_run_settles:
  assumes "started jid (w_mgr w)"
  shows "state_in jid (- {Job_Pending, Job_InProgress}) (w_mgr (snd (finish_run deps jid result w)))"
proof -
  obtain c where c: "hm_get (contexts (w_mgr w)) jid = Some c" "job_state c \<noteq> Job_Pending"
    using assms by (auto simp: started_def state_in_def)
  have mark: "state_in jid (- {Job_Pending, Job_InProgress}) (snd (update_context jid (transition_to new why now) (w_mgr w)))"
    if "can_transition_to Job_InProgress new" "new \<notin> {Job_Pending, Job_InProgress}" for new why now
    using c that by (cases "job_state c = Job_InProgress") (auto simp: state_in_def update_context_get transition_to_state)
  show ?thesis
  proof (cases result)
    case None
    have "mark_stuck r now = transition_to Job_Stuck (Some r) now" for r now
      by (auto simp: mark_stuck_def)
    with None show ?thesis by (simp add: finish_run_def worker_mark_stuck_def mark_with_mgr mark)
  next
    case (Some r)
    show ?thesis
    proof (cases r)
      case (Inl e)
      with Some show ?thesis by (simp add: finish_run_def mark_failed_def mark_with_mgr mark)
    next
      case (Inr u)
      have "get_context jid (w_mgr w) = Inr c" using c by (simp add: get_context_def)
      with Some Inr c show ?thesis
        by (auto simp: finish_run_def mark_completed_def mark_with_mgr mark is_terminal_def) (auto simp: state_in_def)
    qed
  qed
qed

text \<open>
  C7. A job does not stay in progress: when a worker was told to start a job that is not pending any
  more, and nobody else removes the job or makes it pending again, then the worker returns, and it
  leaves the job completed, failed, stuck or in a state set by somebody else, whether its loop ends,
  fails or is cut off by the job's timeout.
\<close>

theorem worker_settles_job:
  assumes "others deps (keeps_started jid)" and "started jid (w_mgr w)"
    and "first \<noteq> None" and "first \<noteq> Some WM_Stop"
    and "\<And>w'. timed_out = Some w' \<Longrightarrow> started jid (w_mgr w')"
  shows "state_in jid (- {Job_Pending, Job_InProgress}) (w_mgr (snd (worker_run deps jid first timed_out w)))"
proof -
  obtain c where c: "hm_get (contexts (w_mgr w)) jid = Some c" using assms(2) by (auto simp: started_def state_in_def)
  let ?w = "w\<lparr>w_ctx := push_message (msg_system (job_prompt c)) (reasoning_context_new\<lparr>rx_job_description := Some (job_description c)\<rparr>)\<rparr>"
  have ctx: "get_context jid (w_mgr w) = Inr c" using c by (simp add: get_context_def)
  show ?thesis
  proof (cases timed_out)
    case (Some w')
    then show ?thesis using assms(3-5) ctx by (auto simp: worker_run_def Let_def finish_run_settles)
  next
    case None
    obtain r w1 where loop: "execution_loop deps jid ?w = (r, w1)" by fastforce
    have "started jid (w_mgr w1)"
      using started.loop_inv [of deps jid ?w] assms(1,2) loop by simp
    then have "state_in jid (- {Job_Pending, Job_InProgress}) (w_mgr (snd (finish_run deps jid (Some r) w1)))"
      by (rule finish_run_settles)
    then show ?thesis using None assms(3,4) ctx loop by (auto simp: worker_run_def Let_def)
  qed
qed

text \<open>
  C19. Tool output does not complete a job: if the loop of a worker leaves its job completed and nobody
  else completed it, the model has said so in an answer of its own.
\<close>

theorem completion_only_by_model:
  assumes "others deps (no_completion jid)" and "\<not> state_in jid {Job_Completed} (w_mgr w)"
    and "state_in jid {Job_Completed} (w_mgr (snd (execution_loop deps jid w)))"
  shows "\<exists>reply. TrAnswer reply \<in> set (w_trace (snd (execution_loop deps jid w))) \<and> llm_signals_completion reply"
  using justified.loop_inv [of deps jid w] assms by (simp add: justified_def)

section \<open>Departures\<close>

text \<open>A worker that finds a stop message ends its loop without an error, and the job is then marked completed.\<close>

lemma stopped_job_completes:
  assumes "poll deps jid w = (True, w')" and "state_in jid {Job_InProgress} (w_mgr w')"
  shows "execution_rounds deps jid n it l k w = (Inr (), w')
    \<and> state_in jid {Job_Completed} (w_mgr (snd (finish_run deps jid (Some (Inr ())) w')))"
proof
  show "execution_rounds deps jid n it l k w = (Inr (), w')"
    using assms(1) by (subst execution_rounds.simps) (simp add: worker_round_def)
  obtain c where c: "hm_get (contexts (w_mgr w')) jid = Some c" "job_state c = Job_InProgress"
    using assms(2) by (auto simp: state_in_def)
  then show "state_in jid {Job_Completed} (w_mgr (snd (finish_run deps jid (Some (Inr ())) w')))"
    by (simp add: finish_run_def get_context_def is_terminal_def mark_completed_def mark_with_mgr state_in_def
        update_context_get transition_to_state)
qed

text \<open>
  Hooks see redacted parameters, and what a hook returns replaces all parameters: a hook that changes
  a call of a tool with sensitive parameters makes the tool run with the redaction marks.
\<close>

lemma hook_replaces_secret:
  assumes "run_hooks (wd_from_json deps) (wd_to_json deps) (wd_show_hook_error deps) (wd_hooks deps)
      (hook_event_of deps jid tool name params ctx) s = (Inr (Continue (Some t)), s')"
    and "wd_from_json deps t = Some (redact_params params (tool_sensitive_params tool))"
    and "params = JObject kvs" and "k \<in> set (tool_sensitive_params tool)" and "json_get params k = Some v"
  shows "\<exists>params'. worker_hooks deps jid tool name params ctx s = (Inr params', s') \<and> json_get params' k = Some (JString ''[REDACTED]'')"
proof -
  have "json_get (redact_params params (tool_sensitive_params tool)) k = Some (JString ''[REDACTED]'')"
    using assms(3-5) by (auto simp: redact_params_def redact_fold)
  with assms(1,2) show ?thesis by (simp add: worker_hooks_def)
qed

text \<open>The approval requirement is asked for the parameters before the hooks, not for those the tool runs with.\<close>

lemma approval_before_hooks:
  assumes "wd_tool deps (w_ext w) name = Some tool" and "get_context jid (w_mgr w) = Inr ctx" and "job_state ctx \<noteq> Job_Cancelled"
    and "\<not> is_blocked_or_default (wd_approval deps) name (tool_requires_approval tool params)"
    and "wt_rate_limit tool = None" and "worker_hooks deps jid tool name params ctx (w_ext w) = (Inr params', s)"
    and "vr_is_valid (validate_tool_params (sl_validator (wd_safety deps)) params')"
    and "is_blocked_or_default (wd_approval deps) name (tool_requires_approval tool params')"
  shows "w_trace (snd (execute_tool_inner deps jid name params w)) = w_trace w @ [TrRun name params']"
  using assms by (simp add: execute_tool_inner_def rate_check_for_def Let_def run_tool_trace)

text \<open>The event for a tool call shows the parameters of the call as they are, sensitive ones included.\<close>

lemma tool_use_event_unredacted:
  "wd_store deps \<Longrightarrow>
   \<exists>rest. w_events (snd (process_tool_result deps jid sel r w)) =
     w_events w @ (''tool_use'', JObject [(''tool_name'', JString (ts_tool_name sel)),
       (''input'', JString (truncate_for_preview (wd_show_json deps (ts_parameters sel)) 500))]) # rest"
  by (auto simp: process_tool_result_def Let_def log_event_def push_def split: sum.split option.split)

section \<open>A concrete worker\<close>

text \<open>The model answers every question with the given text; there are no tools.\<close>

definition talking_engine :: "string \<Rightarrow> unit reasoning" where
  "talking_engine reply = sample_engine\<lparr>re_complete := (\<lambda>q s. (Inr \<lparr>rs_content = reply, rs_input_tokens = 1, rs_output_tokens = 1,
     rs_finish_reason = Stop, rs_cache_read_input_tokens = 0, rs_cache_creation_input_tokens = 0\<rparr>, s))\<rparr>"

definition sample_deps :: "string \<Rightarrow> unit worker_deps" where
  "sample_deps reply =
     \<lparr>wd_tool = (\<lambda>_ _. None), wd_tool_definitions = (\<lambda>_. []), wd_engine = talking_engine reply, wd_hooks = [],
      wd_safety = safety_layer_new (\<lambda>_. None) (\<lambda>_ _. []) (\<lambda>_ _. []) \<lparr>sc_max_output_length = 100, sc_injection_check_enabled = True\<rparr>,
      wd_approval = None, wd_use_planning = False, wd_store = True, wd_sse = True, wd_await = (\<lambda>ml s. ([], ml, s)),
      wd_schedule = (\<lambda>_ n. [0..<n]), wd_clock = (\<lambda>_ _. 0), wd_now = (\<lambda>_. 0), wd_elapsed = (\<lambda>_. 0), wd_fresh = (\<lambda>_. 7),
      wd_from_json = (\<lambda>_. None), wd_to_json = (\<lambda>_. None), wd_pretty = (\<lambda>_. Inr []), wd_show_json = (\<lambda>_. []),
      wd_show_uuid = show_nat, wd_show_error = (\<lambda>_. ''error''), wd_show_tool_error = (\<lambda>_. ''error''), wd_show_hook_error = (\<lambda>_. ''error'')\<rparr>"

definition running_job :: job_context where
  "running_job = snd (transition_to Job_InProgress None 0 (job_with_user 7 ''u'' ''t'' ''d'' 0))"

definition sample_worker :: "unit worker_state" where
  "sample_worker =
     \<lparr>w_mgr = \<lparr>contexts = [(7, running_job)], memories = [(7, memory_new 7)], max_jobs = 5\<rparr>, w_limiter = [], w_ext = (),
      w_queue = [], w_ctx = reasoning_context_new, w_events = [], w_sse = [], w_status = [], w_actions = [], w_failures = [], w_trace = []\<rparr>"

lemma sample_others: "others (sample_deps reply) (keeps_started 7)" "others (sample_deps reply) (no_completion 7)"
  by (simp_all add: others_def sample_deps_def keeps_started_def no_completion_def)

lemma sample_await [simp]: "await (sample_deps reply) w = w"
  by (cases w) (simp add: await_def sample_deps_def)

lemma running_state: "job_state running_job = Job_InProgress"
  by (simp add: running_job_def transition_to_state job_with_user_def)

lemma sample_started: "state_in 7 S (w_mgr sample_worker) \<longleftrightarrow> Job_InProgress \<in> S"
  by (simp add: state_in_def sample_worker_def running_state hm_get_def)

lemma worker_settles_job_witness:
  "state_in 7 (- {Job_Pending, Job_InProgress}) (w_mgr (snd (worker_run (sample_deps ''thinking'') 7 (Some WM_Start) None sample_worker)))"
  by (rule worker_settles_job) (simp_all add: sample_others started_def sample_started)

lemma completion_only_by_model_witness:
  "\<exists>reply. TrAnswer reply \<in> set (w_trace (snd (execution_loop (sample_deps ''The job is done.'') 7 sample_worker))) \<and> llm_signals_completion reply"
proof (rule completion_only_by_model)
  let ?r = "''The job is done.''"
  have reply: "text_or_fallback (cleaned (talking_engine ?r) ?r) = ?r" by code_simp
  have signals: "llm_signals_completion ?r" by code_simp
  have n: "max_iterations_of 7 (w_mgr sample_worker) = 50" by code_simp
  have plan: "make_plan (sample_deps ?r) 7 w = (None, w)" for w by (simp add: make_plan_def sample_deps_def)
  have select: "engine_call (sample_deps ?r) (select_tools (wd_engine (sample_deps ?r))) w = (Inr [], w)"
    if "rx_available_tools (w_ctx w) = []" for w
    using that by (simp add: engine_call_def select_tools_def)
  have engine: "wd_engine (sample_deps ?r) = talking_engine ?r" by (simp add: sample_deps_def)
  have answer: "\<exists>u. engine_call (sample_deps ?r) (respond_with_tools (wd_engine (sample_deps ?r))) w
      = (Inr \<lparr>ro_result = RespondText ?r, ro_usage = u\<rparr>, w)"
    if "rx_available_tools (w_ctx w) = []" for w
    using that reply by (simp add: engine_call_def respond_with_tools_def engine talking_engine_def Let_def cleaned_def)
  have tools: "wd_tool_definitions (sample_deps ?r) s = []" for s by (simp add: sample_deps_def)
  define w where "w = traced TrSelect (refresh_tools (sample_deps ?r) (refresh_tools (sample_deps ?r) sample_worker))"
  have w: "rx_available_tools (w_ctx w) = []" "w_mgr w = w_mgr sample_worker"
    by (simp_all add: w_def traced_def refresh_tools_def tools)
  have poll: "poll (sample_deps ?r) 7 (refresh_tools (sample_deps ?r) sample_worker) = (False, refresh_tools (sample_deps ?r) sample_worker)"
    by (simp add: poll_def refresh_tools_def sample_worker_def)
  have running: "\<not> job_cancelled 7 (w_mgr sample_worker)"
    by (simp add: job_cancelled_def get_context_def sample_worker_def hm_get_def running_state)
  have "snd (execution_loop (sample_deps ?r) 7 sample_worker) = snd (mark_completed (sample_deps ?r) 7 (traced (TrAnswer ?r) w))"
    using answer [OF w(1)] signals select [OF w(1)]
    by (subst execution_loop_def, simp add: plan n, subst execution_rounds.simps)
      (auto simp: worker_round_def poll running worker_frame w_def [symmetric] answer_round_def done_after_def Let_def)
  then show "state_in 7 {Job_Completed} (w_mgr (snd (execution_loop (sample_deps ?r) 7 sample_worker)))"
    by (simp add: mark_completed_def mark_with_mgr worker_frame w(2) state_in_def update_context_get transition_to_state)
      (simp add: sample_worker_def hm_get_def running_state transition_to_state)
qed (simp_all add: sample_others sample_started)

end
