(* ===== verification/Scheduler.thy ===== *)
theory Scheduler
  imports Worker
begin

text \<open>
  \<open>src/agent/scheduler.rs\<close>, \<open>src/agent/self_repair.rs\<close> and the job commands of
  \<open>src/agent/commands.rs\<close>: jobs are handed to workers, at most a fixed number at a time; a cleanup
  task per job drops the entry of a finished worker; stuck jobs are repaired. The map of running jobs
  is behind one lock, and each critical section of the code is one function or one step. A task
  handle is whether the task has ended, together with the messages sent to it. The database is
  whether there is one, with the lists of what was saved; whether saving fails is an argument.
\<close>

section \<open>State\<close>

record scheduled_job =
  sj_finished :: bool
  sj_inbox :: "worker_message list"

text \<open>
  \<open>sc_watching\<close> are the cleanup tasks that will look at their job again, \<open>sc_removing\<close> those that
  have seen it finished and are about to take the lock. \<open>sc_alive\<close> is added: the workers that run.
\<close>

record scheduler =
  sc_max_parallel_jobs :: nat
  sc_mgr :: context_manager
  sc_jobs :: "(uuid, scheduled_job) hashmap"
  sc_subtasks :: "(uuid, bool) hashmap"
  sc_watching :: "uuid multiset"
  sc_removing :: "uuid multiset"
  sc_alive :: "uuid multiset"
  sc_store :: bool
  sc_saved :: "job_context list"
  sc_statuses :: "(uuid \<times> job_state \<times> string option) list"

definition scheduler_new :: "nat \<Rightarrow> bool \<Rightarrow> context_manager \<Rightarrow> scheduler" where
  "scheduler_new n store mgr =
     \<lparr>sc_max_parallel_jobs = n, sc_mgr = mgr, sc_jobs = [], sc_subtasks = [], sc_watching = {#}, sc_removing = {#},
      sc_alive = {#}, sc_store = store, sc_saved = [], sc_statuses = []\<rparr>"

section \<open>Scheduling\<close>

definition schedule_with_context :: "datetime \<Rightarrow> uuid \<Rightarrow> scheduler \<Rightarrow> (job_error + unit) \<times> scheduler" where
  "schedule_with_context now jid s =
     (if hm_get (sc_jobs s) jid \<noteq> None then (Inr (), s)
      else if length (sc_jobs s) \<ge> sc_max_parallel_jobs s then (Inl (MaxJobsExceeded (sc_max_parallel_jobs s)), s)
      else case update_context jid (transition_to Job_InProgress (Some ''Scheduled for execution'') now) (sc_mgr s) of
             (Inl e, m) \<Rightarrow> (Inl e, s\<lparr>sc_mgr := m\<rparr>)
           | (Inr (Inl reason), m) \<Rightarrow> (Inl (ContextError jid reason), s\<lparr>sc_mgr := m\<rparr>)
           | (Inr (Inr _), m) \<Rightarrow>
               (Inr (), s\<lparr>sc_mgr := m,
                          sc_jobs := hm_insert jid \<lparr>sj_finished = False, sj_inbox = [WM_Start]\<rparr> (sc_jobs s),
                          sc_alive := add_mset jid (sc_alive s),
                          sc_watching := add_mset jid (sc_watching s)\<rparr>))"

definition schedule :: "datetime \<Rightarrow> uuid \<Rightarrow> scheduler \<Rightarrow> (job_error + unit) \<times> scheduler" where
  "schedule now jid s = schedule_with_context now jid s"

text \<open>\<open>save\<close> is what saving the job gives, an error or nothing.\<close>

definition persist_job :: "(job_context \<Rightarrow> string option) \<Rightarrow> uuid \<Rightarrow> scheduler \<Rightarrow> (job_error + unit) \<times> scheduler" where
  "persist_job save jid s =
     (if \<not> sc_store s then (Inr (), s)
      else case get_context jid (sc_mgr s) of
             Inl e \<Rightarrow> (Inl e, s)
           | Inr c \<Rightarrow>
               (case save c of
                  Some e \<Rightarrow> (Inl (JobFailed jid (''failed to persist job: '' @ e)), s)
                | None \<Rightarrow> (Inr (), s\<lparr>sc_saved := sc_saved s @ [c]\<rparr>)))"

definition dispatch_job_inner ::
  "(job_context \<Rightarrow> string option) \<Rightarrow> uuid \<Rightarrow> datetime \<Rightarrow> string \<Rightarrow> string \<Rightarrow> string \<Rightarrow> json option \<Rightarrow> scheduler
   \<Rightarrow> (job_error + uuid) \<times> scheduler" where
  "dispatch_job_inner save fresh_id now uid title desc metadata s =
     (case create_job_for_user fresh_id uid title desc now (sc_mgr s) of
        (Inl e, m) \<Rightarrow> (Inl e, s\<lparr>sc_mgr := m\<rparr>)
      | (Inr jid, m) \<Rightarrow>
          (case (case metadata of
                   None \<Rightarrow> (Inr (), m)
                 | Some meta \<Rightarrow> update_context jid (\<lambda>c. ((), c\<lparr>job_metadata := meta\<rparr>)) m) of
             (Inl e, m) \<Rightarrow> (Inl e, s\<lparr>sc_mgr := m\<rparr>)
           | (Inr _, m) \<Rightarrow>
               (case persist_job save jid (s\<lparr>sc_mgr := m\<rparr>) of
                  (Inl e, s) \<Rightarrow> (Inl e, s)
                | (Inr _, s) \<Rightarrow>
                    (case schedule_with_context now jid s of
                       (Inl e, s) \<Rightarrow> (Inl e, s)
                     | (Inr _, s) \<Rightarrow> (Inr jid, s)))))"

section \<open>Stopping and messages\<close>

text \<open>
  \<open>stop\<close> holds the lock of the jobs throughout. \<open>meanwhile\<close> is what happens to the manager in the
  100 ms which the worker has to end after the stop message.
\<close>

definition stop_job :: "(context_manager \<Rightarrow> context_manager) \<Rightarrow> datetime \<Rightarrow> uuid \<Rightarrow> scheduler \<Rightarrow> (job_error + unit) \<times> scheduler" where
  "stop_job meanwhile now jid s =
     (case hm_get (sc_jobs s) jid of
        None \<Rightarrow> (Inr (), s)
      | Some _ \<Rightarrow>
          (let s = s\<lparr>sc_jobs := hm_remove jid (sc_jobs s), sc_mgr := meanwhile (sc_mgr s), sc_alive := sc_alive s - {#jid#}\<rparr>
           in case update_context jid (\<lambda>c. ((), snd (transition_to Job_Cancelled (Some ''Stopped by scheduler'') now c))) (sc_mgr s) of
                (Inl e, m) \<Rightarrow> (Inl e, s\<lparr>sc_mgr := m\<rparr>)
              | (Inr _, m) \<Rightarrow>
                  (Inr (), s\<lparr>sc_mgr := m,
                             sc_statuses := (if sc_store s then sc_statuses s @ [(jid, Job_Cancelled, Some ''Stopped by scheduler'')]
                                             else sc_statuses s)\<rparr>)))"

text \<open>\<open>hung_up\<close>: the worker has dropped its end of the channel.\<close>

definition send_message :: "bool \<Rightarrow> uuid \<Rightarrow> string \<Rightarrow> scheduler \<Rightarrow> (job_error + unit) \<times> scheduler" where
  "send_message hung_up jid content s =
     (case hm_get (sc_jobs s) jid of
        None \<Rightarrow> (Inl (NotFound jid), s)
      | Some _ \<Rightarrow>
          (if hung_up then (Inl (JobFailed jid ''Worker channel closed''), s)
           else (Inr (), s\<lparr>sc_jobs := hm_update jid (\<lambda>j. j\<lparr>sj_inbox := sj_inbox j @ [WM_UserMessage content]\<rparr>) (sc_jobs s)\<rparr>)))"

definition is_running :: "uuid \<Rightarrow> scheduler \<Rightarrow> bool" where
  "is_running jid s = (hm_get (sc_jobs s) jid \<noteq> None)"

definition running_count :: "scheduler \<Rightarrow> nat" where
  "running_count s = length (sc_jobs s)"

definition subtask_count :: "scheduler \<Rightarrow> nat" where
  "subtask_count s = length (sc_subtasks s)"

definition running_jobs :: "scheduler \<Rightarrow> uuid list" where
  "running_jobs s = hm_keys (sc_jobs s)"

definition cleanup_finished :: "scheduler \<Rightarrow> scheduler" where
  "cleanup_finished s =
     s\<lparr>sc_jobs := foldl (\<lambda>jobs jid. hm_remove jid jobs) (sc_jobs s) (map fst (filter (sj_finished \<circ> snd) (sc_jobs s))),
       sc_subtasks := foldl (\<lambda>ts t. hm_remove t ts) (sc_subtasks s) (map fst (filter snd (sc_subtasks s)))\<rparr>"

definition stop_all :: "(context_manager \<Rightarrow> context_manager) \<Rightarrow> datetime \<Rightarrow> scheduler \<Rightarrow> scheduler" where
  "stop_all meanwhile now s =
     (foldl (\<lambda>s jid. snd (stop_job meanwhile now jid s)) s (running_jobs s))\<lparr>sc_subtasks := []\<rparr>"

section \<open>The cleanup task of a job\<close>

definition cleaner_sees_finished :: "uuid \<Rightarrow> scheduler \<Rightarrow> bool" where
  "cleaner_sees_finished jid s = (case hm_get (sc_jobs s) jid of Some j \<Rightarrow> sj_finished j | None \<Rightarrow> True)"

definition cleaner_check :: "uuid \<Rightarrow> scheduler \<Rightarrow> scheduler" where
  "cleaner_check jid s =
     (if cleaner_sees_finished jid s
      then s\<lparr>sc_watching := sc_watching s - {#jid#}, sc_removing := add_mset jid (sc_removing s)\<rparr> else s)"

definition cleaner_remove :: "uuid \<Rightarrow> scheduler \<Rightarrow> scheduler" where
  "cleaner_remove jid s = s\<lparr>sc_jobs := hm_remove jid (sc_jobs s), sc_removing := sc_removing s - {#jid#}\<rparr>"

section \<open>Sub-tasks\<close>

record task_output =
  tko_result :: json
  tko_duration :: duration

record task_context =
  tcx_task_id :: uuid
  tcx_parent_id :: "uuid option"
  tcx_metadata :: json

definition task_context_new :: "uuid \<Rightarrow> task_context" where
  "task_context_new i = \<lparr>tcx_task_id = i, tcx_parent_id = None, tcx_metadata = JNull\<rparr>"

definition task_with_parent :: "uuid \<Rightarrow> task_context \<Rightarrow> task_context" where
  "task_with_parent p c = c\<lparr>tcx_parent_id := Some p\<rparr>"

datatype task =
    JobTask uuid string string
  | ToolExec uuid string json
  | Background uuid "task_context \<Rightarrow> worker_error + task_output"

fun task_id :: "task \<Rightarrow> uuid option" where
  "task_id (JobTask i t d) = Some i"
| "task_id (ToolExec p n ps) = None"
| "task_id (Background i h) = Some i"

text \<open>A tool as a sub-task; \<open>registry\<close> and the external state are those of the worker's tools.\<close>

definition execute_tool_task ::
  "(string \<Rightarrow> 's worker_tool option) \<Rightarrow> validator \<Rightarrow> (tool_error \<Rightarrow> string) \<Rightarrow> approval_context option \<Rightarrow> uuid \<Rightarrow> string \<Rightarrow> json
   \<Rightarrow> context_manager \<Rightarrow> duration \<Rightarrow> 's \<Rightarrow> (worker_error + task_output) \<times> 's" where
  "execute_tool_task registry v show_err approval jid name params mgr time s =
     (case registry name of
        None \<Rightarrow> (Inl (ToolErr (TE_NotFound name)), s)
      | Some tool \<Rightarrow>
          (case get_context jid mgr of
             Inl e \<Rightarrow> (Inl (JobErr e), s)
           | Inr ctx \<Rightarrow>
               (if job_state ctx = Job_Cancelled then (Inl (ToolErr (TE_ExecutionFailed name ''Job is cancelled'')), s)
                else if is_blocked_or_default approval name (tool_requires_approval tool params)
                then (Inl (ToolErr (TE_AuthRequired name)), s)
                else let validation = validate_tool_params v params
                in if \<not> vr_is_valid validation
                   then (Inl (ToolErr (TE_InvalidParameters name (invalid_details validation))), s)
                   else case wt_execute tool params ctx s of
                          (None, s) \<Rightarrow> (Inl (ToolErr (TE_Timeout name (wt_timeout tool))), s)
                        | (Some (Inl e), s) \<Rightarrow> (Inl (ToolErr (TE_ExecutionFailed name (show_err e))), s)
                        | (Some (Inr out), s) \<Rightarrow> (Inr \<lparr>tko_result = to_result out, tko_duration = time\<rparr>, s))))"

text \<open>
  Spawning gives a receiver, the identifier of the task, and tracks the task as not finished.
  \<open>deliver\<close> is what arrives there, \<open>None\<close> if the task ends without sending.
\<close>

definition spawn_subtask :: "uuid \<Rightarrow> uuid \<Rightarrow> task \<Rightarrow> scheduler \<Rightarrow> (job_error + uuid) \<times> scheduler" where
  "spawn_subtask fresh_id parent t s =
     (case t of
        JobTask _ _ _ \<Rightarrow> (Inl (ContextError parent ''Use schedule() for Job tasks, not spawn_subtask()''), s)
      | _ \<Rightarrow> (Inr fresh_id, s\<lparr>sc_subtasks := hm_insert fresh_id False (sc_subtasks s)\<rparr>))"

fun spawn_tasks :: "(nat \<Rightarrow> uuid) \<Rightarrow> nat \<Rightarrow> uuid \<Rightarrow> task list \<Rightarrow> scheduler \<Rightarrow> uuid option list \<times> scheduler" where
  "spawn_tasks fresh i parent [] s = ([], s)"
| "spawn_tasks fresh i parent (t # ts) s =
     (case spawn_subtask (fresh i) parent t s of
        (r, s) \<Rightarrow> (case spawn_tasks fresh (Suc i) parent ts s of (rs, s) \<Rightarrow> ((case r of Inr k \<Rightarrow> Some k | Inl _ \<Rightarrow> None) # rs, s)))"

definition batch_result :: "(uuid \<Rightarrow> (worker_error + task_output) option) \<Rightarrow> uuid \<Rightarrow> uuid option \<Rightarrow> worker_error + task_output" where
  "batch_result deliver parent r =
     (case r of
        Some k \<Rightarrow> (case deliver k of Some x \<Rightarrow> x | None \<Rightarrow> Inl (JobErr (ContextError parent ''Subtask channel closed unexpectedly'')))
      | None \<Rightarrow> Inl (JobErr (ContextError parent ''Subtask failed to spawn'')))"

definition spawn_batch ::
  "(nat \<Rightarrow> uuid) \<Rightarrow> (uuid \<Rightarrow> (worker_error + task_output) option) \<Rightarrow> uuid \<Rightarrow> task list \<Rightarrow> scheduler
   \<Rightarrow> (worker_error + task_output) list \<times> scheduler" where
  "spawn_batch fresh deliver parent ts s =
     (case spawn_tasks fresh 0 parent ts s of (rs, s) \<Rightarrow> (map (batch_result deliver parent) rs, s))"

section \<open>Self-repair\<close>

record stuck_job =
  sk_job_id :: uuid
  sk_last_activity :: datetime
  sk_stuck_duration :: duration
  sk_last_error :: "string option"
  sk_repair_attempts :: u32

record broken_tool =
  bk_name :: string
  bk_failure_count :: u32
  bk_last_error :: "string option"
  bk_first_failure :: datetime
  bk_last_failure :: datetime
  bk_last_build_result :: "json option"
  bk_repair_attempts :: u32

datatype repair_result = RepairSuccess string | RepairRetry string | RepairFailed string | ManualRequired string

datatype repair_error = RepairErrorFailed string uuid string

definition stuck_job_of :: "datetime \<Rightarrow> uuid \<Rightarrow> job_context \<Rightarrow> stuck_job" where
  "stuck_job_of now jid c =
     \<lparr>sk_job_id = jid,
      sk_last_activity = (case job_started_at c of Some t \<Rightarrow> t | None \<Rightarrow> job_created_at c),
      sk_stuck_duration = (case job_started_at c of Some t \<Rightarrow> secs (nat (max 0 ((now - t) div 1000))) | None \<Rightarrow> 0),
      sk_last_error = None, sk_repair_attempts = repair_attempts c\<rparr>"

definition detect_stuck_jobs :: "datetime \<Rightarrow> context_manager \<Rightarrow> stuck_job list" where
  "detect_stuck_jobs now m =
     List.map_filter
       (\<lambda>jid. case get_context jid m of
                Inr c \<Rightarrow> (if job_state c = Job_Stuck then Some (stuck_job_of now jid c) else None)
              | Inl _ \<Rightarrow> None) (find_stuck_jobs m)"

definition repair_stuck_job ::
  "u32 \<Rightarrow> (uuid \<Rightarrow> string) \<Rightarrow> (job_error \<Rightarrow> string) \<Rightarrow> datetime \<Rightarrow> stuck_job \<Rightarrow> context_manager
   \<Rightarrow> (repair_error + repair_result) \<times> context_manager" where
  "repair_stuck_job max_repair_attempts show_uuid show_err now job m =
     (if sk_repair_attempts job \<ge> max_repair_attempts
      then (Inr (ManualRequired (''Job '' @ show_uuid (sk_job_id job) @ '' has exceeded maximum repair attempts (''
              @ show_nat (unat max_repair_attempts) @ '')'')), m)
      else case update_context (sk_job_id job) (attempt_recovery now) m of
             (Inr (Inr _), m) \<Rightarrow> (Inr (RepairSuccess (''Job '' @ show_uuid (sk_job_id job) @ '' recovered and will be retried'')), m)
           | (Inr (Inl e), m) \<Rightarrow> (Inr (RepairRetry (''Recovery attempt failed: '' @ e)), m)
           | (Inl e, m) \<Rightarrow> (Inl (RepairErrorFailed ''job'' (sk_job_id job) (show_err e)), m))"

definition repair_pass ::
  "u32 \<Rightarrow> (uuid \<Rightarrow> string) \<Rightarrow> (job_error \<Rightarrow> string) \<Rightarrow> datetime \<Rightarrow> context_manager \<Rightarrow> context_manager" where
  "repair_pass maxa show_uuid show_err now m =
     foldl (\<lambda>m job. snd (repair_stuck_job maxa show_uuid show_err now job m)) m (detect_stuck_jobs now m)"

text \<open>Repair of tools: the builder and the store are there or not.\<close>

record build_requirement =
  bq_name :: string
  bq_description :: string
  bq_capabilities :: "string list"

record build_result =
  br_success :: bool
  br_iterations :: nat
  br_error :: "string option"
  br_registered :: bool

record tool_store =
  tst_attempts :: "string list"
  tst_repaired :: "string list"

definition requirement_for :: "broken_tool \<Rightarrow> build_requirement" where
  "requirement_for tool =
     (let nl = [CHR 0x0A]
      in \<lparr>bq_name = bk_name tool,
          bq_description = ''Repair broken WASM tool.'' @ nl @ nl @ ''Tool name: '' @ bk_name tool @ nl @ ''Previous error: ''
            @ (case bk_last_error tool of Some e \<Rightarrow> e | None \<Rightarrow> ''Unknown error'') @ nl
            @ ''Failure count: '' @ show_nat (unat (bk_failure_count tool)) @ nl @ nl
            @ ''Analyze the error, fix the implementation, and rebuild.'',
          bq_capabilities = [''http'', ''workspace'']\<rparr>)"

definition repair_broken_tool ::
  "u32 \<Rightarrow> (build_requirement \<Rightarrow> string + build_result) option \<Rightarrow> broken_tool \<Rightarrow> tool_store option
   \<Rightarrow> repair_result \<times> tool_store option" where
  "repair_broken_tool max_repair_attempts builder tool store =
     (let q = [CHR 0x27]
      in case builder of
           None \<Rightarrow> (ManualRequired (''Builder not available for repairing tool '' @ q @ bk_name tool @ q), store)
         | Some build \<Rightarrow>
             (case store of
                None \<Rightarrow> (ManualRequired ''Store not available for tracking repair'', store)
              | Some st \<Rightarrow>
                  (if bk_repair_attempts tool \<ge> max_repair_attempts
                   then (ManualRequired (''Tool '' @ q @ bk_name tool @ q @ '' exceeded max repair attempts (''
                           @ show_nat (unat max_repair_attempts) @ '')''), store)
                   else let st = st\<lparr>tst_attempts := tst_attempts st @ [bk_name tool]\<rparr>
                        in case build (requirement_for tool) of
                             Inr res \<Rightarrow>
                               (if br_success res
                                then (RepairSuccess (''Tool '' @ q @ bk_name tool @ q @ '' repaired successfully after ''
                                        @ show_nat (br_iterations res) @ '' iterations''),
                                      Some (st\<lparr>tst_repaired := tst_repaired st @ [bk_name tool]\<rparr>))
                                else (RepairRetry (''Repair attempt '' @ show_nat (unat (bk_repair_attempts tool + 1)) @ '' for '' @ q
                                        @ bk_name tool @ q @ '' failed: ''
                                        @ (case br_error res of Some e \<Rightarrow> e | None \<Rightarrow> ''Unknown error'')), Some st))
                           | Inl e \<Rightarrow> (RepairRetry (''Repair build error: '' @ e), Some st))))"

section \<open>Job commands\<close>

text \<open>\<open>job_ref\<close> is the parsed identifier, \<open>None\<close> if the text is not one.\<close>

definition handle_cancel_job ::
  "(context_manager \<Rightarrow> context_manager) \<Rightarrow> datetime \<Rightarrow> string \<Rightarrow> uuid option \<Rightarrow> string \<Rightarrow> scheduler \<Rightarrow> (job_error + string) \<times> scheduler" where
  "handle_cancel_job meanwhile now uid job_ref job_text s =
     (case job_ref of
        None \<Rightarrow> (Inl (NotFound 0), s)
      | Some jid \<Rightarrow>
          (case get_context jid (sc_mgr s) of
             Inl e \<Rightarrow> (Inl e, s)
           | Inr c \<Rightarrow>
               (if job_user_id c \<noteq> uid then (Inl (NotFound jid), s)
                else case stop_job meanwhile now jid s of
                       (Inl e, s) \<Rightarrow> (Inl e, s)
                     | (Inr _, s) \<Rightarrow>
                         (Inr (''Job '' @ job_text @ '' has been cancelled.''),
                          if sc_store s then s\<lparr>sc_statuses := sc_statuses s @ [(jid, Job_Cancelled, Some ''Cancelled by user'')]\<rparr> else s))))"

definition handle_help_job ::
  "datetime \<Rightarrow> (job_state \<Rightarrow> string) \<Rightarrow> string \<Rightarrow> uuid option \<Rightarrow> string \<Rightarrow> scheduler \<Rightarrow> (job_error + string) \<times> scheduler" where
  "handle_help_job now debug_state uid job_ref job_text s =
     (case job_ref of
        None \<Rightarrow> (Inl (NotFound 0), s)
      | Some jid \<Rightarrow>
          (case get_context jid (sc_mgr s) of
             Inl e \<Rightarrow> (Inl e, s)
           | Inr c \<Rightarrow>
               (if job_user_id c \<noteq> uid then (Inl (NotFound jid), s)
                else if job_state c = Job_Stuck
                then (case update_context jid (attempt_recovery now) (sc_mgr s) of
                        (Inl e, m) \<Rightarrow> (Inl e, s\<lparr>sc_mgr := m\<rparr>)
                      | (Inr (Inl reason), m) \<Rightarrow> (Inl (ContextError jid reason), s\<lparr>sc_mgr := m\<rparr>)
                      | (Inr (Inr _), m) \<Rightarrow>
                          (case schedule now jid (s\<lparr>sc_mgr := m\<rparr>) of
                             (Inl e, s) \<Rightarrow> (Inl e, s)
                           | (Inr _, s) \<Rightarrow>
                               (Inr (''Job '' @ job_text @ '' was stuck. Attempting recovery (attempt #''
                                  @ show_nat (unat (repair_attempts c + 1)) @ '').''), s)))
                else (Inr (''Job '' @ job_text @ '' is not stuck (current state: '' @ debug_state (job_state c) @ ''). No help needed.''), s))))"

section \<open>Interleavings\<close>

text \<open>
  One step is one critical section of some task, or a worker that ends. The manager changes at any
  time, by workers and by other callers.
\<close>

inductive sched_step :: "scheduler \<Rightarrow> scheduler \<Rightarrow> bool" where
  step_schedule: "sched_step s (snd (schedule_with_context now jid s))"
| step_stop: "sched_step s (snd (stop_job meanwhile now jid s))"
| step_message: "sched_step s (snd (send_message hung_up jid content s))"
| step_cleanup: "sched_step s (cleanup_finished s)"
| step_worker_ends: "jid \<in># sc_alive s \<Longrightarrow>
    sched_step s (s\<lparr>sc_jobs := hm_update jid (\<lambda>j. j\<lparr>sj_finished := True\<rparr>) (sc_jobs s), sc_alive := sc_alive s - {#jid#}\<rparr>)"
| step_check: "jid \<in># sc_watching s \<Longrightarrow> sched_step s (cleaner_check jid s)"
| step_remove: "jid \<in># sc_removing s \<Longrightarrow> sched_step s (cleaner_remove jid s)"
| step_manager: "sched_step s (s\<lparr>sc_mgr := m\<rparr>)"

definition sched_reachable :: "nat \<Rightarrow> bool \<Rightarrow> context_manager \<Rightarrow> scheduler \<Rightarrow> bool" where
  "sched_reachable n store m s = sched_step\<^sup>*\<^sup>* (scheduler_new n store m) s"

text \<open>Every tracked job has a cleanup task, and there is room for all tracked jobs.\<close>

definition sched_inv :: "nat \<Rightarrow> scheduler \<Rightarrow> bool" where
  "sched_inv n s \<longleftrightarrow> hm_wf (sc_jobs s) \<and> sc_max_parallel_jobs s = n \<and> length (sc_jobs s) \<le> n
     \<and> fst ` set (sc_jobs s) \<subseteq> set_mset (sc_watching s) \<union> set_mset (sc_removing s)"

lemma length_remove_le: "length (hm_remove k m) \<le> length m"
  by (simp add: hm_remove_def)

lemma remove_all:
  "hm_wf m \<Longrightarrow> hm_wf (foldl (\<lambda>m k. hm_remove k m) m ks) \<and> length (foldl (\<lambda>m k. hm_remove k m) m ks) \<le> length m
   \<and> set (foldl (\<lambda>m k. hm_remove k m) m ks) \<subseteq> set m"
proof (induction ks arbitrary: m)
  case (Cons k ks)
  have "set (hm_remove k m) \<subseteq> set m" by (auto simp: set_hm_remove)
  moreover note Cons.IH [of "hm_remove k m"] length_remove_le [of k m]
  ultimately show ?case using Cons.prems by auto
qed simp

lemma schedule_effect:
  assumes "schedule_with_context now jid s = (r, s')"
  shows "sc_jobs s' = sc_jobs s \<and> sc_watching s' = sc_watching s \<and> sc_removing s' = sc_removing s \<and> sc_alive s' = sc_alive s
      \<and> sc_max_parallel_jobs s' = sc_max_parallel_jobs s
    \<or> r = Inr () \<and> hm_get (sc_jobs s) jid = None \<and> length (sc_jobs s) < sc_max_parallel_jobs s
      \<and> (\<exists>c. hm_get (contexts (sc_mgr s)) jid = Some c \<and> job_state c \<in> {Job_Pending, Job_Stuck})
      \<and> state_in jid {Job_InProgress} (sc_mgr s')
      \<and> sc_jobs s' = hm_insert jid \<lparr>sj_finished = False, sj_inbox = [WM_Start]\<rparr> (sc_jobs s)
      \<and> sc_watching s' = add_mset jid (sc_watching s) \<and> sc_removing s' = sc_removing s \<and> sc_alive s' = add_mset jid (sc_alive s)
      \<and> sc_max_parallel_jobs s' = sc_max_parallel_jobs s"
proof (cases "hm_get (sc_jobs s) jid \<noteq> None \<or> length (sc_jobs s) \<ge> sc_max_parallel_jobs s")
  case True
  then show ?thesis using assms by (auto simp: schedule_with_context_def split: if_splits)
next
  case False
  let ?f = "transition_to Job_InProgress (Some ''Scheduled for execution'') now"
  show ?thesis
  proof (cases "hm_get (contexts (sc_mgr s)) jid")
    case None
    then show ?thesis using assms False by (auto simp: schedule_with_context_def update_context_def)
  next
    case (Some c)
    show ?thesis
    proof (cases "can_transition_to (job_state c) Job_InProgress")
      case True
      then have start: "job_state c \<in> {Job_Pending, Job_Stuck}" by (cases "job_state c") simp_all
      have "fst (?f c) = Inr ()" using True by (simp add: transition_to_ok)
      moreover have "state_in jid {Job_InProgress} (snd (update_context jid ?f (sc_mgr s)))"
        using Some True by (simp add: state_in_def update_context_get transition_to_state)
      ultimately show ?thesis
        using assms False Some start by (auto simp: schedule_with_context_def update_context_def not_le)
    next
      case refused: False
      then have "\<exists>e. fst (?f c) = Inl e" by (simp add: transition_to_def)
      then show ?thesis using assms False Some by (auto simp: schedule_with_context_def update_context_def)
    qed
  qed
qed

lemma stop_effect:
  "sc_max_parallel_jobs (snd (stop_job f now jid s)) = sc_max_parallel_jobs s
   \<and> sc_watching (snd (stop_job f now jid s)) = sc_watching s \<and> sc_removing (snd (stop_job f now jid s)) = sc_removing s
   \<and> sc_jobs (snd (stop_job f now jid s)) = hm_remove jid (sc_jobs s)"
proof (cases "hm_get (sc_jobs s) jid")
  case None
  then have "hm_remove jid (sc_jobs s) = sc_jobs s"
    by (force simp: hm_get_None hm_remove_def intro: filter_True)
  with None show ?thesis by (simp add: stop_job_def)
qed (simp add: stop_job_def Let_def split: prod.split sum.split)

lemma sched_step_inv: "sched_step s s' \<Longrightarrow> sched_inv n s \<Longrightarrow> sched_inv n s'"
proof (induction rule: sched_step.induct)
  case (step_schedule s now jid)
  obtain r s' where run: "schedule_with_context now jid s = (r, s')" by fastforce
  have new: "fst ` set (hm_insert jid j (sc_jobs s)) \<subseteq> set_mset (add_mset jid (sc_watching s)) \<union> set_mset (sc_removing s)" for j
    unfolding hm_insert_keys using step_schedule by (auto simp: sched_inv_def)
  from schedule_effect [OF run] show ?case
    by (elim disjE conjE exE) (use step_schedule new in \<open>simp_all add: run sched_inv_def length_hm_insert hm_get_None\<close>)
next
  case (step_stop s f now jid)
  then show ?case
    using stop_effect [of f now jid s] length_remove_le [of jid "sc_jobs s"] by (auto simp: sched_inv_def set_hm_remove)
next
  case (step_message s hung_up jid content)
  then show ?case
    by (auto simp: sched_inv_def send_message_def hm_update_keys split: option.split) (simp add: hm_update_def)
next
  case (step_cleanup s)
  then show ?case
    using remove_all [of "sc_jobs s" "map fst (filter (sj_finished \<circ> snd) (sc_jobs s))"]
    unfolding sched_inv_def cleanup_finished_def by auto
next
  case (step_worker_ends jid s)
  then show ?case by (auto simp: sched_inv_def hm_update_keys) (simp add: hm_update_def)
next
  case (step_check jid s)
  have "set_mset (sc_watching s) \<subseteq> insert jid (set_mset (sc_watching s - {#jid#}))"
    by (auto simp: in_diff_count split: if_splits)
  with step_check show ?case by (auto simp: sched_inv_def cleaner_check_def)
next
  case (step_remove jid s)
  have "set_mset (sc_removing s) - {jid} \<subseteq> set_mset (sc_removing s - {#jid#})"
    by (auto simp: in_diff_count split: if_splits)
  with step_remove show ?case
    using length_remove_le [of jid "sc_jobs s"]
    by (auto simp: sched_inv_def cleaner_remove_def set_hm_remove)
qed (simp add: sched_inv_def)

lemma sched_reachable_inv: "sched_reachable n store m s \<Longrightarrow> sched_inv n s"
  unfolding sched_reachable_def
proof (induction rule: rtranclp_induct)
  case base
  then show ?case by (simp add: sched_inv_def scheduler_new_def)
qed (rule sched_step_inv)

section \<open>What scheduling guarantees\<close>

text \<open>
  C26. However the tasks interleave, no more jobs are tracked as running than the configuration allows,
  and no job is tracked twice.
\<close>

theorem parallel_jobs_bounded:
  assumes "sched_reachable n store m s"
  shows "running_count s \<le> n \<and> distinct (running_jobs s)"
  using sched_reachable_inv [OF assms] by (simp add: sched_inv_def running_count_def running_jobs_def hm_keys_def hm_wf_def)

text \<open>
  C10. A worker is only started for a job that is pending or stuck and not tracked yet, while there is
  room; the job is then in progress and the start message is sent. In every other case, also when an
  error is returned, no worker starts.
\<close>

theorem worker_start_guarded:
  assumes "schedule_with_context now jid s = (r, s')"
  shows "sc_alive s' = sc_alive s \<and> sc_jobs s' = sc_jobs s
    \<or> r = Inr () \<and> sc_alive s' = add_mset jid (sc_alive s) \<and> \<not> is_running jid s
      \<and> running_count s < sc_max_parallel_jobs s
      \<and> state_in jid {Job_Pending, Job_Stuck} (sc_mgr s) \<and> state_in jid {Job_InProgress} (sc_mgr s')
      \<and> map_option sj_inbox (hm_get (sc_jobs s') jid) = Some [WM_Start]"
  using schedule_effect [OF assms] by (auto simp: is_running_def running_count_def state_in_def hm_get_insert)

text \<open>The steps of the cleanup tasks that change something.\<close>

inductive cleaner_step :: "scheduler \<Rightarrow> scheduler \<Rightarrow> bool" where
  clean_check: "jid \<in># sc_watching s \<Longrightarrow> cleaner_sees_finished jid s \<Longrightarrow> cleaner_step s (cleaner_check jid s)"
| clean_remove: "jid \<in># sc_removing s \<Longrightarrow> cleaner_step s (cleaner_remove jid s)"

lemma cleaner_step_sched: "cleaner_step s s' \<Longrightarrow> sched_step s s'"
  by (induction rule: cleaner_step.induct) (auto intro: sched_step.intros)

lemma cleaner_step_measure:
  "cleaner_step s s' \<Longrightarrow> 2 * size (sc_watching s') + size (sc_removing s') < 2 * size (sc_watching s) + size (sc_removing s)"
proof (induction rule: cleaner_step.induct)
  case (clean_check jid s)
  then have "size (sc_watching s) = Suc (size (sc_watching s - {#jid#}))" by (metis insert_DiffM size_add_mset)
  with clean_check show ?case by (simp add: cleaner_check_def)
next
  case (clean_remove jid s)
  then have "size (sc_removing s) = Suc (size (sc_removing s - {#jid#}))" by (metis insert_DiffM size_add_mset)
  then show ?case by (simp add: cleaner_remove_def)
qed

lemma cleaner_steps_end: "wfP cleaner_step\<inverse>\<inverse>"
proof -
  have "wfP (\<lambda>s' s. (2 * size (sc_watching s') + size (sc_removing s') :: nat) < 2 * size (sc_watching s) + size (sc_removing s))"
    by (rule wfp_if_convertible_to_nat)
  then show ?thesis by (rule wfp_subset) (auto intro: cleaner_step_measure)
qed

lemma no_cleaner_step:
  assumes "sched_inv n s" and "\<not> (\<exists>s'. cleaner_step s s')" and "(jid, j) \<in> set (sc_jobs s)"
  shows "\<not> sj_finished j"
proof
  assume fin: "sj_finished j"
  have get: "hm_get (sc_jobs s) jid = Some j" using assms(1,3) by (simp add: sched_inv_def hm_get_in_set)
  have "jid \<in> fst ` set (sc_jobs s)" using assms(3) by force
  then have "jid \<in># sc_watching s \<or> jid \<in># sc_removing s" using assms(1) by (auto simp: sched_inv_def)
  moreover have "cleaner_sees_finished jid s" using fin get by (simp add: cleaner_sees_finished_def)
  ultimately show False using assms(2) clean_check clean_remove by blast
qed

text \<open>
  C9. Capacity comes back: in every reachable state the cleanup tasks can only make finitely many
  steps, and when they have made them, however they interleave, no finished job is tracked any more.
\<close>

theorem finished_jobs_released:
  assumes "sched_reachable n store m s"
  shows "wfP cleaner_step\<inverse>\<inverse>
    \<and> (\<exists>s'. cleaner_step\<^sup>*\<^sup>* s s' \<and> \<not> (\<exists>s''. cleaner_step s' s''))
    \<and> (\<forall>s'. cleaner_step\<^sup>*\<^sup>* s s' \<longrightarrow> \<not> (\<exists>s''. cleaner_step s' s'') \<longrightarrow> list_all (\<lambda>(_, j). \<not> sj_finished j) (sc_jobs s'))"
proof (intro conjI)
  show "\<exists>s'. cleaner_step\<^sup>*\<^sup>* s s' \<and> \<not> (\<exists>s''. cleaner_step s' s'')"
  proof (induction s rule: wfp_induct_rule [OF cleaner_steps_end])
    case (1 s)
    then show ?case by (metis conversepI converse_rtranclp_into_rtranclp rtranclp.rtrancl_refl)
  qed
  show "\<forall>s'. cleaner_step\<^sup>*\<^sup>* s s' \<longrightarrow> \<not> (\<exists>s''. cleaner_step s' s'') \<longrightarrow> list_all (\<lambda>(_, j). \<not> sj_finished j) (sc_jobs s')"
  proof (intro allI impI)
    fix s' assume run: "cleaner_step\<^sup>*\<^sup>* s s'" and stuck: "\<not> (\<exists>s''. cleaner_step s' s'')"
    have "sched_step\<^sup>*\<^sup>* s s'" using run by (induction rule: rtranclp_induct) (auto intro: cleaner_step_sched rtranclp.rtrancl_into_rtrancl)
    then have "sched_reachable n store m s'" using assms by (simp add: sched_reachable_def)
    then have "sched_inv n s'" by (rule sched_reachable_inv)
    then show "list_all (\<lambda>(_, j). \<not> sj_finished j) (sc_jobs s')"
      using stuck no_cleaner_step by (auto simp: list_all_iff)
  qed
qed (rule cleaner_steps_end)

section \<open>Batches, dispatch and repair\<close>

lemma spawn_tasks_length: "length (fst (spawn_tasks fresh i parent ts s)) = length ts"
proof (induction ts arbitrary: i s)
  case (Cons t ts)
  then show ?case by (auto split: prod.split) (metis fst_conv)
qed simp

text \<open>The results of a batch stand in the order of its tasks; a job among them gives an error.\<close>

lemma spawn_tasks_nth:
  "k < length ts \<Longrightarrow> fst (spawn_tasks fresh i parent ts s) ! k = (case ts ! k of JobTask _ _ _ \<Rightarrow> None | _ \<Rightarrow> Some (fresh (i + k)))"
proof (induction ts arbitrary: i s k)
  case (Cons t ts)
  obtain r s1 where r: "spawn_subtask (fresh i) parent t s = (r, s1)" by fastforce
  obtain rs s2 where rs: "spawn_tasks fresh (Suc i) parent ts s1 = (rs, s2)" by fastforce
  have "r = (case t of JobTask _ _ _ \<Rightarrow> r | _ \<Rightarrow> Inr (fresh i))" "(case t of JobTask _ _ _ \<Rightarrow> \<exists>e. r = Inl e | _ \<Rightarrow> True)"
    using r by (auto simp: spawn_subtask_def split: task.splits)
  then show ?case using Cons.IH [of "k - 1" "Suc i" s1] Cons.prems r rs by (cases k) (auto split: task.splits)
qed simp

lemma spawn_batch_nth:
  "k < length ts \<Longrightarrow> fst (spawn_batch fresh deliver parent ts s) ! k =
     batch_result deliver parent (case ts ! k of JobTask _ _ _ \<Rightarrow> None | _ \<Rightarrow> Some (fresh k))"
  using spawn_tasks_length [of fresh 0 parent ts s] spawn_tasks_nth [of k ts fresh 0 parent s]
  by (cases "spawn_tasks fresh 0 parent ts s"; cases "ts ! k") (simp_all add: spawn_batch_def)

text \<open>
  Automatic repair stops: a repair changes nothing but the job it is for, and that only while its
  number of attempts is below the limit; the attempt is counted.
\<close>

lemma repair_attempt_counted:
  assumes "repair_stuck_job maxa show_uuid show_err now job m = (r, m')" and "hm_get (contexts m) (sk_job_id job) = Some c"
    and "sk_repair_attempts job = repair_attempts c"
  shows "(\<forall>j. hm_get (contexts m') j = hm_get (contexts m) j)
    \<or> repair_attempts c < maxa \<and> job_state c = Job_Stuck
      \<and> (\<exists>c'. hm_get (contexts m') (sk_job_id job) = Some c' \<and> repair_attempts c' = repair_attempts c + 1 \<and> job_state c' = Job_InProgress)"
proof (cases "repair_attempts c \<ge> maxa")
  case True
  then show ?thesis using assms by (simp add: repair_stuck_job_def)
next
  case False
  have m': "m' = snd (update_context (sk_job_id job) (attempt_recovery now) m)"
    using assms False by (auto simp: repair_stuck_job_def split: prod.splits sum.splits)
  have get: "hm_get (contexts m') (sk_job_id job) = Some (snd (attempt_recovery now c))"
    using assms(2) m' by (simp add: update_context_get)
  show ?thesis
  proof (cases "job_state c = Job_Stuck")
    case True
    have "repair_attempts (snd (attempt_recovery now c)) = repair_attempts c + 1" "job_state (snd (attempt_recovery now c)) = Job_InProgress"
      using True by (simp_all add: attempt_recovery_def transition_to_def Let_def)
    with get True False show ?thesis by auto
  next
    case not_stuck: False
    then have "snd (attempt_recovery now c) = c" by (simp add: attempt_recovery_def)
    then show ?thesis using assms(2) m' by (auto simp: update_context_def hm_get_update)
  qed
qed

section \<open>Departures\<close>

lemma schedule_in_progress:
  assumes "hm_get (contexts (sc_mgr s)) jid = Some c" and "job_state c = Job_InProgress"
    and "hm_get (sc_jobs s) jid = None" and "length (sc_jobs s) < sc_max_parallel_jobs s"
  shows "\<exists>e m'. schedule now jid s = (Inl (ContextError jid e), s\<lparr>sc_mgr := m'\<rparr>) \<and> state_in jid {Job_InProgress} m'"
proof -
  let ?f = "transition_to Job_InProgress (Some ''Scheduled for execution'') now"
  obtain e where e: "?f c = (Inl e, c)" using assms(2) by (simp add: transition_to_def)
  then have "update_context jid ?f (sc_mgr s) = (Inr (Inl e), snd (update_context jid ?f (sc_mgr s)))"
    using assms(1) by (simp add: update_context_def)
  moreover have "state_in jid {Job_InProgress} (snd (update_context jid ?f (sc_mgr s)))"
    using assms(1,2) e by (simp add: state_in_def update_context_get)
  ultimately show ?thesis
    using assms(3,4) by (auto simp: schedule_def schedule_with_context_def split: prod.split sum.split)
qed

text \<open>
  Help for a stuck job: recovery already puts the job in progress, so scheduling it is refused; the
  command fails and the job stays in progress without a worker.
\<close>

lemma help_leaves_job_without_worker:
  assumes "hm_get (contexts (sc_mgr s)) jid = Some c" and "job_state c = Job_Stuck" and "job_user_id c = uid"
    and "hm_get (sc_jobs s) jid = None" and "length (sc_jobs s) < sc_max_parallel_jobs s"
  shows "\<exists>e s'. handle_help_job now debug_state uid (Some jid) txt s = (Inl (ContextError jid e), s')
    \<and> state_in jid {Job_InProgress} (sc_mgr s') \<and> sc_jobs s' = sc_jobs s \<and> sc_alive s' = sc_alive s"
proof -
  have ok: "fst (attempt_recovery now c) = Inr ()" "job_state (snd (attempt_recovery now c)) = Job_InProgress"
    using assms(2) by (simp_all add: attempt_recovery_def transition_to_def Let_def)
  obtain m where run: "update_context jid (attempt_recovery now) (sc_mgr s) = (Inr (Inr ()), m)"
    using assms(1) ok by (simp add: update_context_def)
  then have get: "hm_get (contexts m) jid = Some (snd (attempt_recovery now c))"
    using assms(1) update_context_get [of jid "attempt_recovery now" "sc_mgr s"] by simp
  obtain e m' where "schedule now jid (s\<lparr>sc_mgr := m\<rparr>) = (Inl (ContextError jid e), s\<lparr>sc_mgr := m'\<rparr>)"
    "state_in jid {Job_InProgress} m'"
    using schedule_in_progress [of "s\<lparr>sc_mgr := m\<rparr>" jid _ now] get ok(2) assms(4,5) by auto
  then show ?thesis using assms(1-3) run by (simp add: handle_help_job_def get_context_def)
qed

text \<open>
  Stopping a job whose worker reads the stop message in time: the worker marks the job completed, the
  transition to cancelled is then refused and ignored, and the stop is reported as done.
\<close>

lemma stopped_job_ends_completed:
  assumes "hm_get (sc_jobs s) jid = Some j" and "hm_get (contexts (sc_mgr s)) jid = Some c" and "job_state c = Job_InProgress"
    and "meanwhile = (\<lambda>m. w_mgr (snd (finish_run deps jid (Some (Inr ())) (w\<lparr>w_mgr := m\<rparr>))))"
  shows "fst (stop_job meanwhile now jid s) = Inr () \<and> state_in jid {Job_Completed} (sc_mgr (snd (stop_job meanwhile now jid s)))"
proof -
  let ?w = "w\<lparr>w_mgr := sc_mgr s\<rparr>"
  have "meanwhile (sc_mgr s) = snd (update_context jid (transition_to Job_Completed (Some ''Job completed successfully'')
      (wd_now deps (w_ext w))) (sc_mgr s))"
    using assms(2,3) by (simp add: assms(4) finish_run_def get_context_def is_terminal_def mark_completed_def mark_with_mgr)
  then obtain c' where c': "hm_get (contexts (meanwhile (sc_mgr s))) jid = Some c'" "job_state c' = Job_Completed"
    using assms(2,3) by (simp add: update_context_get transition_to_state)
  let ?f = "\<lambda>c. ((), snd (transition_to Job_Cancelled (Some ''Stopped by scheduler'') now c))"
  have "snd (?f c') = c'" using c'(2) by (simp add: transition_to_error)
  then have "state_in jid {Job_Completed} (snd (update_context jid ?f (meanwhile (sc_mgr s))))"
    using c' by (simp add: state_in_def update_context_get)
  moreover have "fst (update_context jid ?f (meanwhile (sc_mgr s))) = Inr ()" using c' by (simp add: update_context_def)
  ultimately show ?thesis
    using assms(1) by (cases "update_context jid ?f (meanwhile (sc_mgr s))") (simp add: stop_job_def Let_def)
qed

text \<open>A dispatch that finds no free worker fails, but the job it created stays among the active jobs.\<close>

lemma refused_dispatch_keeps_job:
  assumes "active_count (sc_mgr s) < max_jobs (sc_mgr s)" and "length (sc_jobs s) \<ge> sc_max_parallel_jobs s"
    and "hm_get (sc_jobs s) fresh_id = None" and "\<not> sc_store s"
  shows "\<exists>s'. dispatch_job_inner save fresh_id now uid title desc None s = (Inl (MaxJobsExceeded (sc_max_parallel_jobs s)), s')
    \<and> state_in fresh_id {Job_Pending} (sc_mgr s')"
  using assms
  by (simp add: dispatch_job_inner_def create_job_for_user_def insert_context_def job_with_user_def insert_memory_def persist_job_def
      schedule_with_context_def state_in_def hm_get_insert Let_def)

text \<open>
  A cleanup task drops the entry of its job after it gave up the lock under which it saw the worker
  finished; if the job was scheduled again in between, it drops the entry of the new worker. Then
  more workers run than the configuration allows.
\<close>

definition race_manager :: "job_state \<Rightarrow> context_manager" where
  "race_manager st = \<lparr>contexts = [(7, (job_with_user 7 ''u'' ''t'' ''d'' 0)\<lparr>job_state := st\<rparr>), (8, job_with_user 8 ''u'' ''t'' ''d'' 0)],
     memories = [], max_jobs = 5\<rparr>"

lemma stale_cleanup_exceeds_limit:
  "\<exists>s. sched_reachable 1 False (race_manager Job_Pending) s \<and> size (sc_alive s) = 2"
proof -
  define s0 where "s0 = scheduler_new 1 False (race_manager Job_Pending)"
  define s1 where "s1 = snd (schedule_with_context 0 7 s0)"
  define s2 where "s2 = s1\<lparr>sc_jobs := hm_update 7 (\<lambda>j. j\<lparr>sj_finished := True\<rparr>) (sc_jobs s1), sc_alive := sc_alive s1 - {#7#}\<rparr>"
  define s3 where "s3 = s2\<lparr>sc_mgr := race_manager Job_Stuck\<rparr>"
  define s4 where "s4 = cleaner_check 7 s3"
  define s5 where "s5 = cleanup_finished s4"
  define s6 where "s6 = snd (schedule_with_context 0 7 s5)"
  define s7 where "s7 = cleaner_remove 7 s6"
  define s8 where "s8 = snd (schedule_with_context 0 8 s7)"
  note defs = scheduler_new_def race_manager_def schedule_with_context_def update_context_def hm_get_def hm_insert_def hm_update_def
    job_with_user_def transition_to_def push_transition_def Let_def
  have 1: "sc_alive s1 = {#7#}" "sc_watching s1 = {#7#}" "sc_removing s1 = {#}" "sc_max_parallel_jobs s1 = 1"
    "sc_jobs s1 = [(7, \<lparr>sj_finished = False, sj_inbox = [WM_Start]\<rparr>)]"
    by (simp_all add: s1_def s0_def defs MAX_TRANSITIONS_def)
  have 3: "sc_alive s3 = {#}" "sc_watching s3 = {#7#}" "sc_removing s3 = {#}" "sc_max_parallel_jobs s3 = 1"
    "sc_jobs s3 = [(7, \<lparr>sj_finished = True, sj_inbox = [WM_Start]\<rparr>)]" "sc_mgr s3 = race_manager Job_Stuck"
    by (simp_all add: s3_def s2_def 1 hm_update_def)
  have 5: "sc_alive s5 = {#}" "sc_watching s5 = {#}" "sc_removing s5 = {#7#}" "sc_max_parallel_jobs s5 = 1" "sc_jobs s5 = []"
    "sc_mgr s5 = race_manager Job_Stuck" "7 \<in># sc_watching s3"
    by (simp_all add: s5_def s4_def cleanup_finished_def cleaner_check_def cleaner_sees_finished_def 3 hm_get_def hm_remove_def)
  have 6: "sc_alive s6 = {#7#}" "sc_removing s6 = {#7#}" "sc_max_parallel_jobs s6 = 1" "hm_get (contexts (sc_mgr s6)) 8 = Some (job_with_user 8 ''u'' ''t'' ''d'' 0)"
    "sc_jobs s6 = [(7, \<lparr>sj_finished = False, sj_inbox = [WM_Start]\<rparr>)]"
    by (simp_all add: s6_def schedule_with_context_def 5 defs MAX_TRANSITIONS_def)
  have 7: "sc_alive s7 = {#7#}" "sc_jobs s7 = []" "sc_max_parallel_jobs s7 = 1" "sc_mgr s7 = sc_mgr s6"
    by (simp_all add: s7_def cleaner_remove_def 6 hm_remove_def)
  have 8: "size (sc_alive s8) = 2"
    by (simp add: s8_def schedule_with_context_def 7 6(4) update_context_def job_with_user_def transition_to_def Let_def)
  have e1: "sched_step s0 s1" unfolding s1_def by (rule step_schedule)
  have e2: "sched_step s1 s2" unfolding s2_def by (rule step_worker_ends) (simp add: 1)
  have e3: "sched_step s2 s3" unfolding s3_def by (rule step_manager)
  have e4: "sched_step s3 s4" unfolding s4_def by (rule step_check) (simp add: 3)
  have e5: "sched_step s4 s5" unfolding s5_def by (rule step_cleanup)
  have e6: "sched_step s5 s6" unfolding s6_def by (rule step_schedule)
  have e7: "sched_step s6 s7" unfolding s7_def by (rule step_remove) (simp add: 6)
  have e8: "sched_step s7 s8" unfolding s8_def by (rule step_schedule)
  have "sched_step\<^sup>*\<^sup>* s0 s1" using e1 by (rule r_into_rtranclp)
  then have "sched_step\<^sup>*\<^sup>* s0 s2" using e2 by (rule rtranclp.rtrancl_into_rtrancl)
  then have "sched_step\<^sup>*\<^sup>* s0 s3" using e3 by (rule rtranclp.rtrancl_into_rtrancl)
  then have "sched_step\<^sup>*\<^sup>* s0 s4" using e4 by (rule rtranclp.rtrancl_into_rtrancl)
  then have "sched_step\<^sup>*\<^sup>* s0 s5" using e5 by (rule rtranclp.rtrancl_into_rtrancl)
  then have "sched_step\<^sup>*\<^sup>* s0 s6" using e6 by (rule rtranclp.rtrancl_into_rtrancl)
  then have "sched_step\<^sup>*\<^sup>* s0 s7" using e7 by (rule rtranclp.rtrancl_into_rtrancl)
  then have "sched_step\<^sup>*\<^sup>* s0 s8" using e8 by (rule rtranclp.rtrancl_into_rtrancl)
  with 8 show ?thesis by (auto simp: sched_reachable_def s0_def)
qed

section \<open>A concrete schedule\<close>

definition sample_scheduler :: scheduler where
  "sample_scheduler = snd (schedule_with_context 0 7 (scheduler_new 1 False (race_manager Job_Pending)))"

lemma sample_reachable: "sched_reachable 1 False (race_manager Job_Pending) sample_scheduler"
  unfolding sched_reachable_def sample_scheduler_def by (intro r_into_rtranclp step_schedule)

lemma parallel_jobs_bounded_witness: "running_count sample_scheduler \<le> 1 \<and> distinct (running_jobs sample_scheduler)"
  by (rule parallel_jobs_bounded [OF sample_reachable])

lemma worker_start_guarded_witness:
  "sc_alive sample_scheduler = sc_alive (scheduler_new 1 False (race_manager Job_Pending))
     \<and> sc_jobs sample_scheduler = sc_jobs (scheduler_new 1 False (race_manager Job_Pending))
   \<or> sc_alive sample_scheduler = add_mset 7 (sc_alive (scheduler_new 1 False (race_manager Job_Pending)))"
proof -
  obtain r where "schedule_with_context 0 7 (scheduler_new 1 False (race_manager Job_Pending)) = (r, sample_scheduler)"
    unfolding sample_scheduler_def by (metis prod.collapse)
  from worker_start_guarded [OF this] show ?thesis by blast
qed

lemma finished_jobs_released_witness:
  "\<exists>s'. cleaner_step\<^sup>*\<^sup>* sample_scheduler s' \<and> list_all (\<lambda>(_, j). \<not> sj_finished j) (sc_jobs s')"
  using finished_jobs_released [OF sample_reachable] by blast

end
