(* ===== verification/Compaction.thy ===== *)
theory Compaction
  imports Session Reasoning
begin

text \<open>
  \<open>src/agent/context_monitor.rs\<close>, the estimate of the size of a conversation and the choice of what
  to do when it gets too large, and \<open>src/agent/compaction.rs\<close>, which removes old turns after
  summarising or archiving them. The code computes with \<open>f64\<close>; the model uses exact rationals.
  For counts below \<open>2 ^ 45\<close> the results agree: a product of a count with 1.3, or a quotient of two
  counts, is an integer or one of the constants compared with exactly when the rounded value is,
  and otherwise differs from it by far more than the rounding error. The provider, the workspace
  and the formatted date and time are fields of a record.
\<close>

section \<open>Context monitor\<close>

definition DEFAULT_CONTEXT_LIMIT :: nat where
  "DEFAULT_CONTEXT_LIMIT = 100000"

definition COMPACTION_THRESHOLD :: rat where
  "COMPACTION_THRESHOLD = 8 / 10"

datatype compaction_strategy = CS_Summarize nat | CS_Truncate nat | CS_MoveToWorkspace

definition compaction_strategy_default :: compaction_strategy where
  "compaction_strategy_default = CS_Summarize 5"

record context_monitor =
  cx_context_limit :: nat
  cx_threshold_ratio :: rat

definition context_monitor_new :: context_monitor where
  "context_monitor_new = \<lparr>cx_context_limit = DEFAULT_CONTEXT_LIMIT, cx_threshold_ratio = COMPACTION_THRESHOLD\<rparr>"

definition with_limit :: "nat \<Rightarrow> context_monitor \<Rightarrow> context_monitor" where
  "with_limit n m = m\<lparr>cx_context_limit := n\<rparr>"

definition with_threshold :: "rat \<Rightarrow> context_monitor \<Rightarrow> context_monitor" where
  "with_threshold ratio m = m\<lparr>cx_threshold_ratio := max (5 / 10) (min (95 / 100) ratio)\<rparr>"

definition estimate_text_tokens :: "string \<Rightarrow> nat" where
  "estimate_text_tokens t = length (split_whitespace t) * 13 div 10"

definition estimate_message_tokens :: "chat_message \<Rightarrow> nat" where
  "estimate_message_tokens m = length (split_whitespace (cm_content m)) * 13 div 10 + 4"

definition estimate_tokens :: "chat_message list \<Rightarrow> nat" where
  "estimate_tokens ms = sum_list (map estimate_message_tokens ms)"

definition token_threshold :: "context_monitor \<Rightarrow> nat" where
  "token_threshold m = nat (floor (of_nat (cx_context_limit m) * cx_threshold_ratio m))"

definition needs_compaction :: "context_monitor \<Rightarrow> chat_message list \<Rightarrow> bool" where
  "needs_compaction m ms = (estimate_tokens ms \<ge> token_threshold m)"

definition usage_percent :: "context_monitor \<Rightarrow> chat_message list \<Rightarrow> rat" where
  "usage_percent m ms = of_nat (estimate_tokens ms) / of_nat (cx_context_limit m) * 100"

text \<open>\<open>tokens / limit > p / 100\<close>, also for a limit of zero, where the quotient is infinite or not a number.\<close>

definition overage_above :: "nat \<Rightarrow> context_monitor \<Rightarrow> nat \<Rightarrow> bool" where
  "overage_above tokens m p = (tokens * 100 > p * cx_context_limit m)"

definition suggest_compaction :: "context_monitor \<Rightarrow> chat_message list \<Rightarrow> compaction_strategy option" where
  "suggest_compaction m ms =
     (if \<not> needs_compaction m ms then None
      else let tokens = estimate_tokens ms
           in if overage_above tokens m 95 then Some (CS_Truncate 3)
              else if overage_above tokens m 85 then Some (CS_Summarize 5)
              else Some CS_MoveToWorkspace)"

record context_breakdown =
  cb_total_tokens :: nat
  cb_system_tokens :: nat
  cb_user_tokens :: nat
  cb_assistant_tokens :: nat
  cb_tool_tokens :: nat
  cb_message_count :: nat

fun add_message :: "context_breakdown \<Rightarrow> chat_message \<Rightarrow> context_breakdown" where
  "add_message b m =
     (let n = estimate_message_tokens m; b = b\<lparr>cb_total_tokens := cb_total_tokens b + n\<rparr>
      in case cm_role m of
           System \<Rightarrow> b\<lparr>cb_system_tokens := cb_system_tokens b + n\<rparr>
         | User \<Rightarrow> b\<lparr>cb_user_tokens := cb_user_tokens b + n\<rparr>
         | Assistant \<Rightarrow> b\<lparr>cb_assistant_tokens := cb_assistant_tokens b + n\<rparr>
         | Tool \<Rightarrow> b\<lparr>cb_tool_tokens := cb_tool_tokens b + n\<rparr>)"

definition analyze :: "chat_message list \<Rightarrow> context_breakdown" where
  "analyze ms =
     foldl add_message \<lparr>cb_total_tokens = 0, cb_system_tokens = 0, cb_user_tokens = 0, cb_assistant_tokens = 0,
       cb_tool_tokens = 0, cb_message_count = length ms\<rparr> ms"

section \<open>Compaction\<close>

record 's compactor =
  co_engine :: "'s reasoning"
  co_append :: "(string \<Rightarrow> string \<Rightarrow> 's \<Rightarrow> (string + unit) \<times> 's) option"
  co_date :: "'s \<Rightarrow> string"
  co_time :: "'s \<Rightarrow> string"

text \<open>\<open>co_append\<close> appends to a file of the workspace; there may be no workspace.\<close>

record compaction_partial =
  cp_turns_removed :: nat
  cp_summary_written :: bool
  cp_summary :: "string option"

definition partial_empty :: compaction_partial where
  "partial_empty = \<lparr>cp_turns_removed = 0, cp_summary_written = False, cp_summary = None\<rparr>"

record compaction_result = compaction_partial +
  cr_tokens_before :: nat
  cr_tokens_after :: nat

definition format_message :: "chat_message \<Rightarrow> string" where
  "format_message m =
     (case cm_role m of
        User \<Rightarrow> ''User: '' @ cm_content m
      | Assistant \<Rightarrow> ''Assistant: '' @ cm_content m
      | System \<Rightarrow> ''System: '' @ cm_content m
      | Tool \<Rightarrow> ''Tool '' @ (case cm_name m of Some n \<Rightarrow> n | None \<Rightarrow> ''unknown'') @ '': '' @ cm_content m)"

definition summary_prompt :: string where
  "summary_prompt = join [CHR 0x0A]
     [''Summarize the following conversation concisely. Focus on:'', ''- Key decisions made'',
      ''- Important information exchanged'', ''- Actions taken'', ''- Outcomes achieved'', [],
      ''Be brief but capture all important details. Use bullet points.'']"

definition generate_summary :: "'s compactor \<Rightarrow> (chat_message list, string, 's) provider" where
  "generate_summary co ms s =
     (let nl2 = [CHR 0x0A, CHR 0x0A];
          request = (completion_request_new
                       [msg_system summary_prompt,
                        msg_user (''Please summarize this conversation:'' @ nl2 @ join nl2 (map format_message ms))])
            \<lparr>rq_max_tokens := Some 1024, rq_temperature := Some f32_0_3\<rparr>
      in case reasoning_complete (co_engine co) request s of
           (Inl e, s) \<Rightarrow> (Inl e, s)
         | (Inr (t, _), s) \<Rightarrow> (Inr t, s))"

definition daily_entry :: "'s compactor \<Rightarrow> string \<Rightarrow> string \<Rightarrow> 's \<Rightarrow> string \<times> string" where
  "daily_entry co title content s =
     (''daily/'' @ co_date co s @ ''.md'',
      [CHR 0x0A] @ ''## '' @ title @ '' ('' @ co_time co s @ '')'' @ [CHR 0x0A, CHR 0x0A] @ content @ [CHR 0x0A])"

definition write_summary_to_workspace ::
  "'s compactor \<Rightarrow> (string \<Rightarrow> string \<Rightarrow> 's \<Rightarrow> (string + unit) \<times> 's) \<Rightarrow> string \<Rightarrow> 's \<Rightarrow> bool \<times> 's" where
  "write_summary_to_workspace co app summary s =
     (case daily_entry co ''Context Summary'' summary s of
        (path, entry) \<Rightarrow> (case app path entry s of (Inr _, s) \<Rightarrow> (True, s) | (Inl _, s) \<Rightarrow> (False, s)))"

definition write_context_to_workspace ::
  "'s compactor \<Rightarrow> (string \<Rightarrow> string \<Rightarrow> 's \<Rightarrow> (string + unit) \<times> 's) \<Rightarrow> string \<Rightarrow> 's \<Rightarrow> bool \<times> 's" where
  "write_context_to_workspace co app content s =
     (case daily_entry co ''Archived Context'' content s of
        (path, entry) \<Rightarrow> (case app path entry s of (Inr _, s) \<Rightarrow> (True, s) | (Inl _, s) \<Rightarrow> (False, s)))"

definition format_turn :: "turn \<Rightarrow> string" where
  "format_turn t =
     (let nl = [CHR 0x0A]
      in ''**Turn '' @ show_nat (turn_no t + 1) @ ''**'' @ nl @ ''User: '' @ user_input t @ nl
         @ (case response t of Some r \<Rightarrow> ''Agent: '' @ r @ nl | None \<Rightarrow> [])
         @ (if tool_calls t \<noteq> [] then ''Tools: '' @ join '', '' (map ttc_name (tool_calls t)) @ nl else []))"

definition format_turns_for_storage :: "turn list \<Rightarrow> string" where
  "format_turns_for_storage ts = join [CHR 0x0A] (map format_turn ts)"

definition compact_truncate :: "nat \<Rightarrow> thread \<Rightarrow> compaction_partial \<times> thread" where
  "compact_truncate keep th =
     (let th' = truncate_turns keep th
      in (\<lparr>cp_turns_removed = length (turns th) - length (turns th'), cp_summary_written = False, cp_summary = None\<rparr>, th'))"

definition compact_with_summary ::
  "'s compactor \<Rightarrow> nat \<Rightarrow> thread \<Rightarrow> 's \<Rightarrow> (llm_error + compaction_partial) \<times> thread \<times> 's" where
  "compact_with_summary co keep th s =
     (if length (turns th) \<le> keep then (Inr partial_empty, th, s)
      else let turns_to_remove = length (turns th) - keep
           in case generate_summary co (turn_messages (take turns_to_remove (turns th))) s of
                (Inl e, s) \<Rightarrow> (Inl e, th, s)
              | (Inr summary, s) \<Rightarrow>
                  (case (case co_append co of
                           Some app \<Rightarrow> write_summary_to_workspace co app summary s
                         | None \<Rightarrow> (False, s)) of
                     (written, s) \<Rightarrow>
                       (Inr \<lparr>cp_turns_removed = turns_to_remove, cp_summary_written = written, cp_summary = Some summary\<rparr>,
                        truncate_turns keep th, s)))"

definition compact_to_workspace :: "'s compactor \<Rightarrow> thread \<Rightarrow> 's \<Rightarrow> compaction_partial \<times> thread \<times> 's" where
  "compact_to_workspace co th s =
     (case co_append co of
        None \<Rightarrow> (case compact_truncate 5 th of (p, th) \<Rightarrow> (p, th, s))
      | Some app \<Rightarrow>
          (if length (turns th) \<le> 10 then (partial_empty, th, s)
           else let turns_to_remove = length (turns th) - 10
                in case write_context_to_workspace co app
                          (format_turns_for_storage (take turns_to_remove (turns th))) s of
                     (written, s) \<Rightarrow>
                       (\<lparr>cp_turns_removed = turns_to_remove, cp_summary_written = written, cp_summary = None\<rparr>,
                        truncate_turns 10 th, s)))"

definition compact ::
  "'s compactor \<Rightarrow> compaction_strategy \<Rightarrow> thread \<Rightarrow> 's \<Rightarrow> (llm_error + compaction_result) \<times> thread \<times> 's" where
  "compact co strategy th s =
     (let before = cb_total_tokens (analyze (messages th))
      in case (case strategy of
                 CS_Summarize k \<Rightarrow> compact_with_summary co k th s
               | CS_Truncate k \<Rightarrow> (case compact_truncate k th of (p, th) \<Rightarrow> (Inr p, th, s))
               | CS_MoveToWorkspace \<Rightarrow> (case compact_to_workspace co th s of (p, th, s) \<Rightarrow> (Inr p, th, s))) of
           (Inl e, th, s) \<Rightarrow> (Inl e, th, s)
         | (Inr p, th, s) \<Rightarrow>
             (Inr \<lparr>cp_turns_removed = cp_turns_removed p, cp_summary_written = cp_summary_written p,
                   cp_summary = cp_summary p, cr_tokens_before = before,
                   cr_tokens_after = cb_total_tokens (analyze (messages th))\<rparr>, th, s))"

section \<open>Sizes\<close>

lemma add_message_total [simp]:
  "cb_total_tokens (add_message b m) = cb_total_tokens b + estimate_message_tokens m"
  "cb_message_count (add_message b m) = cb_message_count b"
  by (auto simp: Let_def split: role.splits)

lemma foldl_add_message_total:
  "cb_total_tokens (foldl add_message b ms) = cb_total_tokens b + estimate_tokens ms"
  by (induction ms arbitrary: b) (simp_all add: estimate_tokens_def del: add_message.simps)

lemma analyze_total: "cb_total_tokens (analyze ms) = estimate_tokens ms"
  by (simp add: analyze_def foldl_add_message_total)

definition by_role :: "context_breakdown \<Rightarrow> nat" where
  "by_role b = cb_system_tokens b + cb_user_tokens b + cb_assistant_tokens b + cb_tool_tokens b"

lemma by_role_add: "by_role (add_message b m) = by_role b + estimate_message_tokens m"
  by (auto simp: by_role_def Let_def split: role.splits)

lemma by_role_foldl: "by_role (foldl add_message b ms) = by_role b + estimate_tokens ms"
  by (induction ms arbitrary: b) (simp_all add: estimate_tokens_def by_role_add del: add_message.simps)

lemma analyze_by_role: "by_role (analyze ms) = cb_total_tokens (analyze ms)"
  by (simp add: analyze_total) (simp add: analyze_def by_role_foldl, simp add: by_role_def)

lemma estimate_tokens_append [simp]: "estimate_tokens (xs @ ys) = estimate_tokens xs + estimate_tokens ys"
  by (simp add: estimate_tokens_def)

section \<open>What is kept\<close>

lemma turn_messages_renumber: "turn_messages (map (\<lambda>(i, t). t\<lparr>turn_no := i\<rparr>) (enumerate n ts)) = turn_messages ts"
  by (induction ts arbitrary: n) auto

lemma messages_truncate:
  "messages (truncate_turns keep th) = turn_messages (drop (length (turns th) - keep) (turns th))"
  by (simp add: messages_def truncate_turns_def Let_def turn_messages_renumber)

lemma length_truncate [simp]: "length (turns (truncate_turns keep th)) = min keep (length (turns th))"
  by (simp add: truncate_turns_def Let_def)

lemma truncate_state [simp]:
  "thread_state (truncate_turns keep th) = thread_state th"
  "thread_id (truncate_turns keep th) = thread_id th"
  "pending_approval (truncate_turns keep th) = pending_approval th"
  "pending_auth (truncate_turns keep th) = pending_auth th"
  by (simp_all add: truncate_turns_def Let_def)

text \<open>The turns a compaction keeps: the last ones, renumbered; nothing else of the thread changes.\<close>

definition kept_recent :: "nat \<Rightarrow> thread \<Rightarrow> thread \<Rightarrow> bool" where
  "kept_recent k th th' \<longleftrightarrow>
     k \<le> length (turns th)
     \<and> th' = th\<lparr>turns := turns th'\<rparr>
     \<and> map (turn_no_update (\<lambda>_. 0)) (turns th') = map (turn_no_update (\<lambda>_. 0)) (drop k (turns th))
     \<and> (turns_wf (turns th) \<longrightarrow> turns_wf (turns th'))"

lemma kept_recent_refl: "kept_recent 0 th th"
  by (simp add: kept_recent_def)

lemma map_renumber:
  "map (turn_no_update (\<lambda>_. 0)) (map (\<lambda>(i, t). t\<lparr>turn_no := i\<rparr>) (enumerate n ts)) = map (turn_no_update (\<lambda>_. 0)) ts"
  by (induction ts arbitrary: n) auto

lemma truncate_kept: "kept_recent (length (turns th) - keep) th (truncate_turns keep th)"
proof -
  have "turns_wf (turns (truncate_turns keep th))" if "turns_wf (turns th)"
    using thread_step_wf [of th "Op_TruncateTurns keep"] that by (simp add: thread_wf_def)
  then show ?thesis
    by (auto simp: kept_recent_def truncate_turns_def Let_def map_renumber simp del: map_map)
qed

lemma kept_recent_tokens:
  assumes "kept_recent k th th'"
  shows "estimate_tokens (messages th') \<le> estimate_tokens (messages th)"
proof -
  have renumbered: "turn_messages ts = turn_messages (map (turn_no_update (\<lambda>_. 0)) ts)" for ts
    by (induction ts) auto
  have "messages th' = turn_messages (drop k (turns th))"
    using assms renumbered [of "turns th'"] renumbered [of "drop k (turns th)"] by (simp add: messages_def kept_recent_def)
  moreover have "messages th = turn_messages (take k (turns th)) @ turn_messages (drop k (turns th))"
    by (simp add: messages_def flip: turn_messages_append)
  ultimately show ?thesis by simp
qed

text \<open>What one run of the compactor does to the thread, for every strategy.\<close>

definition keep_target :: "'s compactor \<Rightarrow> compaction_strategy \<Rightarrow> nat" where
  "keep_target co strategy =
     (case strategy of
        CS_Summarize k \<Rightarrow> k
      | CS_Truncate k \<Rightarrow> k
      | CS_MoveToWorkspace \<Rightarrow> (case co_append co of None \<Rightarrow> 5 | Some _ \<Rightarrow> 10))"

lemma truncate_short: "length (turns th) \<le> keep \<Longrightarrow> truncate_turns keep th = th"
  by (simp add: truncate_turns_def)

lemma compact_error:
  "compact co strategy th s = (Inl e, th', s') \<Longrightarrow>
   th' = th \<and> (\<exists>k. strategy = CS_Summarize k \<and> length (turns th) > k)"
  by (auto simp: compact_def compact_with_summary_def Let_def compact_truncate_def
      split: compaction_strategy.splits if_splits sum.splits prod.splits)

lemma compact_thread:
  assumes "compact co strategy th s = (Inr r, th', s')"
  shows "th' = truncate_turns (keep_target co strategy) th"
    and "cp_turns_removed r = length (turns th) - keep_target co strategy"
  using assms
  by (auto simp: compact_def compact_with_summary_def compact_to_workspace_def compact_truncate_def Let_def
      keep_target_def partial_empty_def truncate_short min_def
      split: compaction_strategy.splits if_splits sum.splits prod.splits option.splits)

lemma compact_result:
  assumes "compact co strategy th s = (Inr r, th', s')"
  shows "cr_tokens_before r = estimate_tokens (messages th)" "cr_tokens_after r = estimate_tokens (messages th')"
  using assms by (auto simp: compact_def Let_def analyze_total split: sum.splits prod.splits)

lemma compact_state:
  assumes "compact co strategy th s = (r, th', s')"
  shows "thread_state th' = thread_state th" "thread_id th' = thread_id th"
    "pending_approval th' = pending_approval th" "pending_auth th' = pending_auth th"
  using assms compact_error [of co strategy th s _ th' s'] compact_thread(1) [of co strategy th s _ th' s']
  by (cases r; auto)+

text \<open>
  C30. Compaction only forgets the oldest turns. If it fails, the model could not summarise and the
  thread is as before. Otherwise the thread keeps its most recent turns, in order and complete, at
  most as many as the strategy asks for, and everything that is not a turn; the number reported as
  removed is the number of turns that are gone, and the conversation is not larger than before.
\<close>

theorem compaction_keeps_recent:
  assumes "compact co strategy th s = (r, th', s')"
  shows "case r of
      Inl _ \<Rightarrow> th' = th \<and> (\<exists>k. strategy = CS_Summarize k \<and> length (turns th) > k)
    | Inr res \<Rightarrow>
        kept_recent (cp_turns_removed res) th th'
        \<and> length (turns th') = min (keep_target co strategy) (length (turns th))
        \<and> cp_turns_removed res + length (turns th') = length (turns th)
        \<and> cr_tokens_before res = estimate_tokens (messages th)
        \<and> cr_tokens_after res = estimate_tokens (messages th') \<and> cr_tokens_after res \<le> cr_tokens_before res"
proof (cases r)
  case (Inl e)
  then show ?thesis using compact_error assms by force
next
  case (Inr res)
  note run = assms [unfolded Inr]
  have "kept_recent (cp_turns_removed res) th th'"
    unfolding compact_thread [OF run] by (rule truncate_kept)
  then show ?thesis
    using kept_recent_tokens by (auto simp: Inr compact_thread [OF run] compact_result [OF run])
qed

definition sample_compactor :: "unit compactor" where
  "sample_compactor = \<lparr>co_engine = sample_engine, co_append = None, co_date = (\<lambda>_. []), co_time = (\<lambda>_. [])\<rparr>"

definition sample_thread :: thread where
  "sample_thread = foldl (\<lambda>th i. complete_turn ''ok'' 1 (start_turn ''one two'' 1 th)) (thread_new 1 1 0) [0..<7]"

lemma compaction_keeps_recent_witness:
  "let (r, th', _) = compact sample_compactor CS_MoveToWorkspace sample_thread ()
   in case r of
        Inl _ \<Rightarrow> False
      | Inr res \<Rightarrow> kept_recent 2 sample_thread th' \<and> length (turns th') = 5 \<and> cr_tokens_after res \<le> cr_tokens_before res"
proof -
  obtain r th' where run: "compact sample_compactor CS_MoveToWorkspace sample_thread () = (r, th', ())" by (metis prod_cases3 unit.exhaust)
  have len: "length (turns sample_thread) = 7" by code_simp
  have "\<not> isl r" using compact_error run by (cases r) fastforce+
  then obtain res where res: "r = Inr res" by (cases r) auto
  have "keep_target sample_compactor CS_MoveToWorkspace = 5" by (simp add: keep_target_def sample_compactor_def)
  then have "kept_recent (cp_turns_removed res) sample_thread th' \<and> length (turns th') = 5
      \<and> cp_turns_removed res + length (turns th') = 7 \<and> cr_tokens_after res \<le> cr_tokens_before res"
    using compaction_keeps_recent [OF run] res len by simp
  moreover from this have "cp_turns_removed res = 2" by linarith
  ultimately show ?thesis
    using run res by simp
qed

end
