(* ===== verification/Thread_Ops.thy ===== *)
theory Thread_Ops
  imports Dispatcher Compaction Session_Manager Submission
begin

text \<open>
  \<open>src/agent/thread_ops.rs\<close>: what the agent does with user input, approvals, undo, redo, resume,
  interrupts, compaction, clearing, new and switched threads and authentication tokens; and
  \<open>src/agent/router.rs\<close>, the commands recognised inside user input. The session is in the state of
  theory \<open>Dispatcher\<close>, the undo manager of the thread is passed on next to it. The handlers of the
  job commands, the extension manager and the database are fields of a record; \<open>ch_saved\<close> lists the
  messages the database has accepted.
\<close>

section \<open>Commands in user input\<close>

datatype message_intent =
    MI_CreateJob string string "string option"
  | MI_CheckJobStatus "string option"
  | MI_CancelJob string
  | MI_ListJobs "string option"
  | MI_HelpJob string
  | MI_Chat string
  | MI_Command string "string list"
  | MI_Unknown

definition is_command :: "string \<Rightarrow> string \<Rightarrow> bool" where
  "is_command prefix content = starts_with (trim content) prefix"

definition parse_command :: "string \<Rightarrow> string \<Rightarrow> message_intent" where
  "parse_command prefix content =
     (let parts = split_whitespace (case strip_prefix content prefix of Some r \<Rightarrow> r | None \<Rightarrow> content)
      in case parts of
           [] \<Rightarrow> MI_Unknown
         | p # rest \<Rightarrow>
             (let cmd = to_lowercase p; first = (case rest of [] \<Rightarrow> None | a # _ \<Rightarrow> Some a)
              in if cmd = ''job'' \<or> cmd = ''create'' then MI_CreateJob (join '' '' rest) (join '' '' rest) None
                 else if cmd = ''status'' then MI_CheckJobStatus first
                 else if cmd = ''cancel'' then (case first of Some j \<Rightarrow> MI_CancelJob j | None \<Rightarrow> MI_Unknown)
                 else if cmd = ''list'' \<or> cmd = ''jobs'' then MI_ListJobs first
                 else if cmd = ''help'' then (case first of Some j \<Rightarrow> MI_HelpJob j | None \<Rightarrow> MI_Command ''help'' [])
                 else MI_Command cmd rest))"

definition route_command :: "string \<Rightarrow> string \<Rightarrow> message_intent option" where
  "route_command prefix content =
     (if starts_with (trim content) prefix then Some (parse_command prefix (trim content)) else None)"

section \<open>Surroundings\<close>

record 's chat_store =
  st_ensure :: "uuid \<Rightarrow> string \<Rightarrow> string \<Rightarrow> 's \<Rightarrow> bool \<times> 's"
  st_add :: "uuid \<Rightarrow> string \<Rightarrow> string \<Rightarrow> 's \<Rightarrow> bool \<times> 's"

record auth_result =
  ar_authenticated :: bool
  ar_instructions :: "string option"
  ar_auth_url :: "string option"
  ar_setup_url :: "string option"

record 's extension_manager =
  em_auth :: "string \<Rightarrow> string \<Rightarrow> 's \<Rightarrow> (string + auth_result) \<times> 's"
  em_activate :: "string \<Rightarrow> 's \<Rightarrow> (string + string list) \<times> 's"

record 's thread_deps =
  td_chat :: "'s chat_deps"
  td_monitor :: context_monitor
  td_compactor :: "'s compactor"
  td_store :: "'s chat_store option"
  td_extensions :: "'s extension_manager option"
  td_command :: "message_intent \<Rightarrow> incoming_message \<Rightarrow> 's \<Rightarrow> (worker_error + submission_result) \<times> 's"
  td_percent0 :: "rat \<Rightarrow> string"
  td_percent1 :: "rat \<Rightarrow> string"
  td_show_json_list :: "json list \<Rightarrow> string option"

type_synonym 's handled = "(worker_error + submission_result) \<times> undo_manager \<times> 's chat"

definition missing_thread :: "uuid \<Rightarrow> worker_error" where
  "missing_thread tid = JobErr (NotFound tid)"

definition now_of :: "'s thread_deps \<Rightarrow> 's chat \<Rightarrow> datetime" where
  "now_of d ch = cd_now (td_chat d) (ch_ext ch)"

definition fresh_of :: "'s thread_deps \<Rightarrow> 's chat \<Rightarrow> uuid" where
  "fresh_of d ch = cd_fresh (td_chat d) (ch_ext ch)"

section \<open>Saving messages\<close>

definition save_message :: "'s thread_deps \<Rightarrow> uuid \<Rightarrow> string \<Rightarrow> string \<Rightarrow> string \<Rightarrow> 's chat \<Rightarrow> 's chat" where
  "save_message d tid uid role content ch =
     (case td_store d of
        None \<Rightarrow> ch
      | Some store \<Rightarrow>
          (case st_ensure store tid ''gateway'' uid (ch_ext ch) of
             (False, s) \<Rightarrow> ch\<lparr>ch_ext := s\<rparr>
           | (True, s) \<Rightarrow>
               (case st_add store tid role content s of
                  (ok, s) \<Rightarrow> ch\<lparr>ch_ext := s, ch_saved := (if ok then ch_saved ch @ [(tid, role, content)] else ch_saved ch)\<rparr>)))"

definition persist_user_message :: "'s thread_deps \<Rightarrow> uuid \<Rightarrow> string \<Rightarrow> string \<Rightarrow> 's chat \<Rightarrow> 's chat" where
  "persist_user_message d tid uid content ch = save_message d tid uid ''user'' content ch"

definition persist_assistant_response :: "'s thread_deps \<Rightarrow> uuid \<Rightarrow> string \<Rightarrow> string \<Rightarrow> 's chat \<Rightarrow> 's chat" where
  "persist_assistant_response d tid uid resp ch = save_message d tid uid ''assistant'' resp ch"

definition truncate_preview :: "string \<Rightarrow> nat \<Rightarrow> string" where
  "truncate_preview s max_bytes =
     (if length s \<le> max_bytes then s else take (boundary_before s max_bytes) s @ ''...'')"

definition call_summary :: "'s thread_deps \<Rightarrow> turn_tool_call \<Rightarrow> json" where
  "call_summary d c =
     JObject ([(''name'', JString (ttc_name c))]
       @ (case ttc_result c of
            None \<Rightarrow> []
          | Some v \<Rightarrow>
              [(''result_preview'',
                JString (truncate_preview (case v of JString s \<Rightarrow> s | _ \<Rightarrow> cd_show_json (td_chat d) v) 500))])
       @ (case ttc_error c of None \<Rightarrow> [] | Some e \<Rightarrow> [(''error'', JString (truncate_preview e 200))]))"

definition persist_tool_calls :: "'s thread_deps \<Rightarrow> uuid \<Rightarrow> string \<Rightarrow> turn_tool_call list \<Rightarrow> 's chat \<Rightarrow> 's chat" where
  "persist_tool_calls d tid uid calls ch =
     (if calls = [] then ch
      else case td_show_json_list d (map (call_summary d) calls) of
             None \<Rightarrow> ch
           | Some content \<Rightarrow> save_message d tid uid ''tool_calls'' content ch)"

section \<open>User input\<close>

text \<open>The checks of the text, in order; \<open>Some\<close> is the answer that rejects it.\<close>

definition input_rejected :: "'s thread_deps \<Rightarrow> string \<Rightarrow> string option" where
  "input_rejected d content =
     (let safety = cd_safety (td_chat d); validation = validate_input safety content
      in if \<not> vr_is_valid validation
         then Some (''Input rejected by safety validation: ''
                    @ join ''; '' (map (\<lambda>e. ve_field e @ '': '' @ ve_message e) (vr_errors validation)))
         else if list_ex (\<lambda>rule. pr_action rule = Pol_Block) (check_policy safety content)
         then Some ''Input rejected by safety policy.''
         else scan_inbound_for_secrets safety content)"

definition auto_compact :: "'s thread_deps \<Rightarrow> uuid \<Rightarrow> thread \<Rightarrow> 's chat \<Rightarrow> 's chat" where
  "auto_compact d tid th ch =
     (case suggest_compaction (td_monitor d) (messages th) of
        None \<Rightarrow> ch
      | Some strategy \<Rightarrow>
          (let ch = send_status (SU_Status (''Context at '' @ td_percent0 d (usage_percent (td_monitor d) (messages th))
                      @ ''% capacity, compacting...'')) ch
           in case compact (td_compactor d) strategy th (ch_ext ch) of
                (_, th', s) \<Rightarrow> on_thread tid (\<lambda>_. th') (ch\<lparr>ch_ext := s\<rparr>)))"

definition transform_response :: "'s thread_deps \<Rightarrow> incoming_message \<Rightarrow> uuid \<Rightarrow> string \<Rightarrow> 's \<Rightarrow> string \<times> 's" where
  "transform_response d msg tid resp s =
     (let c = td_chat d
      in case run_hooks (cd_from_json c) (cd_to_json c) (cd_show_hook_error c) (cd_hooks c)
                (ResponseTransform (im_user_id msg) (cd_show_uuid c tid) resp) s of
           (Inl (Rejected reason), s) \<Rightarrow> (''[Response filtered: '' @ reason @ '']'', s)
         | (Inl err, s) \<Rightarrow> (''[Response blocked by hook policy: '' @ cd_show_hook_error c err @ '']'', s)
         | (Inr (Continue (Some new_response)), s) \<Rightarrow> (new_response, s)
         | (Inr _, s) \<Rightarrow> (resp, s))"

definition last_calls :: "uuid \<Rightarrow> 's chat \<Rightarrow> turn_tool_call list" where
  "last_calls tid ch =
     (case Option.bind (thread_of tid ch) last_turn of Some t \<Rightarrow> tool_calls t | None \<Rightarrow> [])"

definition ask_approval :: "'s thread_deps \<Rightarrow> uuid \<Rightarrow> pending_approval \<Rightarrow> 's chat \<Rightarrow> submission_result \<times> 's chat" where
  "ask_approval d tid p ch =
     (NeedApproval (pa_request_id p) (pending_approval.pa_tool_name p) (pa_description p) (pa_display_parameters p),
      send_status (SU_Status ''Awaiting approval'') (on_thread tid (await_approval p (now_of d ch)) ch))"

definition complete_and_save ::
  "'s thread_deps \<Rightarrow> incoming_message \<Rightarrow> uuid \<Rightarrow> string \<Rightarrow> 's chat \<Rightarrow> submission_result \<times> 's chat" where
  "complete_and_save d msg tid resp ch =
     (let ch = on_thread tid (complete_turn resp (now_of d ch)) ch;
          calls = last_calls tid ch;
          ch = send_status (SU_Status ''Done'') ch;
          ch = persist_tool_calls d tid (im_user_id msg) calls ch
      in (result_response resp, persist_assistant_response d tid (im_user_id msg) resp ch))"

text \<open>What follows the loop; hooks see the response only where \<open>transform\<close> is set.\<close>

definition finish_turn ::
  "'s thread_deps \<Rightarrow> bool \<Rightarrow> incoming_message \<Rightarrow> uuid \<Rightarrow> worker_error + loop_result \<Rightarrow> 's chat \<Rightarrow> submission_result \<times> 's chat" where
  "finish_turn d transform msg tid result ch =
     (case result of
        Inr (LoopResponse resp) \<Rightarrow>
          (case (if transform then transform_response d msg tid resp (ch_ext ch) else (resp, ch_ext ch)) of
             (resp, s) \<Rightarrow> complete_and_save d msg tid resp (ch\<lparr>ch_ext := s\<rparr>))
      | Inr (LoopNeedApproval p) \<Rightarrow> ask_approval d tid p ch
      | Inl e \<Rightarrow>
          (result_error (cd_show_error (td_chat d) e),
           on_thread tid (fail_turn (cd_show_error (td_chat d) e) (now_of d ch)) ch))"

definition run_turn ::
  "'s thread_deps \<Rightarrow> incoming_message \<Rightarrow> uuid \<Rightarrow> string \<Rightarrow> undo_manager \<Rightarrow> 's chat \<Rightarrow> 's handled" where
  "run_turn d msg tid content um ch =
     (case thread_of tid ch of
        None \<Rightarrow> (Inl (missing_thread tid), um, ch)
      | Some th \<Rightarrow>
          (let ch = auto_compact d tid th ch
           in case thread_of tid ch of
                None \<Rightarrow> (Inl (missing_thread tid), um, ch)
              | Some th \<Rightarrow>
                  (let um = um_checkpoint (fresh_of d ch) (turn_number th) (messages th) (''Before turn '' @ show_nat (turn_number th)) um;
                       th = start_turn content (now_of d ch) th;
                       ch = on_thread tid (\<lambda>_. th) ch;
                       ch = persist_user_message d tid (im_user_id msg) content ch;
                       ch = send_status (SU_Thinking ''Processing...'') ch
                   in case run_agentic_loop (td_chat d) msg tid (messages th) ch of
                        (result, ch) \<Rightarrow>
                          (case thread_of tid ch of
                             None \<Rightarrow> (Inl (missing_thread tid), um, ch)
                           | Some th \<Rightarrow>
                               (if thread_state th = Thread_Interrupted
                                then (Inr Interrupted, um, send_status (SU_Status ''Interrupted'') ch)
                                else case finish_turn d True msg tid result ch of (r, ch) \<Rightarrow> (Inr r, um, ch))))))"

definition process_user_input ::
  "'s thread_deps \<Rightarrow> incoming_message \<Rightarrow> uuid \<Rightarrow> string \<Rightarrow> undo_manager \<Rightarrow> 's chat \<Rightarrow> 's handled" where
  "process_user_input d msg tid content um ch =
     (case thread_of tid ch of
        None \<Rightarrow> (Inl (missing_thread tid), um, ch)
      | Some th \<Rightarrow>
          (if thread_state th = Thread_Processing
           then (Inr (result_error ''Turn in progress. Use /interrupt to cancel.''), um, ch)
           else if thread_state th = Thread_AwaitingApproval
           then (Inr (result_error ''Waiting for approval. Use /interrupt to cancel.''), um, ch)
           else if thread_state th = Thread_Completed
           then (Inr (result_error ''Thread completed. Use /thread new.''), um, ch)
           else case input_rejected d content of
                  Some answer \<Rightarrow> (Inr (result_error answer), um, ch)
                | None \<Rightarrow>
                    (case route_command ''/'' content of
                       Some intent \<Rightarrow> (case td_command d intent msg (ch_ext ch) of (r, s) \<Rightarrow> (r, um, ch\<lparr>ch_ext := s\<rparr>))
                     | None \<Rightarrow> run_turn d msg tid content um ch)))"

section \<open>Undo, redo, resume\<close>

definition process_undo :: "'s thread_deps \<Rightarrow> uuid \<Rightarrow> undo_manager \<Rightarrow> 's chat \<Rightarrow> 's handled" where
  "process_undo d tid um ch =
     (if \<not> can_undo um then (Inr (ok_with_message ''Nothing to undo.''), um, ch)
      else case thread_of tid ch of
             None \<Rightarrow> (Inl (missing_thread tid), um, ch)
           | Some th \<Rightarrow>
               (case undo (fresh_of d ch) (turn_number th) (messages th) um of
                  (Some c, um) \<Rightarrow>
                    (Inr (ok_with_message (''Undone to turn '' @ show_nat (cp_turn_number c) @ ''. '' @ show_nat (undo_count um)
                       @ '' undo(s) remaining.'')), um,
                     on_thread tid (restore_from_messages (cp_messages c) (now_of d ch)) ch)
                | (None, um) \<Rightarrow> (Inr (result_error ''Undo failed.''), um, ch)))"

definition process_redo :: "'s thread_deps \<Rightarrow> uuid \<Rightarrow> undo_manager \<Rightarrow> 's chat \<Rightarrow> 's handled" where
  "process_redo d tid um ch =
     (if \<not> can_redo um then (Inr (ok_with_message ''Nothing to redo.''), um, ch)
      else case thread_of tid ch of
             None \<Rightarrow> (Inl (missing_thread tid), um, ch)
           | Some th \<Rightarrow>
               (case redo (fresh_of d ch) (turn_number th) (messages th) um of
                  (Some c, um) \<Rightarrow>
                    (Inr (ok_with_message (''Redone to turn '' @ show_nat (cp_turn_number c) @ ''.'')), um,
                     on_thread tid (restore_from_messages (cp_messages c) (now_of d ch)) ch)
                | (None, um) \<Rightarrow> (Inr (result_error ''Redo failed.''), um, ch)))"

definition process_resume :: "'s thread_deps \<Rightarrow> uuid \<Rightarrow> uuid \<Rightarrow> undo_manager \<Rightarrow> 's chat \<Rightarrow> 's handled" where
  "process_resume d tid checkpoint_id um ch =
     (case restore checkpoint_id um of
        (Some c, um) \<Rightarrow>
          (case thread_of tid ch of
             None \<Rightarrow> (Inl (missing_thread tid), um, ch)
           | Some _ \<Rightarrow>
               (Inr (ok_with_message (''Resumed from checkpoint: '' @ cp_description c)), um,
                on_thread tid (restore_from_messages (cp_messages c) (now_of d ch)) ch))
      | (None, um) \<Rightarrow> (Inr (result_error ''Checkpoint not found.''), um, ch))"

section \<open>Interrupt, compaction, clearing\<close>

definition process_interrupt :: "'s thread_deps \<Rightarrow> uuid \<Rightarrow> undo_manager \<Rightarrow> 's chat \<Rightarrow> 's handled" where
  "process_interrupt d tid um ch =
     (case thread_of tid ch of
        None \<Rightarrow> (Inl (missing_thread tid), um, ch)
      | Some th \<Rightarrow>
          (if thread_state th \<in> {Thread_Processing, Thread_AwaitingApproval}
           then (Inr (ok_with_message ''Interrupted.''), um, on_thread tid (thread_interrupt (now_of d ch)) ch)
           else (Inr (ok_with_message ''Nothing to interrupt.''), um, ch)))"

definition compacted_text :: "'s thread_deps \<Rightarrow> compaction_result \<Rightarrow> rat \<Rightarrow> string" where
  "compacted_text d r usage =
     ''Compacted: '' @ show_nat (cp_turns_removed r) @ '' turns removed, '' @ show_nat (cr_tokens_before r)
     @ '' '' @ [CHR 0xE2, CHR 0x86, CHR 0x92] @ '' '' @ show_nat (cr_tokens_after r) @ '' tokens (was '' @ td_percent1 d usage @ ''% full)''
     @ (if cp_summary_written r then '', summary saved to workspace'' else [])"

definition process_compact :: "'s thread_deps \<Rightarrow> uuid \<Rightarrow> undo_manager \<Rightarrow> 's chat \<Rightarrow> 's handled" where
  "process_compact d tid um ch =
     (case thread_of tid ch of
        None \<Rightarrow> (Inl (missing_thread tid), um, ch)
      | Some th \<Rightarrow>
          (let usage = usage_percent (td_monitor d) (messages th);
               strategy = (case suggest_compaction (td_monitor d) (messages th) of Some st \<Rightarrow> st | None \<Rightarrow> CS_Summarize 5)
           in case compact (td_compactor d) strategy th (ch_ext ch) of
                (r, th', s) \<Rightarrow>
                  (Inr (case r of
                          Inr r \<Rightarrow> ok_with_message (compacted_text d r usage)
                        | Inl e \<Rightarrow> result_error (''Compaction failed: '' @ cd_show_error (td_chat d) (LlmErr e))),
                   um, on_thread tid (\<lambda>_. th') (ch\<lparr>ch_ext := s\<rparr>))))"

definition process_clear :: "'s thread_deps \<Rightarrow> uuid \<Rightarrow> undo_manager \<Rightarrow> 's chat \<Rightarrow> 's handled" where
  "process_clear d tid um ch =
     (case thread_of tid ch of
        None \<Rightarrow> (Inl (missing_thread tid), um, ch)
      | Some _ \<Rightarrow>
          (Inr (ok_with_message ''Thread cleared.''), um_clear um,
           on_thread tid (\<lambda>th. th\<lparr>turns := [], thread_state := Thread_Idle\<rparr>) ch))"

section \<open>Approvals\<close>

definition error_text :: "'s thread_deps \<Rightarrow> worker_error \<Rightarrow> string" where
  "error_text d e = ''Error: '' @ cd_show_error (td_chat d) e"

text \<open>A tool of a deferred call needs approval; hooks are not asked and the configuration is not looked at.\<close>

definition deferred_needs_approval :: "'s thread_deps \<Rightarrow> 's chat \<Rightarrow> tool_call \<Rightarrow> bool" where
  "deferred_needs_approval d ch tc =
     (case cd_tool (td_chat d) (ch_ext ch) (tc_name tc) of
        None \<Rightarrow> False
      | Some t \<Rightarrow>
          (case tool_requires_approval t (tc_arguments tc) of
             Never \<Rightarrow> False
           | UnlessAutoApproved \<Rightarrow> \<not> is_tool_auto_approved (ch_session ch) (tc_name tc)
           | Always \<Rightarrow> True))"

fun deferred_preflight :: "'s thread_deps \<Rightarrow> 's chat \<Rightarrow> nat \<Rightarrow> tool_call list \<Rightarrow> tool_call list \<times> (nat \<times> tool_call) option" where
  "deferred_preflight d ch idx [] = ([], None)"
| "deferred_preflight d ch idx (tc # tcs) =
     (if deferred_needs_approval d ch tc then ([], Some (idx, tc))
      else case deferred_preflight d ch (Suc idx) tcs of (run, ask) \<Rightarrow> (tc # run, ask))"

definition handle_auth_intercept ::
  "'s thread_deps \<Rightarrow> incoming_message \<Rightarrow> uuid \<Rightarrow> worker_error + string \<Rightarrow> string \<Rightarrow> string \<Rightarrow> 's chat \<Rightarrow> 's chat" where
  "handle_auth_intercept d msg tid result ext instructions ch =
     (let now = now_of d ch;
          ch = (case thread_of tid ch of
                  None \<Rightarrow> ch
                | Some _ \<Rightarrow>
                    persist_assistant_response d tid (im_user_id msg) instructions
                      (on_thread tid (\<lambda>th. complete_turn instructions now (enter_auth_mode ext now th)) ch))
      in send_status (auth_status (td_chat d) ext instructions result) ch)"

definition deferred_auth ::
  "'s thread_deps \<Rightarrow> incoming_message \<Rightarrow> uuid \<Rightarrow> string \<Rightarrow> worker_error + string \<Rightarrow> string option \<Rightarrow> 's chat \<Rightarrow> string option \<times> 's chat" where
  "deferred_auth d msg tid name result auth ch =
     (case auth of
        Some a \<Rightarrow> (Some a, ch)
      | None \<Rightarrow>
          (case check_auth_required (td_chat d) name result of
             None \<Rightarrow> (None, ch)
           | Some (ext, instructions) \<Rightarrow>
               (Some instructions, handle_auth_intercept d msg tid result ext instructions ch)))"

fun deferred_postflight ::
  "'s thread_deps \<Rightarrow> incoming_message \<Rightarrow> uuid \<Rightarrow> (tool_call \<times> (worker_error + string)) list \<Rightarrow> string option \<Rightarrow> chat_message list \<Rightarrow> 's chat
   \<Rightarrow> string option \<times> chat_message list \<times> 's chat" where
  "deferred_postflight d msg tid [] auth ms ch = (auth, ms, ch)"
| "deferred_postflight d msg tid ((tc, result) # rest) auth ms ch =
     (case deferred_auth d msg tid (tc_name tc) result auth
             (record_result (td_chat d) tid result (preview_result (tc_name tc) result ch)) of
        (auth, ch) \<Rightarrow>
          deferred_postflight d msg tid rest auth
            (ms @ [result_message (td_chat d) (error_text d) (tc_id tc) (tc_name tc) result]) ch)"

definition continue_turn ::
  "'s thread_deps \<Rightarrow> incoming_message \<Rightarrow> uuid \<Rightarrow> chat_message list \<Rightarrow> undo_manager \<Rightarrow> 's chat \<Rightarrow> 's handled" where
  "continue_turn d msg tid ms um ch =
     (case run_agentic_loop (td_chat d) msg tid ms ch of
        (result, ch) \<Rightarrow>
          (case thread_of tid ch of
             None \<Rightarrow> (Inl (missing_thread tid), um, ch)
           | Some _ \<Rightarrow> (case finish_turn d False msg tid result ch of (r, ch) \<Rightarrow> (Inr r, um, ch))))"

definition run_deferred ::
  "'s thread_deps \<Rightarrow> incoming_message \<Rightarrow> uuid \<Rightarrow> job_context \<Rightarrow> tool_call list \<Rightarrow> chat_message list \<Rightarrow> undo_manager \<Rightarrow> 's chat \<Rightarrow> 's handled" where
  "run_deferred d msg tid job deferred ms um ch =
     (let ch = (if deferred \<noteq> []
                then send_status (SU_Thinking (''Executing '' @ show_nat (length deferred) @ '' deferred tool(s)...'')) ch else ch);
          reg = ch_ext ch
      in case deferred_preflight d ch 0 deferred of
           (runnable, ask) \<Rightarrow>
             (case run_all (td_chat d) job runnable ch of
                (results, ch) \<Rightarrow>
                  (case deferred_postflight d msg tid (zip runnable results) None ms ch of
                     (Some instructions, ms, ch) \<Rightarrow> (Inr (result_response instructions), um, ch)
                   | (None, ms, ch) \<Rightarrow>
                       (case ask of
                          Some (i, tc) \<Rightarrow>
                            (case ask_approval d tid (pending_for (td_chat d) reg (fresh_of d ch) tc ms (drop (i + 1) deferred)) ch of
                               (r, ch) \<Rightarrow> (Inr r, um, ch))
                        | None \<Rightarrow> continue_turn d msg tid ms um ch))))"

definition run_approved ::
  "'s thread_deps \<Rightarrow> incoming_message \<Rightarrow> uuid \<Rightarrow> bool \<Rightarrow> pending_approval \<Rightarrow> undo_manager \<Rightarrow> 's chat \<Rightarrow> 's handled" where
  "run_approved d msg tid always p um ch =
     (let c = td_chat d; name = pending_approval.pa_tool_name p;
          ch = (if always then ch\<lparr>ch_session := auto_approve_tool name (ch_session ch)\<rparr> else ch);
          ch = on_thread tid (\<lambda>th. th\<lparr>thread_state := Thread_Processing\<rparr>) ch;
          job = job_with_user (fresh_of d ch) (im_user_id msg) ''chat'' ''Interactive chat session'' (now_of d ch);
          ch = send_status (SU_ToolStarted name) ch
      in case execute_chat_tool_standalone c name (pending_approval.pa_parameters p) job ch of
           (result, ch) \<Rightarrow>
             (let ch = send_status (tool_completed c name result (pa_display_parameters p) (cd_tool c (ch_ext ch) name)) ch;
                  ch = record_result c tid result (preview_result name result ch)
              in case check_auth_required c name result of
                   Some (ext, instructions) \<Rightarrow>
                     (Inr (result_response instructions), um, handle_auth_intercept d msg tid result ext instructions ch)
                 | None \<Rightarrow>
                     run_deferred d msg tid job (pa_deferred_tool_calls p)
                       (pa_context_messages p @ [result_message c (error_text d) (pa_tool_call_id p) name result]) um ch))"

definition rejection_text :: "string \<Rightarrow> string" where
  "rejection_text name =
     ''Tool '' @ [CHR 0x27] @ name @ [CHR 0x27] @ '' was rejected. The agent will not execute this tool.''
     @ [CHR 0x0A, CHR 0x0A] @ ''You can continue the conversation or try a different approach.''"

definition reject_pending ::
  "'s thread_deps \<Rightarrow> incoming_message \<Rightarrow> uuid \<Rightarrow> pending_approval \<Rightarrow> undo_manager \<Rightarrow> 's chat \<Rightarrow> 's handled" where
  "reject_pending d msg tid p um ch =
     (let rejection = rejection_text (pending_approval.pa_tool_name p); now = now_of d ch;
          ch = (case thread_of tid ch of
                  None \<Rightarrow> ch
                | Some _ \<Rightarrow>
                    persist_assistant_response d tid (im_user_id msg) rejection
                      (on_thread tid (\<lambda>th. complete_turn rejection now (clear_pending_approval now th)) ch))
      in (Inr (result_response rejection), um, send_status (SU_Status ''Rejected'') ch))"

definition process_approval ::
  "'s thread_deps \<Rightarrow> incoming_message \<Rightarrow> uuid \<Rightarrow> uuid option \<Rightarrow> bool \<Rightarrow> bool \<Rightarrow> undo_manager \<Rightarrow> 's chat \<Rightarrow> 's handled" where
  "process_approval d msg tid request_id approved always um ch =
     (case thread_of tid ch of
        None \<Rightarrow> (Inl (missing_thread tid), um, ch)
      | Some th \<Rightarrow>
          (if thread_state th \<noteq> Thread_AwaitingApproval then (Inr (ok_with_message []), um, ch)
           else case take_pending_approval th of
                  (None, th) \<Rightarrow> (Inr (ok_with_message []), um, on_thread tid (\<lambda>_. th) ch)
                | (Some p, th) \<Rightarrow>
                    (let ch = on_thread tid (\<lambda>_. th) ch
                     in if (case request_id of Some r \<Rightarrow> r \<noteq> pa_request_id p | None \<Rightarrow> False)
                        then (Inr (result_error ''Request ID mismatch. Use the correct request ID.''), um,
                              on_thread tid (await_approval p (now_of d ch)) ch)
                        else if approved then run_approved d msg tid always p um ch
                        else reject_pending d msg tid p um ch)))"

section \<open>Authentication tokens\<close>

definition set_auth :: "pending_auth option \<Rightarrow> thread \<Rightarrow> thread" where
  "set_auth a th = th\<lparr>pending_auth := a\<rparr>"

definition activated_text :: "string \<Rightarrow> string list \<Rightarrow> string" where
  "activated_text ext tools =
     ext @ '' authenticated and activated ('' @ show_nat (length tools) @ '' tools loaded).''
     @ (if tools = [] then [] else [CHR 0x0A, CHR 0x0A] @ ''Tools: '' @ join '', '' tools)"

definition process_auth_token ::
  "'s thread_deps \<Rightarrow> pending_auth \<Rightarrow> string \<Rightarrow> uuid \<Rightarrow> 's chat \<Rightarrow> string \<times> 's chat" where
  "process_auth_token d pending token tid ch =
     (let token = trim token; ext = extension_name pending; ch = on_thread tid (set_auth None) ch
      in case td_extensions d of
           None \<Rightarrow> (''Extension manager not available.'', ch)
         | Some mgr \<Rightarrow>
             (case em_auth mgr ext token (ch_ext ch) of
                (Inl e, s) \<Rightarrow>
                  (let text = ''Authentication failed for '' @ ext @ '': '' @ e
                   in (text, send_status (SU_AuthCompleted ext False text) (ch\<lparr>ch_ext := s\<rparr>)))
              | (Inr r, s) \<Rightarrow>
                  (let ch = ch\<lparr>ch_ext := s\<rparr>
                   in if ar_authenticated r
                      then (case em_activate mgr ext (ch_ext ch) of
                              (Inr tools, s) \<Rightarrow>
                                (activated_text ext tools,
                                 send_status (SU_AuthCompleted ext True (activated_text ext tools)) (ch\<lparr>ch_ext := s\<rparr>))
                            | (Inl e, s) \<Rightarrow>
                                (let text = ext @ '' authenticated successfully, but activation failed: '' @ e @ ''. Try activating manually.''
                                 in (text, send_status (SU_AuthCompleted ext True text) (ch\<lparr>ch_ext := s\<rparr>))))
                      else let text = (case ar_instructions r of Some i \<Rightarrow> i | None \<Rightarrow> ''Invalid token. Please try again.'')
                           in (text, send_status (SU_AuthRequired ext (Some text) (ar_auth_url r) (ar_setup_url r))
                                 (on_thread tid (enter_auth_mode ext (now_of d ch)) ch)))))"

section \<open>Threads of the session\<close>

definition process_new_thread :: "'s thread_deps \<Rightarrow> 's chat \<Rightarrow> submission_result \<times> 's chat" where
  "process_new_thread d ch =
     (case create_thread (fresh_of d ch) (now_of d ch) (ch_session ch) of
        (tid, sess) \<Rightarrow> (ok_with_message (''New thread: '' @ cd_show_uuid (td_chat d) tid), ch\<lparr>ch_session := sess\<rparr>))"

definition process_switch_thread :: "'s thread_deps \<Rightarrow> uuid \<Rightarrow> 's chat \<Rightarrow> submission_result \<times> 's chat" where
  "process_switch_thread d target ch =
     (case switch_thread target (now_of d ch) (ch_session ch) of
        (True, sess) \<Rightarrow> (ok_with_message (''Switched to thread '' @ cd_show_uuid (td_chat d) target), ch\<lparr>ch_session := sess\<rparr>)
      | (False, sess) \<Rightarrow> (result_error ''Thread not found.'', ch\<lparr>ch_session := sess\<rparr>))"

section \<open>What the parts leave alone\<close>

lemma save_message_fields [simp]:
  "ch_session (save_message d tid uid role content ch) = ch_session ch"
  "ch_trace (save_message d tid uid role content ch) = ch_trace ch"
  "ch_status (save_message d tid uid role content ch) = ch_status ch"
  "thread_of t (save_message d tid uid role content ch) = thread_of t ch"
  by (auto simp: save_message_def thread_of_def split: option.splits prod.splits bool.splits)

lemmas persist_defs = persist_user_message_def persist_assistant_response_def persist_tool_calls_def

lemma persist_fields [simp]:
  "ch_session (persist_user_message d tid uid content ch) = ch_session ch"
  "ch_trace (persist_user_message d tid uid content ch) = ch_trace ch"
  "ch_session (persist_assistant_response d tid uid content ch) = ch_session ch"
  "ch_trace (persist_assistant_response d tid uid content ch) = ch_trace ch"
  "ch_session (persist_tool_calls d tid uid calls ch) = ch_session ch"
  "ch_trace (persist_tool_calls d tid uid calls ch) = ch_trace ch"
  "thread_of t (persist_user_message d tid uid content ch) = thread_of t ch"
  "thread_of t (persist_assistant_response d tid uid content ch) = thread_of t ch"
  "thread_of t (persist_tool_calls d tid uid calls ch) = thread_of t ch"
  by (auto simp: persist_defs split: option.splits)

text \<open>The end of a turn adds nothing to the trace and decides the state of the thread.\<close>

definition end_state :: "worker_error + loop_result \<Rightarrow> thread_state" where
  "end_state result = (case result of Inr (LoopNeedApproval _) \<Rightarrow> Thread_AwaitingApproval | _ \<Rightarrow> Thread_Idle)"

lemma complete_and_save_effect:
  assumes "complete_and_save d msg tid resp ch = (r, ch')"
  shows "ch_session ch' = upd_thread tid (complete_turn resp (now_of d ch)) (ch_session ch)" "ch_trace ch' = ch_trace ch"
    "r = Response resp"
  using assms by (auto simp: complete_and_save_def Let_def on_thread_def result_response_def)

definition end_update :: "'s thread_deps \<Rightarrow> worker_error + loop_result \<Rightarrow> submission_result \<Rightarrow> datetime \<Rightarrow> thread \<Rightarrow> thread" where
  "end_update d result r now =
     (case result of
        Inr (LoopNeedApproval p) \<Rightarrow> await_approval p now
      | Inr (LoopResponse _) \<Rightarrow> complete_turn (case r of Response resp \<Rightarrow> resp | _ \<Rightarrow> []) now
      | Inl e \<Rightarrow> fail_turn (cd_show_error (td_chat d) e) now)"

lemma finish_turn_effect:
  assumes "finish_turn d transform msg tid result ch = (r, ch')"
  obtains now where "ch_session ch' = upd_thread tid (end_update d result r now) (ch_session ch)" "ch_trace ch' = ch_trace ch"
    "case result of Inr (LoopResponse _) \<Rightarrow> \<exists>resp. r = Response resp | _ \<Rightarrow> True"
proof (cases result)
  case (Inl e)
  then show ?thesis using assms that by (auto simp: finish_turn_def end_update_def on_thread_def)
next
  case (Inr lr)
  show ?thesis
  proof (cases lr)
    case (LoopResponse resp)
    obtain resp' s where t: "(if transform then transform_response d msg tid resp (ch_ext ch) else (resp, ch_ext ch)) = (resp', s)" by fastforce
    then have run: "complete_and_save d msg tid resp' (ch\<lparr>ch_ext := s\<rparr>) = (r, ch')"
      using assms Inr LoopResponse by (simp add: finish_turn_def)
    show ?thesis
      using that [of "now_of d (ch\<lparr>ch_ext := s\<rparr>)"] complete_and_save_effect [OF run] Inr LoopResponse by (simp add: end_update_def)
  next
    case (LoopNeedApproval p)
    then show ?thesis using assms that Inr by (auto simp: finish_turn_def end_update_def ask_approval_def on_thread_def)
  qed
qed

lemma end_update_state [simp]: "thread_state (end_update d result r now th) = end_state result"
  by (auto simp: end_update_def end_state_def await_approval_def complete_turn_def fail_turn_def split: sum.splits loop_result.splits)

lemma upd_thread_fields [simp]:
  "auto_approved_tools (upd_thread tid f sess) = auto_approved_tools sess"
  "threads (upd_thread tid f sess) t = (if t = tid then map_option f (threads sess tid) else threads sess t)"
  by (simp_all add: upd_thread_def)

lemma ch_session_on_thread [simp]: "ch_session (on_thread tid f ch) = upd_thread tid f (ch_session ch)"
  by (simp add: on_thread_def)

lemma auto_compact_fields [simp]:
  "ch_trace (auto_compact d tid th ch) = ch_trace ch"
  "auto_approved_tools (ch_session (auto_compact d tid th ch)) = auto_approved_tools (ch_session ch)"
  by (auto simp: auto_compact_def Let_def split: option.splits prod.splits)

lemma auto_compact_thread:
  assumes "thread_of tid ch = Some th"
  obtains th' where "thread_of tid (auto_compact d tid th ch) = Some th'" "thread_state th' = thread_state th"
    "pending_approval th' = pending_approval th"
    "suggest_compaction (td_monitor d) (messages th) = None \<Longrightarrow> th' = th"
proof (cases "suggest_compaction (td_monitor d) (messages th)")
  case None
  then show ?thesis using that assms by (auto simp: auto_compact_def)
next
  case (Some strategy)
  obtain r th' s where c: "compact (td_compactor d) strategy th (ch_ext ch) = (r, th', s)" using prod_cases3 by blast
  then show ?thesis
    using that [of th'] compact_state [OF c] assms Some by (simp add: auto_compact_def Let_def)
qed

section \<open>Turns end\<close>

text \<open>A thread between messages: not in the middle of a turn, and where it waits for an approval there is one.\<close>

definition thread_settled :: "thread \<Rightarrow> bool" where
  "thread_settled th \<longleftrightarrow>
     thread_state th \<noteq> Thread_Processing \<and> (thread_state th = Thread_AwaitingApproval \<longrightarrow> pending_approval th \<noteq> None)"

definition settled :: "uuid \<Rightarrow> 's chat \<Rightarrow> bool" where
  "settled tid ch \<longleftrightarrow> (case thread_of tid ch of Some th \<Rightarrow> thread_settled th | None \<Rightarrow> True)"

lemma settled_ends [simp]:
  "thread_settled (complete_turn resp now th)" "thread_settled (fail_turn err now th)"
  "thread_settled (await_approval p now th)" "thread_settled (restore_from_messages ms now th)"
  "thread_settled (thread_interrupt now th)"
  by (simp_all add: thread_settled_def thread_op_defs)

lemma end_update_settled [simp]: "thread_settled (end_update d result r now th)"
  by (simp add: end_update_def split: sum.splits loop_result.splits)

lemma finish_turn_settled: "finish_turn d transform msg tid result ch = (r, ch') \<Longrightarrow> settled tid ch'"
  by (erule finish_turn_effect)
    (auto simp: settled_def thread_of_def split: option.splits)

lemma in_loop_thread: "in_loop tid core sess \<Longrightarrow> \<exists>th. threads sess tid = Some th \<and> map turn_core (turns th) = core"
  by (auto simp: in_loop_def)

text \<open>The steps of a turn, for an existing thread.\<close>

definition turn_start :: "'s thread_deps \<Rightarrow> incoming_message \<Rightarrow> uuid \<Rightarrow> thread \<Rightarrow> string \<Rightarrow> 's chat \<Rightarrow> 's chat" where
  "turn_start d msg tid th2 content ch =
     send_status (SU_Thinking ''Processing...'') (persist_user_message d tid (im_user_id msg) content (on_thread tid (\<lambda>_. th2) ch))"

lemma turn_start_fields [simp]:
  "ch_trace (turn_start d msg tid th2 content ch) = ch_trace ch"
  "ch_session (turn_start d msg tid th2 content ch) = upd_thread tid (\<lambda>_. th2) (ch_session ch)"
  by (simp_all add: turn_start_def)

lemma run_turn_cases:
  assumes "run_turn d msg tid content um ch = (r, um', ch')" and "thread_of tid ch = Some th"
  obtains th1 th2 result ch2 where
    "thread_of tid (auto_compact d tid th ch) = Some th1"
    "th2 = start_turn content (now_of d (auto_compact d tid th ch)) th1"
    "um' = um_checkpoint (fresh_of d (auto_compact d tid th ch)) (turn_number th1) (messages th1) (''Before turn '' @ show_nat (turn_number th1)) um"
    "run_agentic_loop (td_chat d) msg tid (messages th2) (turn_start d msg tid th2 content (auto_compact d tid th ch)) = (result, ch2)"
    "thread_of tid ch2 = None \<and> ch' = ch2 \<and> r = Inl (missing_thread tid)
     \<or> (\<exists>th3. thread_of tid ch2 = Some th3 \<and> thread_state th3 = Thread_Interrupted
          \<and> ch' = send_status (SU_Status ''Interrupted'') ch2 \<and> r = Inr Interrupted)
     \<or> (\<exists>th3 r1. thread_of tid ch2 = Some th3 \<and> thread_state th3 \<noteq> Thread_Interrupted
          \<and> finish_turn d True msg tid result ch2 = (r1, ch') \<and> r = Inr r1)"
proof -
  obtain th1 where th1: "thread_of tid (auto_compact d tid th ch) = Some th1" by (rule auto_compact_thread [OF assms(2)])
  define th2 where "th2 = start_turn content (now_of d (auto_compact d tid th ch)) th1"
  obtain result ch2 where loop: "run_agentic_loop (td_chat d) msg tid (messages th2) (turn_start d msg tid th2 content (auto_compact d tid th ch)) = (result, ch2)" by fastforce
  show ?thesis
    by (rule that [OF th1 th2_def _ loop])
      (use assms th1 loop in \<open>auto simp: run_turn_def Let_def turn_start_def simp flip: th2_def split: option.splits if_splits prod.splits\<close>)
qed

lemma run_turn_settled:
  assumes "settled tid ch" and "run_turn d msg tid content um ch = (r, um', ch')"
  shows "settled tid ch'"
proof (cases "thread_of tid ch")
  case None
  then show ?thesis using assms by (simp add: run_turn_def)
next
  case (Some th)
  show ?thesis
    by (rule run_turn_cases [OF assms(2) Some]) (auto simp: settled_def thread_settled_def dest!: finish_turn_settled)
qed

lemma process_user_input_settled:
  "settled tid ch \<Longrightarrow> process_user_input d msg tid content um ch = (r, um', ch') \<Longrightarrow> settled tid ch'"
  by (auto simp: process_user_input_def run_turn_settled settled_def split: option.splits if_splits prod.splits
      dest: run_turn_settled [unfolded settled_def, rotated])

lemma handle_auth_intercept_settled: "settled tid (handle_auth_intercept d msg tid result ext instructions ch)"
  by (auto simp: handle_auth_intercept_def Let_def settled_def split: option.splits)

lemma record_result_settled: "settled tid (record_result c tid result ch) = settled tid ch"
  by (auto simp: record_result_def settled_def thread_settled_def on_last_turn_def split: option.splits)

lemma deferred_auth_settled:
  "deferred_auth d msg tid name result auth ch = (auth', ch') \<Longrightarrow> (auth \<noteq> None \<Longrightarrow> settled tid ch) \<Longrightarrow> auth' \<noteq> None \<Longrightarrow> settled tid ch'"
  by (auto simp: deferred_auth_def handle_auth_intercept_settled split: option.splits)

lemma deferred_postflight_settled:
  "deferred_postflight d msg tid es auth ms ch = (auth', ms', ch') \<Longrightarrow> (auth \<noteq> None \<Longrightarrow> settled tid ch) \<Longrightarrow> auth' \<noteq> None \<Longrightarrow> settled tid ch'"
proof (induction es arbitrary: auth ms ch)
  case (Cons e es)
  obtain tc result where e: "e = (tc, result)" by fastforce
  obtain a c where def: "deferred_auth d msg tid (tc_name tc) result auth
    (record_result (td_chat d) tid result (preview_result (tc_name tc) result ch)) = (a, c)" by fastforce
  have "settled tid c" if "a \<noteq> None"
    using deferred_auth_settled [OF def _ that] Cons.prems(2) by (simp add: record_result_settled) (simp add: settled_def)
  then show ?case
    using Cons.IH Cons.prems(1,3) def e by auto
qed auto

lemma ask_approval_settled: "ask_approval d tid p ch = (r, ch') \<Longrightarrow> settled tid ch'"
  by (auto simp: ask_approval_def settled_def split: option.splits)

lemma continue_turn_settled: "continue_turn d msg tid ms um ch = (r, um', ch') \<Longrightarrow> settled tid ch'"
  by (auto simp: continue_turn_def split: prod.splits option.splits dest: finish_turn_settled) (auto simp: settled_def)

lemma run_deferred_settled: "run_deferred d msg tid job deferred ms um ch = (r, um', ch') \<Longrightarrow> settled tid ch'"
  by (auto simp: run_deferred_def Let_def split: prod.splits option.splits if_splits
      dest: deferred_postflight_settled ask_approval_settled continue_turn_settled)

lemma run_approved_settled: "run_approved d msg tid always p um ch = (r, um', ch') \<Longrightarrow> settled tid ch'"
  by (auto simp: run_approved_def Let_def handle_auth_intercept_settled split: prod.splits option.splits
      dest: run_deferred_settled)

lemma reject_pending_settled: "reject_pending d msg tid p um ch = (r, um', ch') \<Longrightarrow> settled tid ch'"
  by (auto simp: reject_pending_def Let_def settled_def split: option.splits)

lemma process_approval_settled:
  assumes "settled tid ch" and "process_approval d msg tid rid approved always um ch = (r, um', ch')"
  shows "settled tid ch'"
proof (cases "thread_of tid ch")
  case None
  then show ?thesis using assms by (simp add: process_approval_def)
next
  case (Some th)
  then show ?thesis
    using assms run_approved_settled reject_pending_settled
    by (auto simp: process_approval_def Let_def take_pending_approval_def split: option.splits if_splits prod.splits)
      (auto simp: settled_def thread_settled_def await_approval_def)
qed

section \<open>Consent\<close>

text \<open>Everything added to the trace was allowed without asking.\<close>

definition adds_ok :: "'s thread_deps \<Rightarrow> string set \<Rightarrow> 's chat \<Rightarrow> 's chat \<Rightarrow> bool" where
  "adds_ok d A ch ch' \<longleftrightarrow> (\<exists>new. ch_trace ch' = ch_trace ch @ new \<and> list_all (run_ok (td_chat d) A) new)"

lemma adds_ok_same: "ch_trace ch' = ch_trace ch \<Longrightarrow> adds_ok d A ch ch'"
  by (simp add: adds_ok_def)

lemma adds_ok_trans: "adds_ok d A ch ch1 \<Longrightarrow> adds_ok d A ch1 ch2 \<Longrightarrow> adds_ok d A ch ch2"
  by (force simp: adds_ok_def)

lemma adds_ok_trace: "adds_ok d A ch ch1 \<Longrightarrow> ch_trace ch2 = ch_trace ch1 \<Longrightarrow> ch_trace ch0 = ch_trace ch \<Longrightarrow> adds_ok d A ch0 ch2"
  by (simp add: adds_ok_def)

lemma loop_adds_ok:
  assumes "keeps_approvals (td_chat d)" and "run_agentic_loop (td_chat d) msg tid ms ch = (r, ch')"
    and "auto_approved_tools (ch_session ch) \<subseteq> A"
  shows "adds_ok d A ch ch'"
  using chat_loop_gated [OF assms] by (simp add: adds_ok_def)

lemma finish_turn_trace: "finish_turn d transform msg tid result ch = (r, ch') \<Longrightarrow> ch_trace ch' = ch_trace ch"
  by (erule finish_turn_effect)

lemma run_turn_adds_ok:
  assumes "keeps_approvals (td_chat d)" and "run_turn d msg tid content um ch = (r, um', ch')"
  shows "adds_ok d (auto_approved_tools (ch_session ch)) ch ch'"
proof (cases "thread_of tid ch")
  case None
  then show ?thesis using assms by (simp add: run_turn_def adds_ok_same)
next
  case (Some th)
  show ?thesis
  proof (rule run_turn_cases [OF assms(2) Some])
    fix th1 th2 result ch2
    assume loop: "run_agentic_loop (td_chat d) msg tid (messages th2) (turn_start d msg tid th2 content (auto_compact d tid th ch)) = (result, ch2)"
      and "thread_of tid ch2 = None \<and> ch' = ch2 \<and> r = Inl (missing_thread tid)
     \<or> (\<exists>th3. thread_of tid ch2 = Some th3 \<and> thread_state th3 = Thread_Interrupted
          \<and> ch' = send_status (SU_Status ''Interrupted'') ch2 \<and> r = Inr Interrupted)
     \<or> (\<exists>th3 r1. thread_of tid ch2 = Some th3 \<and> thread_state th3 \<noteq> Thread_Interrupted
          \<and> finish_turn d True msg tid result ch2 = (r1, ch') \<and> r = Inr r1)"
    then have "ch_trace ch' = ch_trace ch2" by (auto dest: finish_turn_trace)
    then show ?thesis
      using adds_ok_trace [OF loop_adds_ok [OF assms(1) loop]] by simp
  qed
qed

lemma process_user_input_adds_ok:
  assumes "keeps_approvals (td_chat d)" and "process_user_input d msg tid content um ch = (r, um', ch')"
  shows "adds_ok d (auto_approved_tools (ch_session ch)) ch ch'"
  using assms run_turn_adds_ok [OF assms(1)]
  by (auto simp: process_user_input_def adds_ok_same split: option.splits if_splits prod.splits)

lemma deferred_preflight_split:
  "deferred_preflight d ch idx tcs = (run, ask) \<Longrightarrow>
   \<exists>rest. tcs = run @ rest \<and> (\<forall>tc \<in> set run. \<not> deferred_needs_approval d ch tc)
     \<and> (case ask of None \<Rightarrow> rest = [] | Some (i, tc) \<Rightarrow> i = idx + length run \<and> (\<exists>tl. rest = tc # tl))"
proof (induction tcs arbitrary: idx run ask)
  case (Cons tc tcs)
  obtain run' ask' where rec: "deferred_preflight d ch (Suc idx) tcs = (run', ask')" by fastforce
  show ?case using Cons.prems Cons.IH [OF rec] rec by (auto split: if_splits option.splits)
qed simp

lemma deferred_run_ok:
  assumes "\<not> deferred_needs_approval d ch tc" and "auto_approved_tools (ch_session ch) \<subseteq> A"
  shows "run_ok (td_chat d) A (run_of tc)"
proof -
  have "case cd_tool (td_chat d) (ch_ext ch) (tc_name tc) of
         None \<Rightarrow> True
       | Some t \<Rightarrow>
           tool_requires_approval t (tc_arguments tc) = Never
           \<or> tool_requires_approval t (tc_arguments tc) = UnlessAutoApproved \<and> tc_name tc \<in> A"
    using assms by (auto simp: deferred_needs_approval_def is_tool_auto_approved_def split: option.splits approval_requirement.splits)
  then show ?thesis unfolding run_of_def run_ok.simps unasked_def by blast
qed

lemma handle_auth_intercept_fields [simp]:
  "ch_trace (handle_auth_intercept d msg tid result ext i ch) = ch_trace ch"
  "auto_approved_tools (ch_session (handle_auth_intercept d msg tid result ext i ch)) = auto_approved_tools (ch_session ch)"
  by (auto simp: handle_auth_intercept_def Let_def split: option.splits)

lemma deferred_auth_fields:
  "deferred_auth d msg tid name result auth ch = (auth', ch') \<Longrightarrow>
   ch_trace ch' = ch_trace ch \<and> auto_approved_tools (ch_session ch') = auto_approved_tools (ch_session ch)"
  by (auto simp: deferred_auth_def split: option.splits)

lemma deferred_postflight_fields:
  "deferred_postflight d msg tid es auth ms ch = (auth', ms', ch') \<Longrightarrow>
   ch_trace ch' = ch_trace ch \<and> auto_approved_tools (ch_session ch') = auto_approved_tools (ch_session ch)"
proof (induction es arbitrary: auth ms ch)
  case (Cons e es)
  obtain tc result where e: "e = (tc, result)" by fastforce
  obtain a c where def: "deferred_auth d msg tid (tc_name tc) result auth
    (record_result (td_chat d) tid result (preview_result (tc_name tc) result ch)) = (a, c)" by fastforce
  show ?case
    using deferred_auth_fields [OF def] Cons.IH Cons.prems def e by (auto simp: record_result_def)
qed simp

lemma ask_approval_fields:
  "ask_approval d tid p ch = (r, ch') \<Longrightarrow> ch_trace ch' = ch_trace ch \<and> ch_session ch' = upd_thread tid (await_approval p (now_of d ch)) (ch_session ch)"
  by (auto simp: ask_approval_def)

lemma continue_turn_adds_ok:
  assumes "keeps_approvals (td_chat d)" and "continue_turn d msg tid ms um ch = (r, um', ch')"
    and "auto_approved_tools (ch_session ch) \<subseteq> A"
  shows "adds_ok d A ch ch'"
proof -
  obtain result ch2 where loop: "run_agentic_loop (td_chat d) msg tid ms ch = (result, ch2)" by fastforce
  then have "ch_trace ch' = ch_trace ch2"
    using assms(2) by (auto simp: continue_turn_def split: prod.splits option.splits dest: finish_turn_trace)
  then show ?thesis using adds_ok_trace [OF loop_adds_ok [OF assms(1) loop assms(3)]] by simp
qed

lemma run_all_approvals:
  assumes "keeps_approvals c" and "run_all c job tcs ch = (results, ch')" and "auto_approved_tools (ch_session ch) \<subseteq> A"
  shows "auto_approved_tools (ch_session ch') \<subseteq> A"
  using approvals.run_all_keeps [where deps = c and ch = ch and A = A and job = job and tcs = tcs] assms by simp

lemma run_deferred_adds_ok:
  assumes keep: "keeps_approvals (td_chat d)" and run: "run_deferred d msg tid job deferred ms um ch = (r, um', ch')"
    and A: "auto_approved_tools (ch_session ch) \<subseteq> A"
  shows "adds_ok d A ch ch'"
proof -
  define ch0 where "ch0 = (if deferred \<noteq> []
    then send_status (SU_Thinking (''Executing '' @ show_nat (length deferred) @ '' deferred tool(s)...'')) ch else ch)"
  have ch0: "ch_trace ch0 = ch_trace ch" "ch_session ch0 = ch_session ch" by (simp_all add: ch0_def)
  obtain runnable ask where pre: "deferred_preflight d ch0 0 deferred = (runnable, ask)" by fastforce
  obtain results ch1 where all: "run_all (td_chat d) job runnable ch0 = (results, ch1)" by fastforce
  obtain auth ms2 ch2 where post: "deferred_postflight d msg tid (zip runnable results) None ms ch1 = (auth, ms2, ch2)" using prod_cases3 by blast
  obtain new where new: "ch_trace ch1 = ch_trace ch0 @ new" "set new \<subseteq> run_of ` set runnable"
    using run_all_trace [of "td_chat d" job runnable ch0] all by auto
  have "run_ok (td_chat d) A e" if "e \<in> set new" for e
    using that new(2) deferred_preflight_split [OF pre] deferred_run_ok [of d ch0 _ A] A ch0 by fastforce
  then have one: "adds_ok d A ch ch2"
    using new(1) ch0 deferred_postflight_fields [OF post] by (auto simp: adds_ok_def list_all_iff)
  have A2: "auto_approved_tools (ch_session ch2) \<subseteq> A"
    using deferred_postflight_fields [OF post] run_all_approvals [OF keep all] A ch0 by simp
  show ?thesis
    using run pre all post one adds_ok_trans [OF one continue_turn_adds_ok [OF keep _ A2]] adds_ok_trace [OF one]
    unfolding run_deferred_def Let_def ch0_def [symmetric]
    by (auto split: option.splits prod.splits dest!: ask_approval_fields)
qed

lemma execute_approvals:
  assumes "keeps_approvals c" and "execute_chat_tool_standalone c n p job ch = (result, ch')" and "auto_approved_tools (ch_session ch) \<subseteq> A"
  shows "auto_approved_tools (ch_session ch') \<subseteq> A"
  using approvals.execute_keeps [where deps = c and ch = ch and A = A and n = n and p = p and job = job] assms by simp

lemma run_approved_adds:
  assumes keep: "keeps_approvals (td_chat d)" and run: "run_approved d msg tid always p um ch = (r, um', ch')"
  shows "\<exists>new first. ch_trace ch' = ch_trace ch @ first @ new
    \<and> first \<in> {[], [CtRun (pending_approval.pa_tool_name p) (pending_approval.pa_parameters p)]}
    \<and> list_all (run_ok (td_chat d) (auto_approved_tools (ch_session ch) \<union> (if always then {pending_approval.pa_tool_name p} else {}))) new"
proof -
  define name where "name = pending_approval.pa_tool_name p"
  define A where "A = auto_approved_tools (ch_session ch) \<union> (if always then {name} else {})"
  define ch0 where "ch0 = on_thread tid (\<lambda>th. th\<lparr>thread_state := Thread_Processing\<rparr>)
    (if always then ch\<lparr>ch_session := auto_approve_tool name (ch_session ch)\<rparr> else ch)"
  define job where "job = job_with_user (fresh_of d ch0) (im_user_id msg) ''chat'' ''Interactive chat session'' (now_of d ch0)"
  have ch0: "ch_trace ch0 = ch_trace ch" "auto_approved_tools (ch_session ch0) \<subseteq> A"
    by (auto simp: ch0_def A_def auto_approve_tool_def)
  obtain result ch1 where exec: "execute_chat_tool_standalone (td_chat d) name (pending_approval.pa_parameters p) job (send_status (SU_ToolStarted name) ch0) = (result, ch1)" by fastforce
  obtain first where first: "ch_trace ch1 = ch_trace ch @ first" "first \<in> {[], [CtRun name (pending_approval.pa_parameters p)]}"
    using execute_trace [of "td_chat d" name "pending_approval.pa_parameters p" job "send_status (SU_ToolStarted name) ch0"] exec ch0(1) by auto
  define ch2 where "ch2 = record_result (td_chat d) tid result (preview_result name result
    (send_status (tool_completed (td_chat d) name result (pa_display_parameters p) (cd_tool (td_chat d) (ch_ext ch1) name)) ch1))"
  have ch2: "ch_trace ch2 = ch_trace ch1" "auto_approved_tools (ch_session ch2) \<subseteq> A"
    using execute_approvals [OF keep exec] ch0 by (simp_all add: ch2_def record_result_def)
  have "adds_ok d A ch2 ch'"
    using run exec run_deferred_adds_ok [OF keep _ ch2(2)] adds_ok_same [of "handle_auth_intercept d msg tid result e i ch2" ch2 d A for e i]
    unfolding run_approved_def Let_def name_def [symmetric] ch0_def [symmetric] job_def [symmetric]
    by (auto simp: ch2_def split: option.splits)
  then obtain new where "ch_trace ch' = ch_trace ch @ first @ new" "list_all (run_ok (td_chat d) A) new"
    using first(1) ch2(1) by (auto simp: adds_ok_def)
  then show ?thesis
    using first(2) unfolding A_def name_def by blast
qed

section \<open>Conversations with the model\<close>

definition pendings_ok :: "session \<Rightarrow> bool" where
  "pendings_ok sess \<longleftrightarrow>
     (\<forall>tid th p. threads sess tid = Some th \<longrightarrow> pending_approval th = Some p \<longrightarrow> pending_ok p)"

text \<open>Other tasks put no approvals into threads.\<close>

definition keeps_pendings :: "'s chat_deps \<Rightarrow> bool" where
  "keeps_pendings c \<longleftrightarrow> (\<forall>sess s. pendings_ok sess \<longrightarrow> pendings_ok (fst (cd_others c sess s)))"

lemma pendings_ok_upd:
  assumes "pendings_ok sess"
    and "\<And>th p. threads sess tid = Some th \<Longrightarrow> pending_approval (f th) = Some p \<Longrightarrow> pending_approval th = Some p \<or> pending_ok p"
  shows "pendings_ok (upd_thread tid f sess)"
  unfolding pendings_ok_def
proof (intro allI impI)
  fix t th p
  assume th: "threads (upd_thread tid f sess) t = Some th" "pending_approval th = Some p"
  show "pending_ok p"
  proof (cases "t = tid")
    case True
    then obtain th0 where "threads sess tid = Some th0" "th = f th0" using th(1) by auto
    then show ?thesis using assms th(2) unfolding pendings_ok_def by blast
  next
    case False
    then show ?thesis using assms(1) th unfolding pendings_ok_def by auto
  qed
qed

lemma pendings_ok_upd_same:
  "pendings_ok sess \<Longrightarrow> (\<And>th. pending_approval (f th) \<in> {pending_approval th, None}) \<Longrightarrow> pendings_ok (upd_thread tid f sess)"
  by (rule pendings_ok_upd) (auto, metis insertE option.distinct(1) singletonD)

interpretation pendings: session_keeper c tid "\<lambda>sess. keeps_pendings c \<and> pendings_ok sess" for c tid
  by unfold_locales
    (auto simp: keeps_pendings_def on_last_turn_def enter_auth_mode_def intro!: pendings_ok_upd_same)

definition chat_ok :: "'s thread_deps \<Rightarrow> 's chat \<Rightarrow> bool" where
  "chat_ok d ch \<longleftrightarrow> keeps_pendings (td_chat d) \<and> asks_ok ch \<and> pendings_ok (ch_session ch)"

lemma answered_turns: "answered (turn_messages ts)"
  unfolding answered_def
proof (induction ts)
  case (Cons t ts)
  then show ?case by (cases "response t") simp_all
qed simp

lemma answered_messages: "answered (messages th)"
  by (simp add: messages_def answered_turns)

lemma end_update_pending:
  "pending_approval (end_update d result r now th) =
     (case result of Inr (LoopNeedApproval p) \<Rightarrow> Some p | _ \<Rightarrow> pending_approval th)"
  by (auto simp: end_update_def await_approval_def complete_turn_def fail_turn_def split: sum.splits loop_result.splits)

lemma finish_turn_ok:
  assumes "chat_ok d ch" and "\<And>p. result = Inr (LoopNeedApproval p) \<Longrightarrow> pending_ok p"
    and "finish_turn d transform msg tid result ch = (r, ch')"
  shows "chat_ok d ch'"
  by (rule finish_turn_effect [OF assms(3)])
    (use assms(1,2) in \<open>auto simp: chat_ok_def asks_ok_def end_update_pending intro!: pendings_ok_upd
      split: sum.splits loop_result.splits\<close>)

lemma loop_ok:
  assumes "chat_ok d ch" and "answered ms" and "run_agentic_loop (td_chat d) msg tid ms ch = (result, ch')"
  shows "chat_ok d ch' \<and> (\<forall>p. result = Inr (LoopNeedApproval p) \<longrightarrow> pending_ok p)"
  using protocol.loop_stop [OF _ assms(3)] pendings.kept.loop_stop [OF _ assms(3)] assms(1,2) by (simp add: chat_ok_def)

lemma auto_compact_ok: "chat_ok d ch \<Longrightarrow> thread_of tid ch = Some th \<Longrightarrow> chat_ok d (auto_compact d tid th ch)"
  by (auto simp: chat_ok_def asks_ok_def)
    (auto simp: auto_compact_def Let_def thread_of_def intro!: pendings_ok_upd split: option.splits prod.splits dest: compact_state(3))

lemma chat_ok_status [simp]: "chat_ok d (send_status st ch) = chat_ok d ch"
  by (simp add: chat_ok_def asks_ok_def)

lemma run_turn_ok:
  assumes "chat_ok d ch" and "run_turn d msg tid content um ch = (r, um', ch')"
  shows "chat_ok d ch'"
proof (cases "thread_of tid ch")
  case None
  then show ?thesis using assms by (simp add: run_turn_def)
next
  case (Some th)
  show ?thesis
  proof (rule run_turn_cases [OF assms(2) Some])
    fix th1 th2 result ch2
    let ?ch0 = "auto_compact d tid th ch"
    assume th1: "thread_of tid ?ch0 = Some th1" and th2: "th2 = start_turn content (now_of d ?ch0) th1"
      and loop: "run_agentic_loop (td_chat d) msg tid (messages th2) (turn_start d msg tid th2 content ?ch0) = (result, ch2)"
      and cases: "thread_of tid ch2 = None \<and> ch' = ch2 \<and> r = Inl (missing_thread tid)
     \<or> (\<exists>th3. thread_of tid ch2 = Some th3 \<and> thread_state th3 = Thread_Interrupted
          \<and> ch' = send_status (SU_Status ''Interrupted'') ch2 \<and> r = Inr Interrupted)
     \<or> (\<exists>th3 r1. thread_of tid ch2 = Some th3 \<and> thread_state th3 \<noteq> Thread_Interrupted
          \<and> finish_turn d True msg tid result ch2 = (r1, ch') \<and> r = Inr r1)"
    have "chat_ok d ?ch0" using auto_compact_ok assms(1) Some by blast
    then have "chat_ok d (turn_start d msg tid th2 content ?ch0)"
      using th1 th2 by (auto simp: chat_ok_def asks_ok_def thread_of_def start_turn_def Let_def intro!: pendings_ok_upd)
    from loop_ok [OF this answered_messages loop] cases show ?thesis
      by (auto intro: finish_turn_ok)
  qed
qed

lemma process_user_input_ok:
  assumes "chat_ok d ch" and "process_user_input d msg tid content um ch = (r, um', ch')"
  shows "chat_ok d ch'"
  using assms run_turn_ok [OF assms(1)]
  by (auto simp: process_user_input_def chat_ok_def asks_ok_def split: option.splits if_splits prod.splits)

lemma continue_turn_ok:
  assumes "chat_ok d ch" and "answered ms" and "continue_turn d msg tid ms um ch = (r, um', ch')"
  shows "chat_ok d ch'"
proof -
  obtain result ch2 where loop: "run_agentic_loop (td_chat d) msg tid ms ch = (result, ch2)" by fastforce
  show ?thesis
    using loop_ok [OF assms(1,2) loop] assms(3) loop
    by (auto simp: continue_turn_def split: option.splits prod.splits intro: finish_turn_ok)
qed

lemma ask_approval_ok: "chat_ok d ch \<Longrightarrow> pending_ok p \<Longrightarrow> ask_approval d tid p ch = (r, ch') \<Longrightarrow> chat_ok d ch'"
  by (auto simp: ask_approval_def chat_ok_def asks_ok_def await_approval_def intro!: pendings_ok_upd)

lemma result_message_answers: "answers i (result_message c f i n r)"
  by simp

lemma deferred_postflight_messages:
  "deferred_postflight d msg tid es auth ms ch = (auth', ms', ch') \<Longrightarrow>
   \<exists>rs. ms' = ms @ rs \<and> list_all2 (\<lambda>e m. answers (tc_id (fst e)) m) es rs"
proof (induction es arbitrary: auth ms ch)
  case (Cons e es)
  obtain tc result where e: "e = (tc, result)" by fastforce
  obtain a c where "deferred_auth d msg tid (tc_name tc) result auth
    (record_result (td_chat d) tid result (preview_result (tc_name tc) result ch)) = (a, c)" by fastforce
  then obtain rs where "ms' = (ms @ [result_message (td_chat d) (error_text d) (tc_id tc) (tc_name tc) result]) @ rs"
    "list_all2 (\<lambda>e m. answers (tc_id (fst e)) m) es rs"
    using Cons.IH Cons.prems e by fastforce
  then show ?case
    by (intro exI [of _ "result_message (td_chat d) (error_text d) (tc_id tc) (tc_name tc) result # rs"]) (simp add: e)
qed simp

lemma chat_okI: "chat_ok d ch \<Longrightarrow> ch_session ch' = ch_session ch \<Longrightarrow> asks_ok ch' \<Longrightarrow> chat_ok d ch'"
  by (simp add: chat_ok_def)

lemma handle_auth_intercept_ok: "chat_ok d ch \<Longrightarrow> chat_ok d (handle_auth_intercept d msg tid result ext i ch)"
  by (auto simp: handle_auth_intercept_def Let_def chat_ok_def asks_ok_def complete_turn_def enter_auth_mode_def
      intro!: pendings_ok_upd_same split: option.splits)

lemma record_result_ok: "chat_ok d ch \<Longrightarrow> chat_ok d (record_result (td_chat d) tid result (preview_result n result ch))"
  using pendings.record_result_keeps [where c = "td_chat d" and ch = "preview_result n result ch" and tid = tid and r = result]
  by (simp add: chat_ok_def asks_ok_def)

lemma deferred_auth_ok: "chat_ok d ch \<Longrightarrow> deferred_auth d msg tid n result auth ch = (auth', ch') \<Longrightarrow> chat_ok d ch'"
  by (auto simp: deferred_auth_def handle_auth_intercept_ok split: option.splits)

lemma deferred_postflight_ok:
  "chat_ok d ch \<Longrightarrow> deferred_postflight d msg tid es auth ms ch = (auth', ms', ch') \<Longrightarrow> chat_ok d ch'"
proof (induction es arbitrary: auth ms ch)
  case (Cons e es)
  then show ?case
    by (cases e) (auto split: prod.splits dest: deferred_auth_ok [OF record_result_ok])
qed simp

lemma run_all_ok:
  assumes "chat_ok d ch" and "run_all (td_chat d) job tcs ch = (results, ch')"
  shows "chat_ok d ch'"
proof -
  obtain new where "ch_trace ch' = ch_trace ch @ new" "set new \<subseteq> run_of ` set tcs"
    using run_all_trace [of "td_chat d" job tcs ch] assms(2) by auto
  then have "asks_ok ch'"
    using assms(1) by (fastforce simp: chat_ok_def asks_ok_def run_of_def list_all_iff)
  then show ?thesis
    using pendings.run_all_keeps [where c = "td_chat d" and ch = ch and job = job and tcs = tcs] assms by (simp add: chat_ok_def)
qed

lemma execute_ok:
  assumes "chat_ok d ch" and "execute_chat_tool_standalone (td_chat d) n p job ch = (result, ch')"
  shows "chat_ok d ch'"
proof -
  have "asks_ok ch'"
    using execute_trace [of "td_chat d" n p job ch] assms by (auto simp: chat_ok_def asks_ok_def)
  then show ?thesis
    using pendings.execute_keeps [where c = "td_chat d" and ch = ch and job = job and n = n and p = p] assms by (simp add: chat_ok_def)
qed

text \<open>The deferred calls of an approval are exactly those still without result.\<close>

lemma run_deferred_ok:
  assumes ok: "chat_ok d ch" and out: "outstanding [] ms = Some (map tc_id deferred)"
    and run: "run_deferred d msg tid job deferred ms um ch = (r, um', ch')"
  shows "chat_ok d ch'"
proof -
  define ch0 where "ch0 = (if deferred \<noteq> []
    then send_status (SU_Thinking (''Executing '' @ show_nat (length deferred) @ '' deferred tool(s)...'')) ch else ch)"
  obtain runnable ask where pre: "deferred_preflight d ch0 0 deferred = (runnable, ask)" by fastforce
  obtain results ch1 where all: "run_all (td_chat d) job runnable ch0 = (results, ch1)" by fastforce
  obtain auth ms2 ch2 where post: "deferred_postflight d msg tid (zip runnable results) None ms ch1 = (auth, ms2, ch2)" using prod_cases3 by blast
  have ch2: "chat_ok d ch2"
    using ok run_all_ok [OF _ all] deferred_postflight_ok [OF _ post] by (simp add: ch0_def split: if_splits)
  obtain rest where rest: "deferred = runnable @ rest"
    "case ask of None \<Rightarrow> rest = [] | Some (i, tc) \<Rightarrow> i = length runnable \<and> (\<exists>tl. rest = tc # tl)"
    using deferred_preflight_split [OF pre] by (metis add_0)
  have "length results = length runnable" using length_run_all [of "td_chat d" job runnable ch0] all by simp
  moreover obtain rs where rs: "ms2 = ms @ rs" "list_all2 (\<lambda>e m. answers (tc_id (fst e)) m) (zip runnable results) rs"
    using deferred_postflight_messages [OF post] by blast
  ultimately have "list_all2 answers (map tc_id runnable) rs"
    by (auto simp: list_all2_conv_all_nth)
  then have out2: "outstanding [] ms2 = Some (map tc_id rest)"
    using out outstanding_results rs(1) rest(1) by (simp add: outstanding_append)
  have "pending_ok (pending_for (td_chat d) reg i tc ms2 (drop (k + 1) deferred))" if "ask = Some (k, tc)" for reg i k tc
    using rest out2 that by (auto simp: pending_ok_def pending_for_def)
  then show ?thesis
    using run pre all post ch2 continue_turn_ok [OF ch2] out2 rest(2) ask_approval_ok [OF ch2]
    unfolding run_deferred_def Let_def ch0_def [symmetric]
    by (auto simp: answered_def split: option.splits prod.splits) blast
qed

lemma run_approved_ok:
  assumes ok: "chat_ok d ch" and p: "pending_ok p" and run: "run_approved d msg tid always p um ch = (r, um', ch')"
  shows "chat_ok d ch'"
proof -
  define name where "name = pending_approval.pa_tool_name p"
  define ch0 where "ch0 = on_thread tid (\<lambda>th. th\<lparr>thread_state := Thread_Processing\<rparr>)
    (if always then ch\<lparr>ch_session := auto_approve_tool name (ch_session ch)\<rparr> else ch)"
  define job where "job = job_with_user (fresh_of d ch0) (im_user_id msg) ''chat'' ''Interactive chat session'' (now_of d ch0)"
  have ch0: "chat_ok d ch0"
    using ok by (auto simp: ch0_def chat_ok_def asks_ok_def auto_approve_tool_def pendings_ok_def split: if_splits)
  obtain result ch1 where exec: "execute_chat_tool_standalone (td_chat d) name (pending_approval.pa_parameters p) job (send_status (SU_ToolStarted name) ch0) = (result, ch1)" by fastforce
  define ch2 where "ch2 = record_result (td_chat d) tid result (preview_result name result
    (send_status (tool_completed (td_chat d) name result (pa_display_parameters p) (cd_tool (td_chat d) (ch_ext ch1) name)) ch1))"
  have ch2: "chat_ok d ch2"
    unfolding ch2_def using execute_ok [OF _ exec] ch0 by (simp add: record_result_ok)
  have "outstanding [] (pa_context_messages p @ [result_message (td_chat d) (error_text d) (pa_tool_call_id p) name result])
    = Some (map tc_id (pa_deferred_tool_calls p))"
    using p outstanding_results [of "[pa_tool_call_id p]" "[result_message (td_chat d) (error_text d) (pa_tool_call_id p) name result]"]
    by (simp add: pending_ok_def outstanding_append)
  then show ?thesis
    using run exec run_deferred_ok [OF ch2] handle_auth_intercept_ok [OF ch2]
    unfolding run_approved_def Let_def name_def [symmetric] ch0_def [symmetric] job_def [symmetric]
    by (auto simp: ch2_def split: option.splits)
qed

lemma process_approval_ok:
  assumes ok: "chat_ok d ch" and run: "process_approval d msg tid rid approved always um ch = (r, um', ch')"
  shows "chat_ok d ch'"
proof (cases "thread_of tid ch")
  case None
  then show ?thesis using assms by (simp add: process_approval_def)
next
  case (Some th)
  show ?thesis
  proof (cases "thread_state th = Thread_AwaitingApproval")
    case False
    then show ?thesis using assms Some by (simp add: process_approval_def)
  next
    case True
    define ch0 where "ch0 = on_thread tid (\<lambda>_. snd (take_pending_approval th)) ch"
    have ch0: "chat_ok d ch0"
      using ok Some by (auto simp: ch0_def chat_ok_def asks_ok_def take_pending_approval_def thread_of_def intro!: pendings_ok_upd)
    show ?thesis
    proof (cases "pending_approval th")
      case None
      then show ?thesis using run Some True ch0 by (simp add: process_approval_def ch0_def take_pending_approval_def)
    next
      case pend: (Some p)
      have p: "pending_ok p" using ok Some pend by (auto simp: chat_ok_def pendings_ok_def thread_of_def)
      have "chat_ok d (on_thread tid (await_approval p now) ch0)" for now
        using ch0 p by (auto simp: chat_ok_def asks_ok_def await_approval_def intro!: pendings_ok_upd)
      moreover have "chat_ok d ch'" if "reject_pending d msg tid p um ch0 = (r, um', ch')"
        using that ch0 by (auto simp: reject_pending_def Let_def chat_ok_def asks_ok_def complete_turn_def clear_pending_approval_def
          intro!: pendings_ok_upd_same split: option.splits)
      ultimately show ?thesis
        using run Some True pend run_approved_ok [OF ch0 p]
        by (auto simp: process_approval_def ch0_def take_pending_approval_def Let_def split: if_splits option.splits)
    qed
  qed
qed

section \<open>Undoing a turn\<close>

fun core_messages :: "(string \<times> string option) list \<Rightarrow> chat_message list" where
  "core_messages [] = []"
| "core_messages ((inp, resp) # cs) = msg_user inp # (case resp of Some r \<Rightarrow> [msg_assistant r] | None \<Rightarrow> []) @ core_messages cs"

lemma turn_messages_core: "turn_messages ts = core_messages (map turn_core ts)"
  by (induction ts) (simp_all add: turn_core_def)

lemma core_messages_append: "core_messages (xs @ ys) = core_messages xs @ core_messages ys"
  by (induction xs rule: core_messages.induct) simp_all

lemma core_complete:
  "map turn_core ts = cs @ [(inp, x)] \<Longrightarrow> map turn_core (map_last (turn_complete resp now) ts) = cs @ [(inp, Some resp)]"
  by (cases ts rule: rev_cases) (auto simp: map_last_def turn_complete_def turn_core_def)

lemma last_trim_front: "k > 0 \<Longrightarrow> xs \<noteq> [] \<Longrightarrow> trim_front k xs \<noteq> [] \<and> last (trim_front k xs) = last xs"
  by (simp add: trim_front_drop not_le)

lemma checkpoint_undone:
  assumes "max_checkpoints um > 0" and "um1 = um_checkpoint i n ms text um"
  shows "can_undo um1"
    "\<exists>um2 c. undo i' n' ms' um1 = (Some c, um2) \<and> cp_messages c = ms \<and> can_redo um2
      \<and> (\<forall>j k ms2. \<exists>um3 c'. redo j k ms2 um2 = (Some c', um3) \<and> cp_messages c' = ms')"
  using assms last_trim_front [of "max_checkpoints um" "undo_stack um @ [checkpoint_new i n ms text]"]
  by (auto simp: um_checkpoint_def push_undo_def can_undo_def can_redo_def undo_def redo_def checkpoint_new_def Let_def)

definition messages_of :: "uuid \<Rightarrow> 's chat \<Rightarrow> chat_message list option" where
  "messages_of tid ch = map_option messages (thread_of tid ch)"

lemma answered_turn_messages:
  assumes gentle: "others_gentle (td_chat d) tid" and th: "thread_of tid ch = Some th"
    and room: "suggest_compaction (td_monitor d) (messages th) = None"
    and run: "run_turn d msg tid content um ch = (Inr (Response resp), um1, ch1)"
  shows "messages_of tid ch1 = Some (messages th @ [msg_user content, msg_assistant resp])
    \<and> (\<exists>i text. um1 = um_checkpoint i (turn_number th) (messages th) text um)"
  using run th
proof (rule run_turn_cases)
  fix th1 th2 result ch2
  let ?ch0 = "auto_compact d tid th ch"
  assume "thread_of tid ?ch0 = Some th1" and th2: "th2 = start_turn content (now_of d ?ch0) th1"
    and um1: "um1 = um_checkpoint (fresh_of d ?ch0) (turn_number th1) (messages th1) (''Before turn '' @ show_nat (turn_number th1)) um"
    and loop: "run_agentic_loop (td_chat d) msg tid (messages th2) (turn_start d msg tid th2 content ?ch0) = (result, ch2)"
    and cases: "thread_of tid ch2 = None \<and> ch1 = ch2 \<and> Inr (Response resp) = Inl (missing_thread tid)
     \<or> (\<exists>th3. thread_of tid ch2 = Some th3 \<and> thread_state th3 = Thread_Interrupted
          \<and> ch1 = send_status (SU_Status ''Interrupted'') ch2 \<and> Inr (Response resp) = Inr Interrupted)
     \<or> (\<exists>th3 r1. thread_of tid ch2 = Some th3 \<and> thread_state th3 \<noteq> Thread_Interrupted
          \<and> finish_turn d True msg tid result ch2 = (r1, ch1) \<and> Inr (Response resp) = Inr r1)"
  moreover have "?ch0 = ch" using room by (simp add: auto_compact_def)
  ultimately have th1: "th1 = th" and "?ch0 = ch" using th by simp_all
  define core where "core = map turn_core (turns th) @ [(content, None)]"
  have "in_loop tid core (ch_session (turn_start d msg tid th2 content ?ch0))"
    using th \<open>?ch0 = ch\<close> by (simp add: in_loop_def th2 th1 thread_of_def start_turn_def core_def turn_core_def turn_new_def)
  then have "in_loop tid core (ch_session ch2)" using chat_loop_in_loop [OF gentle loop] by blast
  then obtain th3 where th3: "threads (ch_session ch2) tid = Some th3" "map turn_core (turns th3) = core"
    using in_loop_thread by blast
  have fin: "finish_turn d True msg tid result ch2 = (Response resp, ch1)" using cases by auto
  then obtain t where t: "result = Inr (LoopResponse t)"
    by (auto simp: finish_turn_def ask_approval_def result_error_def split: sum.splits loop_result.splits)
  obtain now where "ch_session ch1 = upd_thread tid (complete_turn resp now) (ch_session ch2)"
    by (rule finish_turn_effect [OF fin]) (simp add: end_update_def t that)
  then have "messages_of tid ch1 = Some (core_messages (map turn_core (turns th) @ [(content, Some resp)]))"
    using th3 core_complete [of "turns th3" "map turn_core (turns th)" content None resp now]
    by (simp add: messages_of_def thread_of_def messages_def turn_messages_core complete_turn_def core_def)
  then show ?thesis
    using um1 th1 by (auto simp: core_messages_append messages_def turn_messages_core)
qed

text \<open>An approval either runs the pending call or leaves the trace alone.\<close>

lemma process_approval_cases:
  assumes "process_approval d msg tid rid approved always um ch = (r, um', ch')"
  obtains
    th p where "thread_of tid ch = Some th" "thread_state th = Thread_AwaitingApproval" "pending_approval th = Some p" "approved"
      "rid \<in> {None, Some (pa_request_id p)}"
      "run_approved d msg tid always p um (on_thread tid (\<lambda>_. snd (take_pending_approval th)) ch) = (r, um', ch')"
  | "ch_trace ch' = ch_trace ch"
proof -
  have "ch_trace c' = ch_trace c" if "reject_pending d msg tid p um c = (r, um', c')" for p c c'
    using that by (auto simp: reject_pending_def Let_def split: option.splits)
  then show ?thesis
    using assms that by (auto simp: process_approval_def take_pending_approval_def Let_def split: option.splits if_splits)
qed

definition sample_safety :: safety_layer where
  "sample_safety = \<lparr>sl_validator = \<lparr>va_max_length = 20, va_min_length = 1, va_forbidden_patterns = []\<rparr>, sl_policy = [],
     sl_leak_detector = \<lparr>ld_patterns = [], ld_prefix_matcher = None, ld_known_prefixes = []\<rparr>,
     sl_config = \<lparr>sc_max_output_length = 20, sc_injection_check_enabled = False\<rparr>,
     sl_regex = (\<lambda>_ _. []), sl_ac_nocase = (\<lambda>_ _. [])\<rparr>"

definition talking_chat_deps :: "string \<Rightarrow> unit chat_deps" where
  "talking_chat_deps reply =
     \<lparr>cd_tool = (\<lambda>_ _. Some sample_tool), cd_tool_definitions = (\<lambda>_. []),
      cd_engine = (\<lambda>_. talking_engine reply), cd_active_model = (\<lambda>_. ''m''),
      cd_rates = (\<lambda>_. \<lparr>mr_read_discount = 1, mr_write_multiplier = 1, mr_cost_per_token = (0, 0)\<rparr>),
      cd_hooks = [], cd_safety = sample_safety, cd_skills = (\<lambda>_. None), cd_max_active_skills = 3,
      cd_max_context_tokens = 9, cd_workspace_prompt = None, cd_conversation_context = (\<lambda>_ _ _. []),
      cd_max_tool_iterations = 2, cd_auto_approve_tools = False, cd_others = (\<lambda>sess s. (sess, s)),
      cd_schedule = (\<lambda>_ n. map (\<lambda>i. (i, True)) [0..<n]), cd_clock = (\<lambda>_. 0), cd_today = (\<lambda>_. 0), cd_now = (\<lambda>_. 0),
      cd_fresh = (\<lambda>_. 9), cd_from_json = (\<lambda>_. None), cd_to_json = (\<lambda>_. None), cd_pretty = (\<lambda>_. Inr []), cd_show_json = (\<lambda>_. []),
      cd_show_uuid = show_nat, cd_show_error = (\<lambda>_. ''error''), cd_show_tool_error = (\<lambda>_. ''error''),
      cd_show_hook_error = (\<lambda>_. ''error''), cd_show_limit = (\<lambda>_. ''limit'')\<rparr>"

definition sample_thread_deps :: "string \<Rightarrow> unit thread_deps" where
  "sample_thread_deps reply =
     \<lparr>td_chat = talking_chat_deps reply, td_monitor = \<lparr>cx_context_limit = 50, cx_threshold_ratio = 1\<rparr>,
      td_compactor = sample_compactor, td_store = None, td_extensions = None,
      td_command = (\<lambda>_ _ s. (Inr (ok_with_message []), s)), td_percent0 = (\<lambda>_. []), td_percent1 = (\<lambda>_. []),
      td_show_json_list = (\<lambda>_. None)\<rparr>"

section \<open>Theorems\<close>

text \<open>
  C12. A turn that was answered can be undone and redone. If the context needs no compaction and other
  tasks leave the turns of the thread alone, the turn adds the input and the response to the
  conversation; an undo right after it brings back the conversation before the turn, and a redo
  after that the one with the turn.
\<close>

theorem turn_undone:
  assumes "others_gentle (td_chat d) tid" and "thread_of tid ch = Some th"
    and "suggest_compaction (td_monitor d) (messages th) = None" and "route_command ''/'' content = None"
    and "max_checkpoints um > 0"
    and "process_user_input d msg tid content um ch = (Inr (Response resp), um1, ch1)"
    and "process_undo d tid um1 ch1 = (r2, um2, ch2)" and "process_redo d tid um2 ch2 = (r3, um3, ch3)"
  shows "messages_of tid ch1 = Some (messages th @ [msg_user content, msg_assistant resp])
    \<and> messages_of tid ch2 = Some (messages th) \<and> messages_of tid ch3 = messages_of tid ch1"
proof -
  have "run_turn d msg tid content um ch = (Inr (Response resp), um1, ch1)"
    using assms(2,4,6) by (auto simp: process_user_input_def result_error_def split: if_splits option.splits)
  from answered_turn_messages [OF assms(1-3) this] obtain i label where
    ch1: "messages_of tid ch1 = Some (messages th @ [msg_user content, msg_assistant resp])"
    and um1: "um1 = um_checkpoint i (turn_number th) (messages th) label um" by blast
  then obtain th1 where th1: "thread_of tid ch1 = Some th1" "messages th1 = messages th @ [msg_user content, msg_assistant resp]"
    by (auto simp: messages_of_def)
  obtain u c where undo: "undo (fresh_of d ch1) (turn_number th1) (messages th1) um1 = (Some c, u)" "cp_messages c = messages th" "can_redo u"
    and redo: "\<And>j k ms. \<exists>u' c'. redo j k ms u = (Some c', u') \<and> cp_messages c' = messages th1"
    using checkpoint_undone(2) [OF assms(5) um1] by blast
  have 2: "um2 = u" "ch2 = on_thread tid (restore_from_messages (messages th) (now_of d ch1)) ch1"
    using assms(7) undo th1 checkpoint_undone(1) [OF assms(5) um1] by (auto simp: process_undo_def)
  let ?th2 = "restore_from_messages (messages th) (now_of d ch1) th1"
  obtain u' c' where redo': "redo (fresh_of d ch2) (turn_number ?th2) (messages ?th2) u = (Some c', u')" "cp_messages c' = messages th1"
    using redo by blast
  have 3: "ch3 = on_thread tid (restore_from_messages (messages th1) (now_of d ch2)) ch2"
    using assms(8) redo' undo(3) th1 by (auto simp: process_redo_def 2)
  have "messages (restore_from_messages (messages t) now t') = messages t" for t now t'
    by (simp add: messages_def restore_from_messages_def turn_messages_rebuild)
  then have "messages_of tid ch2 = Some (messages th)" "messages_of tid ch3 = Some (messages th1)"
    using th1(1) by (simp_all add: messages_of_def 2 3)
  then show ?thesis
    using ch1 th1(2) by simp
qed


text \<open>
  What an approval may add to the trace: nothing, unless the thread waits for one, the request is
  the pending one and it is granted; then first the pending call with its parameters, and after it
  only what needs no approval, where \<open>always\<close> has added the tool of the pending call to the approved ones.
\<close>

definition consented :: "'s thread_deps \<Rightarrow> uuid \<Rightarrow> uuid option \<Rightarrow> bool \<Rightarrow> bool \<Rightarrow> 's chat \<Rightarrow> chat_trace list \<Rightarrow> bool" where
  "consented d tid rid approved always ch added \<longleftrightarrow>
     added = []
     \<or> (\<exists>th p first new. thread_of tid ch = Some th \<and> thread_state th = Thread_AwaitingApproval
          \<and> pending_approval th = Some p \<and> approved \<and> rid \<in> {None, Some (pa_request_id p)} \<and> added = first @ new
          \<and> first \<in> {[], [CtRun (pending_approval.pa_tool_name p) (pending_approval.pa_parameters p)]}
          \<and> list_all (run_ok (td_chat d) (auto_approved_tools (ch_session ch)
                \<union> (if always then {pending_approval.pa_tool_name p} else {}))) new)"

lemma process_approval_consented:
  assumes "keeps_approvals (td_chat d)" and run: "process_approval d msg tid rid approved always um ch = (r, um', ch')"
  shows "\<exists>added. ch_trace ch' = ch_trace ch @ added \<and> consented d tid rid approved always ch added"
proof (rule process_approval_cases [OF run])
  fix th p
  assume p: "thread_of tid ch = Some th" "thread_state th = Thread_AwaitingApproval" "pending_approval th = Some p" "approved"
    "rid \<in> {None, Some (pa_request_id p)}"
    and "run_approved d msg tid always p um (on_thread tid (\<lambda>_. snd (take_pending_approval th)) ch) = (r, um', ch')"
  from run_approved_adds [OF assms(1) this(6)] obtain first new where
    "ch_trace ch' = ch_trace ch @ first @ new"
    "first \<in> {[], [CtRun (pending_approval.pa_tool_name p) (pending_approval.pa_parameters p)]}"
    "list_all (run_ok (td_chat d) (auto_approved_tools (ch_session ch) \<union> (if always then {pending_approval.pa_tool_name p} else {}))) new"
    by (simp only: ch_session_on_thread upd_thread_fields on_thread_fields) blast
  then show ?thesis using p unfolding consented_def by blast
qed (simp add: consented_def)

text \<open>A model that answers with a text.\<close>

lemma talking_answer:
  "rx_available_tools ctx = [] \<Longrightarrow> \<exists>u. respond_with_tools (talking_engine ''hello'') ctx s = (Inr \<lparr>ro_result = RespondText ''hello'', ro_usage = u\<rparr>, s)"
proof -
  have "text_or_fallback (cleaned (talking_engine ''hello'') ''hello'') = ''hello''" by code_simp
  then show "rx_available_tools ctx = [] \<Longrightarrow> ?thesis"
    by (simp add: respond_with_tools_def talking_engine_def Let_def)
qed

lemma talking_loop:
  assumes "\<not> thread_interrupted tid ch" and "check_allowed 0 (ch_guard ch) = (Inr u, g)"
  shows "\<exists>ch'. run_agentic_loop (talking_chat_deps ''hello'') msg tid ms ch = (Inr (LoopResponse ''hello''), ch') \<and> ch_session ch' = ch_session ch"
proof -
  have skills: "select_active_skills (talking_chat_deps ''hello'') content s = []" for content s
    by (simp add: select_active_skills_def talking_chat_deps_def)
  have strip: "strip_internal_tool_call_text ''hello'' = ''hello''" by code_simp
  have no_tools: "rx_available_tools (round_context (talking_chat_deps ''hello'') tid (loop_setup_for (talking_chat_deps ''hello'') msg s) f ms s) = []" for f ms s
    by (simp add: round_context_def attenuated_tools_def loop_setup_for_def skills Let_def) (simp add: talking_chat_deps_def)
  note answer = talking_answer [OF no_tools]
  have others: "ch_session (chat_await (talking_chat_deps ''hello'') c) = ch_session c" for c
    by (simp add: chat_await_def talking_chat_deps_def)
  have engine: "ls_engine (loop_setup_for (talking_chat_deps ''hello'') msg s) = talking_engine ''hello''" for s
    by (simp add: loop_setup_for_def Let_def talking_chat_deps_def)
  have "\<exists>u c. ask_or_compact (talking_chat_deps ''hello'') (talking_engine ''hello'')
      (round_context (talking_chat_deps ''hello'') tid (loop_setup_for (talking_chat_deps ''hello'') msg s) f ms s) c0
    = (Inr \<lparr>ro_result = RespondText ''hello'', ro_usage = u\<rparr>, ms, c) \<and> ch_session c = ch_session c0" for f ms s c0
    using answer [of s f ms "ch_ext c0"] others by (auto simp: ask_or_compact_def ask_model_def round_context_def)
  then obtain U C where ask: "ask_or_compact (talking_chat_deps ''hello'') (talking_engine ''hello'')
      (round_context (talking_chat_deps ''hello'') tid (loop_setup_for (talking_chat_deps ''hello'') msg s) f ms s) c0
    = (Inr \<lparr>ro_result = RespondText ''hello'', ro_usage = U s f ms c0\<rparr>, ms, C s f ms c0)" "ch_session (C s f ms c0) = ch_session c0" for f ms s c0
    by metis
  have "cd_clock (talking_chat_deps ''hello'') s = 0" "cd_max_tool_iterations (talking_chat_deps ''hello'') = Suc (Suc 0)" for s
    by (simp_all add: talking_chat_deps_def)
  then show ?thesis
    using assms by (simp add: run_agentic_loop_def agentic_round_def Let_def engine ask answer_step_def strip no_tools)
qed

lemma sample_turn: "fst (process_user_input (sample_thread_deps ''hello'') sample_message 5 ''hi'' undo_manager_new sample_chat) = Inr (Response ''hello'')"
proof -
  let ?d = "sample_thread_deps ''hello''"
  have input: "input_rejected ?d ''hi'' = None" by code_simp
  have route: "route_command ''/'' ''hi'' = None" by code_simp
  obtain th where th: "thread_of 5 sample_chat = Some th" "thread_state th = Thread_Idle" "turns th = []"
    by (simp add: sample_chat_def thread_of_def create_thread_def session_new_def thread_new_def)
  have room: "suggest_compaction (td_monitor ?d) [] = None" by code_simp
  have compact: "auto_compact ?d 5 th sample_chat = sample_chat"
    using th room by (simp add: auto_compact_def messages_def)
  have deps: "td_chat ?d = talking_chat_deps ''hello''" "cd_hooks (talking_chat_deps ''hello'') = []"
    by (simp_all add: sample_thread_deps_def talking_chat_deps_def)
  have guard: "check_allowed 0 (ch_guard sample_chat) = (Inr (), ch_guard sample_chat)"
    by (simp add: sample_chat_def check_allowed_def cost_guard_new_def check_budget_def check_rate_def)
  show ?thesis
  proof (cases "process_user_input ?d sample_message 5 ''hi'' undo_manager_new sample_chat")
    case (fields r um1 ch1)
    then have run: "run_turn ?d sample_message 5 ''hi'' undo_manager_new sample_chat = (r, um1, ch1)"
      using input route th by (simp add: process_user_input_def)
    show ?thesis
    proof (rule run_turn_cases [OF run th(1), unfolded compact])
      fix th1 th2 result ch2
      let ?ch0 = "turn_start ?d sample_message 5 th2 ''hi'' sample_chat"
      assume "th2 = start_turn ''hi'' (now_of ?d sample_chat) th1"
        and loop: "run_agentic_loop (td_chat ?d) sample_message 5 (messages th2) ?ch0 = (result, ch2)"
        and cases: "thread_of 5 ch2 = None \<and> ch1 = ch2 \<and> r = Inl (missing_thread 5)
         \<or> (\<exists>th3. thread_of 5 ch2 = Some th3 \<and> thread_state th3 = Thread_Interrupted
              \<and> ch1 = send_status (SU_Status ''Interrupted'') ch2 \<and> r = Inr Interrupted)
         \<or> (\<exists>th3 r1. thread_of 5 ch2 = Some th3 \<and> thread_state th3 \<noteq> Thread_Interrupted
              \<and> finish_turn ?d True sample_message 5 result ch2 = (r1, ch1) \<and> r = Inr r1)"
      then have t: "thread_of 5 ?ch0 = Some th2" "thread_state th2 = Thread_Processing"
        using th by (simp_all add: turn_start_def start_turn_def)
      have "ch_guard ?ch0 = ch_guard sample_chat"
        by (simp add: turn_start_def persist_user_message_def save_message_def sample_thread_deps_def)
      then have "result = Inr (LoopResponse ''hello'')" "ch_session ch2 = ch_session ?ch0"
        using talking_loop [of 5 ?ch0 "()" "ch_guard sample_chat" sample_message "messages th2"] t guard loop deps
        by (simp_all add: thread_interrupted_def)
      then show ?thesis
        using cases t fields deps
        by (auto simp: thread_of_def finish_turn_def transform_response_def run_hooks_def matching_hooks_def outcome_ok_def
            complete_and_save_def Let_def result_response_def)
    qed
  qed
qed

lemma turn_undone_witness:
  "\<exists>um1 ch1 um2 ch2. process_user_input (sample_thread_deps ''hello'') sample_message 5 ''hi'' undo_manager_new sample_chat
        = (Inr (Response ''hello''), um1, ch1)
     \<and> messages_of 5 ch1 = Some [msg_user ''hi'', msg_assistant ''hello'']
     \<and> snd (process_undo (sample_thread_deps ''hello'') 5 um1 ch1) = (um2, ch2) \<and> messages_of 5 ch2 = Some []"
proof -
  let ?d = "sample_thread_deps ''hello''"
  obtain um1 ch1 where turn: "process_user_input ?d sample_message 5 ''hi'' undo_manager_new sample_chat = (Inr (Response ''hello''), um1, ch1)"
    using sample_turn by (metis prod.collapse)
  obtain r2 um2 ch2 where undo: "process_undo ?d 5 um1 ch1 = (r2, um2, ch2)" using prod_cases3 by blast
  obtain r3 um3 ch3 where redo: "process_redo ?d 5 um2 ch2 = (r3, um3, ch3)" using prod_cases3 by blast
  obtain th where th: "thread_of 5 sample_chat = Some th" "turns th = []"
    by (simp add: sample_chat_def thread_of_def create_thread_def session_new_def thread_new_def)
  have "others_gentle (td_chat ?d) 5" by (simp add: others_gentle_def sample_thread_deps_def talking_chat_deps_def)
  moreover have "suggest_compaction (td_monitor ?d) (messages th) = None" unfolding messages_def th(2) by code_simp
  moreover have "route_command ''/'' ''hi'' = None" by code_simp
  moreover have "max_checkpoints undo_manager_new > 0" by (simp add: undo_manager_new_def DEFAULT_MAX_CHECKPOINTS_def)
  ultimately show ?thesis
    using turn_undone [OF _ th(1) _ _ _ turn undo redo] turn undo th(2) by (simp add: messages_def)
qed


end
