(* ===== verification/Agent_Loop.thy ===== *)
theory Agent_Loop
  imports Thread_Ops
begin

text \<open>
  \<open>src/agent/agent_loop.rs\<close>: \<open>handle_message\<close> and the message loop of \<open>run\<close>, and of
  \<open>src/agent/commands.rs\<close> the summaries and suggestions. One message at a time is parsed, shown to
  the inbound hooks, resolved to a session and a thread, and handed to the operations of theory
  \<open>Thread_Ops\<close>; the answer goes through the outbound hooks to the channel. Between two messages
  sessions may be pruned and other tasks may change a session. The system and job commands are a
  field of the record, they work on the external state only. \<open>ag_sent\<close> lists what was handed to
  the channels.
\<close>

section \<open>State\<close>

record 's agent_deps =
  ad_td :: "'s thread_deps"
  ad_parse_uuid :: "string \<Rightarrow> uuid option"
  ad_approval_json :: "string \<Rightarrow> submission option"
  ad_history :: "'s \<Rightarrow> (uuid \<Rightarrow> (string \<times> string) list) option"
  ad_session_id :: "'s \<Rightarrow> uuid"
  ad_thread_id :: "'s \<Rightarrow> uuid"
  ad_set_tool_context :: "string \<Rightarrow> string \<Rightarrow> 's \<Rightarrow> 's"
  ad_engine :: "'s reasoning"
  ad_command :: "submission \<Rightarrow> incoming_message \<Rightarrow> 's \<Rightarrow> (worker_error + submission_result) \<times> 's"
  ad_respond :: "incoming_message \<Rightarrow> string \<Rightarrow> 's \<Rightarrow> 's"
  ad_event_triggers :: "incoming_message \<Rightarrow> 's \<Rightarrow> 's"

record 's agent =
  ag_manager :: session_manager
  ag_guard :: cost_guard
  ag_ext :: 's
  ag_status :: "status_update list"
  ag_saved :: "(uuid \<times> string \<times> string) list"
  ag_trace :: "chat_trace list"
  ag_sent :: "(incoming_message \<times> string) list"

text \<open>The session is shared by reference; here it is taken from the manager and put back.\<close>

definition chat_of :: "session \<Rightarrow> 's agent \<Rightarrow> 's chat" where
  "chat_of sess a =
     \<lparr>ch_session = sess, ch_guard = ag_guard a, ch_ext = ag_ext a, ch_status = ag_status a, ch_saved = ag_saved a,
      ch_trace = ag_trace a\<rparr>"

definition put_chat :: "string \<Rightarrow> 's chat \<Rightarrow> 's agent \<Rightarrow> 's agent" where
  "put_chat uid ch a =
     a\<lparr>ag_manager := (ag_manager a)\<lparr>sm_sessions := hm_update uid (\<lambda>_. ch_session ch) (sm_sessions (ag_manager a))\<rparr>,
       ag_guard := ch_guard ch, ag_ext := ch_ext ch, ag_status := ch_status ch, ag_saved := ch_saved ch, ag_trace := ch_trace ch\<rparr>"

definition on_chat :: "string \<Rightarrow> ('s chat \<Rightarrow> 'r \<times> 's chat) \<Rightarrow> 'r \<Rightarrow> 's agent \<Rightarrow> 'r \<times> 's agent" where
  "on_chat uid f missing a =
     (case hm_get (sm_sessions (ag_manager a)) uid of
        None \<Rightarrow> (missing, a)
      | Some sess \<Rightarrow> (case f (chat_of sess a) of (r, ch) \<Rightarrow> (r, put_chat uid ch a)))"

definition put_undo :: "uuid \<Rightarrow> undo_manager \<Rightarrow> 's agent \<Rightarrow> 's agent" where
  "put_undo tid um a =
     a\<lparr>ag_manager := (ag_manager a)\<lparr>sm_undo_managers := hm_insert tid um (sm_undo_managers (ag_manager a))\<rparr>\<rparr>"

definition with_undo ::
  "uuid \<Rightarrow> string \<Rightarrow> (undo_manager \<Rightarrow> 's chat \<Rightarrow> 's handled) \<Rightarrow> 's agent \<Rightarrow> (worker_error + submission_result) \<times> 's agent" where
  "with_undo tid uid f a =
     (case get_undo_manager tid (ag_manager a) of
        (um, m) \<Rightarrow>
          (case on_chat uid (\<lambda>ch. case f um ch of (r, um, ch) \<Rightarrow> ((r, um), ch)) (Inl (missing_thread tid), um)
                  (a\<lparr>ag_manager := m\<rparr>) of
             ((r, um), a) \<Rightarrow> (r, put_undo tid um a)))"

text \<open>The operations that leave the undo manager alone.\<close>

definition without_undo ::
  "uuid \<Rightarrow> string \<Rightarrow> (undo_manager \<Rightarrow> 's chat \<Rightarrow> 's handled) \<Rightarrow> 's agent \<Rightarrow> (worker_error + submission_result) \<times> 's agent" where
  "without_undo tid uid f =
     on_chat uid (\<lambda>ch. case f undo_manager_new ch of (r, _, ch) \<Rightarrow> (r, ch)) (Inl (missing_thread tid))"

section \<open>Summaries and suggestions\<close>

definition f32_0_5 :: u32 where
  "f32_0_5 = 0x3F000000"

definition recent_messages :: "chat_message list \<Rightarrow> chat_message list" where
  "recent_messages ms = (let start = (if length ms > 20 then length ms - 20 else 0) in drop start ms)"

definition ask_about ::
  "'s agent_deps \<Rightarrow> string \<Rightarrow> string \<Rightarrow> u32 \<Rightarrow> string \<Rightarrow> string \<Rightarrow> string \<Rightarrow> uuid \<Rightarrow> 's chat
   \<Rightarrow> (worker_error + submission_result) \<times> 's chat" where
  "ask_about d prompt question temperature empty_text heading failed tid ch =
     (case thread_of tid ch of
        None \<Rightarrow> (Inl (missing_thread tid), ch)
      | Some th \<Rightarrow>
          (if messages th = [] then (Inr (ok_with_message empty_text), ch)
           else let ctx = msg_system prompt # recent_messages (messages th) @ [msg_user question];
                    request = (completion_request_new ctx)\<lparr>rq_max_tokens := Some 512, rq_temperature := Some temperature\<rparr>
                in case reasoning_complete (ad_engine d) request (ch_ext ch) of
                     (r, s) \<Rightarrow>
                       (Inr (case r of
                               Inr (t, _) \<Rightarrow> result_response (heading @ [CHR 0x0A, CHR 0x0A] @ trim t)
                             | Inl e \<Rightarrow> result_error (failed @ cd_show_error (td_chat (ad_td d)) (LlmErr e))),
                        chat_traced (CtAsk ctx []) (ch\<lparr>ch_ext := s\<rparr>))))"

definition process_summarize :: "'s agent_deps \<Rightarrow> uuid \<Rightarrow> 's chat \<Rightarrow> (worker_error + submission_result) \<times> 's chat" where
  "process_summarize d =
     ask_about d
       ''Summarize the conversation so far in 3-5 concise bullet points. Focus on decisions made, actions taken, and key outcomes. Be brief and factual.''
       ''Summarize this conversation.'' f32_0_3 ''Nothing to summarize (empty thread).'' ''Thread Summary:'' ''Summarize failed: ''"

definition process_suggest :: "'s agent_deps \<Rightarrow> uuid \<Rightarrow> 's chat \<Rightarrow> (worker_error + submission_result) \<times> 's chat" where
  "process_suggest d =
     ask_about d
       ''Based on the conversation so far, suggest 2-4 concrete next steps the user could take. Be actionable and specific. Format as a numbered list.''
       ''What should I do next?'' f32_0_5 ''Nothing to suggest from (empty thread).'' ''Suggested Next Steps:'' ''Suggest failed: ''"

section \<open>Handling a message\<close>

definition message_target :: "incoming_message \<Rightarrow> string" where
  "message_target msg =
     (case Option.bind (json_get (im_metadata msg) ''signal_target'') as_str of Some t \<Rightarrow> t | None \<Rightarrow> im_user_id msg)"

text \<open>The inbound hooks: the submission to go on with, or the answer of a rejection.\<close>

definition inbound_hooks :: "'s agent_deps \<Rightarrow> incoming_message \<Rightarrow> submission \<Rightarrow> 's \<Rightarrow> (string + submission) \<times> 's" where
  "inbound_hooks d msg sub s =
     (case sub of
        UserInput content \<Rightarrow>
          (let c = td_chat (ad_td d)
           in case run_hooks (cd_from_json c) (cd_to_json c) (cd_show_hook_error c) (cd_hooks c)
                     (Inbound (im_user_id msg) (im_channel msg) content (im_thread_id msg)) s of
                (Inl (Rejected reason), s) \<Rightarrow> (Inl (''[Message rejected: '' @ reason @ '']''), s)
              | (Inl err, s) \<Rightarrow> (Inl (''[Message blocked by hook policy: '' @ cd_show_hook_error c err @ '']''), s)
              | (Inr (Continue (Some new_content)), s) \<Rightarrow> (Inr (UserInput new_content), s)
              | (Inr _, s) \<Rightarrow> (Inr (UserInput content), s))
      | _ \<Rightarrow> (Inr sub, s))"

text \<open>Hydration of the thread and resolution of session and thread.\<close>

definition locate_thread :: "'s agent_deps \<Rightarrow> incoming_message \<Rightarrow> 's agent \<Rightarrow> uuid \<times> 's agent" where
  "locate_thread d msg a =
     (let s = ag_ext a; now = cd_now (td_chat (ad_td d)) s; uid = im_user_id msg;
          m = (case im_thread_id msg of
                 None \<Rightarrow> ag_manager a
               | Some ext \<Rightarrow>
                   maybe_hydrate_thread (ad_parse_uuid d) (cd_show_uuid (td_chat (ad_td d))) (ad_history d s) (ad_session_id d s) now
                     uid (im_channel msg) ext (ag_manager a))
      in case resolve_thread (ad_parse_uuid d) (ad_session_id d s) (ad_thread_id d s) now uid (im_channel msg) (im_thread_id msg) m of
           (tid, m) \<Rightarrow> (tid, a\<lparr>ag_manager := m\<rparr>))"

definition dispatch ::
  "'s agent_deps \<Rightarrow> incoming_message \<Rightarrow> uuid \<Rightarrow> submission \<Rightarrow> 's agent \<Rightarrow> (worker_error + submission_result) \<times> 's agent" where
  "dispatch d msg tid sub a =
     (let t = ad_td d; uid = im_user_id msg; gone = Inl (missing_thread tid);
          plain = (\<lambda>f. on_chat uid (\<lambda>ch. case f ch of (r, ch) \<Rightarrow> (Inr r, ch)) gone);
          command = (case ad_command d sub msg (ag_ext a) of (r, s) \<Rightarrow> (r, a\<lparr>ag_ext := s\<rparr>))
      in case sub of
           UserInput content \<Rightarrow> with_undo tid uid (process_user_input t msg tid content) a
         | Undo \<Rightarrow> with_undo tid uid (process_undo t tid) a
         | Redo \<Rightarrow> with_undo tid uid (process_redo t tid) a
         | Resume checkpoint_id \<Rightarrow> with_undo tid uid (process_resume t tid checkpoint_id) a
         | Interrupt \<Rightarrow> without_undo tid uid (process_interrupt t tid) a
         | Compact \<Rightarrow> without_undo tid uid (process_compact t tid) a
         | Clear \<Rightarrow> with_undo tid uid (process_clear t tid) a
         | NewThread \<Rightarrow> plain (process_new_thread t) a
         | SwitchThread target \<Rightarrow> plain (process_switch_thread t target) a
         | Summarize \<Rightarrow> on_chat uid (process_summarize d tid) gone a
         | Suggest \<Rightarrow> on_chat uid (process_suggest d tid) gone a
         | ExecApproval request_id approved always \<Rightarrow>
             without_undo tid uid (process_approval t msg tid (Some request_id) approved always) a
         | ApprovalResponse approved always \<Rightarrow> without_undo tid uid (process_approval t msg tid None approved always) a
         | _ \<Rightarrow> command)"

definition answer_of ::
  "'s agent_deps \<Rightarrow> worker_error + submission_result \<Rightarrow> 's agent \<Rightarrow> (worker_error + string option) \<times> 's agent" where
  "answer_of d r a =
     (case r of
        Inl e \<Rightarrow> (Inl e, a)
      | Inr (Response content) \<Rightarrow> (Inr (if is_silent_reply content then None else Some content), a)
      | Inr (Ok m) \<Rightarrow> (Inr m, a)
      | Inr (Error m) \<Rightarrow> (Inr (Some (''Error: '' @ m)), a)
      | Inr Interrupted \<Rightarrow> (Inr (Some ''Interrupted.''), a)
      | Inr (NeedApproval rid name description params) \<Rightarrow>
          (Inr (Some []),
           a\<lparr>ag_status := ag_status a @ [SU_ApprovalNeeded (cd_show_uuid (td_chat (ad_td d)) rid) name description params]\<rparr>))"

definition pending_auth_of :: "uuid \<Rightarrow> string \<Rightarrow> 's agent \<Rightarrow> pending_auth option" where
  "pending_auth_of tid uid a =
     (case hm_get (sm_sessions (ag_manager a)) uid of
        None \<Rightarrow> None
      | Some sess \<Rightarrow> Option.bind (threads sess tid) pending_auth)"

definition cancel_auth :: "uuid \<Rightarrow> string \<Rightarrow> 's agent \<Rightarrow> 's agent" where
  "cancel_auth tid uid a = snd (on_chat uid (\<lambda>ch. ((), on_thread tid (set_auth None) ch)) () a)"

definition awaited_token :: "pending_auth option \<Rightarrow> submission \<Rightarrow> (pending_auth \<times> string) option" where
  "awaited_token pend sub =
     (case pend of
        None \<Rightarrow> None
      | Some pending \<Rightarrow> (case sub of UserInput token \<Rightarrow> Some (pending, token) | _ \<Rightarrow> None))"

text \<open>\<open>Inr None\<close> is the answer of \<open>/quit\<close>.\<close>

definition handle_message :: "'s agent_deps \<Rightarrow> incoming_message \<Rightarrow> 's agent \<Rightarrow> (worker_error + string option) \<times> 's agent" where
  "handle_message d msg a =
     (let uid = im_user_id msg;
          a = a\<lparr>ag_ext := ad_set_tool_context d (im_channel msg) (message_target msg) (ag_ext a)\<rparr>
      in case inbound_hooks d msg (parse (ad_parse_uuid d) (ad_approval_json d) (im_content msg)) (ag_ext a) of
           (Inl answer, s) \<Rightarrow> (Inr (Some answer), a\<lparr>ag_ext := s\<rparr>)
         | (Inr sub, s) \<Rightarrow>
             (case locate_thread d msg (a\<lparr>ag_ext := s\<rparr>) of
                (tid, a) \<Rightarrow>
                  (let pend = pending_auth_of tid uid a
                   in case awaited_token pend sub of
                        Some (pending, token) \<Rightarrow>
                          on_chat uid (\<lambda>ch. case process_auth_token (ad_td d) pending token tid ch of (t, ch) \<Rightarrow> (Inr (Some t), ch))
                            (Inl (missing_thread tid)) a
                      | None \<Rightarrow>
                          (let a = (if pend \<noteq> None then cancel_auth tid uid a else a)
                           in if sub = Quit then (Inr None, a)
                              else case dispatch d msg tid sub a of (r, a) \<Rightarrow> answer_of d r a))))"

section \<open>The message loop\<close>

definition send_response :: "'s agent_deps \<Rightarrow> incoming_message \<Rightarrow> string \<Rightarrow> 's agent \<Rightarrow> 's agent" where
  "send_response d msg content a = a\<lparr>ag_ext := ad_respond d msg content (ag_ext a), ag_sent := ag_sent a @ [(msg, content)]\<rparr>"

definition deliver :: "'s agent_deps \<Rightarrow> incoming_message \<Rightarrow> string \<Rightarrow> 's agent \<Rightarrow> 's agent" where
  "deliver d msg resp a =
     (let c = td_chat (ad_td d)
      in case run_hooks (cd_from_json c) (cd_to_json c) (cd_show_hook_error c) (cd_hooks c)
                (Outbound (im_user_id msg) (im_channel msg) resp (im_thread_id msg)) (ag_ext a) of
           (Inl _, s) \<Rightarrow> a\<lparr>ag_ext := s\<rparr>
         | (Inr (Continue (Some new_content)), s) \<Rightarrow> send_response d msg new_content (a\<lparr>ag_ext := s\<rparr>)
         | (Inr _, s) \<Rightarrow> send_response d msg resp (a\<lparr>ag_ext := s\<rparr>))"

text \<open>One round of the loop; the first component tells whether the loop goes on.\<close>

definition agent_round :: "'s agent_deps \<Rightarrow> incoming_message \<Rightarrow> 's agent \<Rightarrow> bool \<times> 's agent" where
  "agent_round d msg a =
     (let go = (\<lambda>a. (True, a\<lparr>ag_ext := ad_event_triggers d msg (ag_ext a)\<rparr>))
      in case handle_message d msg a of
           (Inr (Some resp), a) \<Rightarrow> go (if resp \<noteq> [] then deliver d msg resp a else a)
         | (Inr None, a) \<Rightarrow> (False, a)
         | (Inl e, a) \<Rightarrow> go (send_response d msg (''Error: '' @ cd_show_error (td_chat (ad_td d)) e) a))"

fun agent_run :: "'s agent_deps \<Rightarrow> incoming_message list \<Rightarrow> 's agent \<Rightarrow> 's agent" where
  "agent_run d [] a = a"
| "agent_run d (msg # msgs) a = (case agent_round d msg a of (True, a) \<Rightarrow> agent_run d msgs a | (False, a) \<Rightarrow> a)"

section \<open>What the operations of a thread touch\<close>

text \<open>
  The session as the operations on the thread \<open>tid\<close> may change it: this thread, the approved tools,
  and what other tasks do meanwhile.
\<close>

inductive touched :: "'s chat_deps \<Rightarrow> uuid \<Rightarrow> session \<Rightarrow> session \<Rightarrow> bool" for c tid sess where
  untouched [simp]: "touched c tid sess sess"
| by_others: "touched c tid sess s \<Longrightarrow> touched c tid sess (fst (cd_others c s e))"
| in_thread: "touched c tid sess s \<Longrightarrow> touched c tid sess (upd_thread tid f s)"
| approving: "touched c tid sess s \<Longrightarrow> touched c tid sess (auto_approve_tool n s)"

interpretation frame: session_keeper c tid "touched c tid sess" for c tid sess
  by unfold_locales (auto intro: touched.intros)

definition keeps_frame :: "'s thread_deps \<Rightarrow> uuid \<Rightarrow> session \<Rightarrow> 's chat \<Rightarrow> bool" where
  "keeps_frame d tid sess ch \<longleftrightarrow> touched (td_chat d) tid sess (ch_session ch)"

lemma keeps_frame_simps [simp]:
  "keeps_frame d tid sess (send_status st ch) = keeps_frame d tid sess ch"
  "keeps_frame d tid sess (ch\<lparr>ch_ext := e\<rparr>) = keeps_frame d tid sess ch"
  by (simp_all add: keeps_frame_def)

lemma keeps_frame_thread: "keeps_frame d tid sess ch \<Longrightarrow> ch_session ch' = upd_thread tid f (ch_session ch) \<Longrightarrow> keeps_frame d tid sess ch'"
  by (simp add: keeps_frame_def in_thread)

lemma frame_finish: "keeps_frame d tid sess ch \<Longrightarrow> finish_turn d transform msg tid result ch = (r, ch') \<Longrightarrow> keeps_frame d tid sess ch'"
  by (erule finish_turn_effect) (rule keeps_frame_thread)

lemma frame_loop: "keeps_frame d tid sess ch \<Longrightarrow> run_agentic_loop (td_chat d) msg tid ms ch = (r, ch') \<Longrightarrow> keeps_frame d tid sess ch'"
  using frame.kept.loop_stop [of "td_chat d" tid sess ch msg ms r ch'] by (simp add: keeps_frame_def)

lemma frame_compact: "keeps_frame d tid sess ch \<Longrightarrow> keeps_frame d tid sess (auto_compact d tid th ch)"
  by (auto simp: auto_compact_def Let_def keeps_frame_def in_thread split: option.splits prod.splits)

lemma frame_run_turn:
  assumes "keeps_frame d tid sess ch" and "run_turn d msg tid content um ch = (r, um', ch')"
  shows "keeps_frame d tid sess ch'"
proof (cases "thread_of tid ch")
  case None
  then show ?thesis using assms by (simp add: run_turn_def)
next
  case (Some th)
  show ?thesis
  proof (rule run_turn_cases [OF assms(2) Some])
    fix th1 th2 result ch2
    let ?ch0 = "turn_start d msg tid th2 content (auto_compact d tid th ch)"
    assume "run_agentic_loop (td_chat d) msg tid (messages th2) ?ch0 = (result, ch2)"
      and cases: "thread_of tid ch2 = None \<and> ch' = ch2 \<and> r = Inl (missing_thread tid)
       \<or> (\<exists>th3. thread_of tid ch2 = Some th3 \<and> thread_state th3 = Thread_Interrupted
            \<and> ch' = send_status (SU_Status ''Interrupted'') ch2 \<and> r = Inr Interrupted)
       \<or> (\<exists>th3 r1. thread_of tid ch2 = Some th3 \<and> thread_state th3 \<noteq> Thread_Interrupted
            \<and> finish_turn d True msg tid result ch2 = (r1, ch') \<and> r = Inr r1)"
    moreover have "keeps_frame d tid sess ?ch0"
      using keeps_frame_thread [OF frame_compact [OF assms(1)], of ?ch0] by simp
    ultimately have "keeps_frame d tid sess ch2" using frame_loop by blast
    then show ?thesis using cases frame_finish by auto
  qed
qed

lemma frame_user_input:
  "keeps_frame d tid sess ch \<Longrightarrow> process_user_input d msg tid content um ch = (r, um', ch') \<Longrightarrow> keeps_frame d tid sess ch'"
  by (auto simp: process_user_input_def split: option.splits if_splits prod.splits dest: frame_run_turn)

lemma frame_auth_intercept: "keeps_frame d tid sess ch \<Longrightarrow> keeps_frame d tid sess (handle_auth_intercept d msg tid result ext i ch)"
  by (auto simp: handle_auth_intercept_def Let_def keeps_frame_def in_thread split: option.splits)

lemma frame_record: "keeps_frame d tid sess ch \<Longrightarrow> keeps_frame d tid sess (record_result (td_chat d) tid result (preview_result n result ch))"
  using frame.record_result_keeps [of "td_chat d" tid sess "preview_result n result ch" result] by (simp add: keeps_frame_def)

lemma frame_deferred_auth:
  "keeps_frame d tid sess ch \<Longrightarrow> deferred_auth d msg tid n result auth ch = (auth', ch') \<Longrightarrow> keeps_frame d tid sess ch'"
  by (auto simp: deferred_auth_def frame_auth_intercept split: option.splits)

lemma frame_deferred_postflight:
  "keeps_frame d tid sess ch \<Longrightarrow> deferred_postflight d msg tid es auth ms ch = (auth', ms', ch') \<Longrightarrow> keeps_frame d tid sess ch'"
proof (induction es arbitrary: auth ms ch)
  case (Cons e es)
  then show ?case
    by (cases e) (auto split: prod.splits dest: frame_deferred_auth [OF frame_record])
qed simp

lemma frame_run_all: "keeps_frame d tid sess ch \<Longrightarrow> run_all (td_chat d) job tcs ch = (results, ch') \<Longrightarrow> keeps_frame d tid sess ch'"
  using frame.run_all_keeps [of "td_chat d" tid sess ch job tcs] by (simp add: keeps_frame_def)

lemma frame_ask: "keeps_frame d tid sess ch \<Longrightarrow> ask_approval d tid p ch = (r, ch') \<Longrightarrow> keeps_frame d tid sess ch'"
  by (auto simp: ask_approval_def keeps_frame_def in_thread)

lemma frame_continue:
  "keeps_frame d tid sess ch \<Longrightarrow> continue_turn d msg tid ms um ch = (r, um', ch') \<Longrightarrow> keeps_frame d tid sess ch'"
  by (auto simp: continue_turn_def split: prod.splits option.splits dest: frame_loop frame_finish)

lemma frame_run_deferred:
  "keeps_frame d tid sess ch \<Longrightarrow> run_deferred d msg tid job deferred ms um ch = (r, um', ch') \<Longrightarrow> keeps_frame d tid sess ch'"
  by (auto simp: run_deferred_def Let_def split: prod.splits option.splits if_splits
      dest!: frame_deferred_postflight [rotated] frame_run_all [rotated] frame_ask [rotated] frame_continue [rotated])

lemma frame_run_approved:
  assumes "keeps_frame d tid sess ch" and "run_approved d msg tid always p um ch = (r, um', ch')"
  shows "keeps_frame d tid sess ch'"
proof -
  define name where "name = pending_approval.pa_tool_name p"
  define ch0 where "ch0 = on_thread tid (\<lambda>th. th\<lparr>thread_state := Thread_Processing\<rparr>)
    (if always then ch\<lparr>ch_session := auto_approve_tool name (ch_session ch)\<rparr> else ch)"
  define job where "job = job_with_user (fresh_of d ch0) (im_user_id msg) ''chat'' ''Interactive chat session'' (now_of d ch0)"
  have ch0: "keeps_frame d tid sess (send_status (SU_ToolStarted name) ch0)"
    using assms(1) by (auto simp: ch0_def keeps_frame_def intro: touched.intros)
  obtain result ch1 where exec: "execute_chat_tool_standalone (td_chat d) name (pending_approval.pa_parameters p) job (send_status (SU_ToolStarted name) ch0) = (result, ch1)" by fastforce
  have "keeps_frame d tid sess ch1"
    using frame.execute_keeps [of "td_chat d" tid sess "send_status (SU_ToolStarted name) ch0" name "pending_approval.pa_parameters p" job] ch0 exec
    by (simp add: keeps_frame_def)
  note rec = frame_record [of d tid sess "send_status (tool_completed (td_chat d) name result (pa_display_parameters p) (cd_tool (td_chat d) (ch_ext ch1) name)) ch1" result name]
  have "keeps_frame d tid sess (record_result (td_chat d) tid result (preview_result name result
    (send_status (tool_completed (td_chat d) name result (pa_display_parameters p) (cd_tool (td_chat d) (ch_ext ch1) name)) ch1)))"
    using rec \<open>keeps_frame d tid sess ch1\<close> by simp
  then show ?thesis
    using assms(2) exec unfolding run_approved_def Let_def name_def [symmetric] ch0_def [symmetric] job_def [symmetric]
    by (auto split: option.splits dest: frame_run_deferred frame_auth_intercept)
qed

lemma frame_approval:
  assumes "keeps_frame d tid sess ch" and "process_approval d msg tid rid approved always um ch = (r, um', ch')"
  shows "keeps_frame d tid sess ch'"
proof -
  have put: "keeps_frame d tid sess (on_thread tid f c)" if "keeps_frame d tid sess c" for f c
    using that by (simp add: keeps_frame_def in_thread)
  have reject: "keeps_frame d tid sess ch'" if "reject_pending d msg tid p um c = (r, um', ch')" "keeps_frame d tid sess c" for p c
    using that by (auto simp: reject_pending_def Let_def keeps_frame_def in_thread split: option.splits)
  have approve: "keeps_frame d tid sess ch'" if "run_approved d msg tid always p um (on_thread tid f ch) = (r, um', ch')" for p f
    using frame_run_approved [OF put [OF assms(1)] that] .
  show ?thesis
    using assms put [OF assms(1)] put [OF put [OF assms(1)]] reject [OF _ put [OF assms(1)]] approve
    by (auto simp: process_approval_def Let_def take_pending_approval_def split: option.splits if_splits)
qed

section \<open>Settled sessions\<close>

definition session_settled :: "session \<Rightarrow> bool" where
  "session_settled sess \<longleftrightarrow> (\<forall>t th. threads sess t = Some th \<longrightarrow> thread_settled th)"

text \<open>Other tasks start no turns.\<close>

definition others_settle :: "'s chat_deps \<Rightarrow> bool" where
  "others_settle c \<longleftrightarrow>
     (\<forall>sess s t th'. threads (fst (cd_others c sess s)) t = Some th' \<longrightarrow> \<not> thread_settled th' \<longrightarrow>
        (\<exists>th. threads sess t = Some th \<and> \<not> thread_settled th))"

lemma touched_quiet:
  assumes "touched c tid sess s" and "others_settle c" and "session_settled sess"
  shows "t \<noteq> tid \<Longrightarrow> threads s t = Some th \<Longrightarrow> thread_settled th"
  using assms(1)
proof (induction arbitrary: t th)
  case untouched
  then show ?case using assms(3) by (auto simp: session_settled_def)
next
  case (by_others s e)
  show ?case
  proof (rule ccontr)
    assume "\<not> thread_settled th"
    then obtain th0 where "threads s t = Some th0" "\<not> thread_settled th0"
      using by_others.prems(2) assms(2) unfolding others_settle_def by blast
    then show False using by_others.IH by_others.prems(1) by blast
  qed
qed (auto simp: auto_approve_tool_def)

definition chat_fine :: "'s thread_deps \<Rightarrow> 's chat \<Rightarrow> bool" where
  "chat_fine d ch \<longleftrightarrow> chat_ok d ch \<and> others_settle (td_chat d) \<and> session_settled (ch_session ch)"

lemma chat_fine_frame:
  assumes "chat_fine d ch" and "chat_ok d ch'" and "keeps_frame d tid (ch_session ch) ch'" and "settled tid ch'"
  shows "chat_fine d ch'"
proof -
  have "thread_settled th" if "threads (ch_session ch') t = Some th" for t th
    using that assms touched_quiet [of "td_chat d" tid "ch_session ch" "ch_session ch'" t th]
    by (cases "t = tid") (auto simp: chat_fine_def keeps_frame_def settled_def thread_of_def)
  then show ?thesis using assms by (simp add: chat_fine_def session_settled_def)
qed

lemma keeps_frame_refl [simp]: "keeps_frame d tid (ch_session ch) ch"
  by (simp add: keeps_frame_def)

lemma fine_settled: "chat_fine d ch \<Longrightarrow> settled tid ch"
  by (auto simp: chat_fine_def session_settled_def settled_def thread_of_def split: option.splits)

lemma fine_user_input: "chat_fine d ch \<Longrightarrow> process_user_input d msg tid content um ch = (r, um', ch') \<Longrightarrow> chat_fine d ch'"
  using fine_settled [of d ch tid]
  by (intro chat_fine_frame [of d ch ch' tid])
    (auto simp: chat_fine_def intro: process_user_input_ok process_user_input_settled frame_user_input [OF keeps_frame_refl])

lemma fine_approval: "chat_fine d ch \<Longrightarrow> process_approval d msg tid rid approved always um ch = (r, um', ch') \<Longrightarrow> chat_fine d ch'"
  using fine_settled [of d ch tid]
  by (intro chat_fine_frame [of d ch ch' tid])
    (auto simp: chat_fine_def intro: process_approval_ok process_approval_settled frame_approval [OF keeps_frame_refl])

lemma fine_thread:
  assumes "chat_fine d ch" and "ch_trace ch' = ch_trace ch" and "ch_session ch' = upd_thread tid f (ch_session ch)"
    and "\<And>th. thread_of tid ch = Some th \<Longrightarrow> thread_settled (f th) \<and> pending_approval (f th) \<in> {pending_approval th, None}"
  shows "chat_fine d ch'"
proof -
  have "pendings_ok (ch_session ch')"
    unfolding assms(3) using assms(1,4) by (intro pendings_ok_upd) (auto simp: chat_fine_def chat_ok_def thread_of_def)
  then show ?thesis
    using assms by (auto simp: chat_fine_def chat_ok_def asks_ok_def session_settled_def thread_of_def)
qed

lemma fine_on_thread:
  assumes "chat_fine d ch"
    and "\<And>th. thread_of tid ch = Some th \<Longrightarrow> thread_settled (f th) \<and> pending_approval (f th) \<in> {pending_approval th, None}"
  shows "chat_fine d (on_thread tid f ch)"
  by (rule fine_thread [OF assms(1) _ _ assms(2)]) simp_all

lemma fine_restore [simp]: "chat_fine d ch \<Longrightarrow> chat_fine d (on_thread tid (restore_from_messages ms now) ch)"
  by (rule fine_on_thread) (simp_all, simp add: restore_from_messages_def)

lemma fine_ext [simp]: "chat_fine d (ch\<lparr>ch_ext := s\<rparr>) = chat_fine d ch" "chat_fine d (send_status st ch) = chat_fine d ch"
  by (simp_all add: chat_fine_def chat_ok_def asks_ok_def)

lemma fine_undo: "chat_fine d ch \<Longrightarrow> process_undo d tid um ch = (r, um', ch') \<Longrightarrow> chat_fine d ch'"
  by (auto simp: process_undo_def split: if_splits option.splits prod.splits)

lemma fine_redo: "chat_fine d ch \<Longrightarrow> process_redo d tid um ch = (r, um', ch') \<Longrightarrow> chat_fine d ch'"
  by (auto simp: process_redo_def split: if_splits option.splits prod.splits)

lemma fine_resume: "chat_fine d ch \<Longrightarrow> process_resume d tid i um ch = (r, um', ch') \<Longrightarrow> chat_fine d ch'"
  by (auto simp: process_resume_def split: if_splits option.splits prod.splits)

lemma fine_interrupt: "chat_fine d ch \<Longrightarrow> process_interrupt d tid um ch = (r, um', ch') \<Longrightarrow> chat_fine d ch'"
  using fine_on_thread [of d ch tid "thread_interrupt now" for now]
  by (auto simp: process_interrupt_def thread_interrupt_def thread_settled_def split: if_splits option.splits)

lemma fine_clear: "chat_fine d ch \<Longrightarrow> process_clear d tid um ch = (r, um', ch') \<Longrightarrow> chat_fine d ch'"
  by (auto simp: process_clear_def thread_settled_def intro!: fine_on_thread split: option.splits)

lemma fine_compact:
  assumes "chat_fine d ch" and "process_compact d tid um ch = (r, um', ch')"
  shows "chat_fine d ch'"
proof (cases "thread_of tid ch")
  case None
  then show ?thesis using assms by (simp add: process_compact_def)
next
  case (Some th)
  define st where "st = (case suggest_compaction (td_monitor d) (messages th) of Some st \<Rightarrow> st | None \<Rightarrow> CS_Summarize 5)"
  obtain cr th' s where c: "compact (td_compactor d) st th (ch_ext ch) = (cr, th', s)" using prod_cases3 by blast
  have "thread_settled th'"
    using compact_state [OF c] fine_settled [OF assms(1), of tid] Some by (simp add: settled_def thread_settled_def)
  then have "chat_fine d (on_thread tid (\<lambda>_. th') ch)"
    using compact_state [OF c] Some by (intro fine_on_thread [OF assms(1)]) simp
  then have "chat_fine d ((on_thread tid (\<lambda>_. th') ch)\<lparr>ch_ext := s\<rparr>)" by simp
  moreover have "ch' = (on_thread tid (\<lambda>_. th') ch)\<lparr>ch_ext := s\<rparr>"
    using assms(2) Some c unfolding process_compact_def Let_def by (auto simp: on_thread_def simp flip: st_def)
  ultimately show ?thesis by simp
qed

lemma fine_set_auth: "chat_fine d ch \<Longrightarrow> chat_fine d (on_thread tid (set_auth a) ch)"
  using fine_settled [of d ch tid] by (auto simp: set_auth_def settled_def thread_settled_def intro!: fine_on_thread)

lemma fine_enter_auth: "chat_fine d ch \<Longrightarrow> chat_fine d (on_thread tid (enter_auth_mode ext now) ch)"
  using fine_settled [of d ch tid] by (auto simp: enter_auth_mode_def settled_def thread_settled_def intro!: fine_on_thread)

lemma fine_auth_token: "chat_fine d ch \<Longrightarrow> process_auth_token d pending token tid ch = (t, ch') \<Longrightarrow> chat_fine d ch'"
  by (auto simp: process_auth_token_def Let_def fine_set_auth fine_enter_auth split: option.splits prod.splits sum.splits if_splits)

lemma fine_new_thread: "chat_fine d ch \<Longrightarrow> process_new_thread d ch = (r, ch') \<Longrightarrow> chat_fine d ch'"
  by (auto simp: process_new_thread_def create_thread_def chat_fine_def chat_ok_def asks_ok_def session_settled_def pendings_ok_def
      thread_new_def thread_settled_def split: option.splits if_splits)

lemma fine_switch_thread: "chat_fine d ch \<Longrightarrow> process_switch_thread d target ch = (r, ch') \<Longrightarrow> chat_fine d ch'"
  by (auto simp: process_switch_thread_def switch_thread_def chat_fine_def chat_ok_def asks_ok_def session_settled_def pendings_ok_def
      split: if_splits)

lemma answered_drop: "answered (drop n (turn_messages ts))"
proof -
  have "list_all (\<lambda>m. cm_role m \<noteq> Tool \<and> called_ids m = []) (turn_messages ts)"
    by (induction ts) (auto split: option.splits)
  moreover have "answered ms" if "list_all (\<lambda>m. cm_role m \<noteq> Tool \<and> called_ids m = []) ms" for ms
    unfolding answered_def using that by (induction ms) simp_all
  ultimately show ?thesis by (meson in_set_dropD list_all_iff)
qed

lemma fine_ask_about:
  assumes "chat_fine (ad_td d) ch" and "ask_about d p q t e h f tid ch = (r, ch')"
  shows "chat_fine (ad_td d) ch'"
proof -
  have "answered (msg_system p # recent_messages (messages th) @ [msg_user q])" for th
    using answered_drop [of _ "turns th"]
    by (auto simp: answered_def outstanding_append recent_messages_def messages_def Let_def)
  then show ?thesis
    using assms by (auto simp: ask_about_def Let_def chat_fine_def chat_ok_def asks_ok_def chat_traced_def
        split: option.splits if_splits prod.splits)
qed

section \<open>The state between messages\<close>

definition session_fine :: "session \<Rightarrow> bool" where
  "session_fine sess \<longleftrightarrow> session_settled sess \<and> pendings_ok sess"

definition sessions_fine :: "session_manager \<Rightarrow> bool" where
  "sessions_fine m \<longleftrightarrow> (\<forall>u s. hm_get (sm_sessions m) u = Some s \<longrightarrow> session_fine s)"

text \<open>
  Every conversation sent to a model has its tool results in place, no thread of any session is in
  the middle of a turn, and a thread that waits for an approval has one, whose unanswered calls are
  its own and the deferred ones.
\<close>

definition agent_ok :: "'s agent \<Rightarrow> bool" where
  "agent_ok a \<longleftrightarrow> list_all ask_ok (ag_trace a) \<and> sessions_fine (ag_manager a)"

text \<open>What is demanded of the tasks that run beside the agent.\<close>

definition others_well :: "'s agent_deps \<Rightarrow> bool" where
  "others_well d \<longleftrightarrow> keeps_pendings (td_chat (ad_td d)) \<and> others_settle (td_chat (ad_td d))"

lemma agent_ok_chat:
  "others_well d \<Longrightarrow> agent_ok a \<Longrightarrow> hm_get (sm_sessions (ag_manager a)) u = Some s \<Longrightarrow> chat_fine (ad_td d) (chat_of s a)"
  by (simp add: others_well_def agent_ok_def sessions_fine_def session_fine_def chat_fine_def chat_ok_def chat_of_def asks_ok_def)

lemma put_chat_ok: "agent_ok a \<Longrightarrow> chat_fine (ad_td d) ch \<Longrightarrow> agent_ok (put_chat uid ch a)"
  by (auto simp: agent_ok_def sessions_fine_def session_fine_def chat_fine_def chat_ok_def asks_ok_def put_chat_def hm_get_update
      split: if_splits)

lemma on_chat_ok:
  assumes "others_well d" and "agent_ok a" and "\<And>ch r ch'. chat_fine (ad_td d) ch \<Longrightarrow> f ch = (r, ch') \<Longrightarrow> chat_fine (ad_td d) ch'"
  shows "agent_ok (snd (on_chat uid f miss a))"
proof (cases "hm_get (sm_sessions (ag_manager a)) uid")
  case None
  then show ?thesis using assms(2) by (simp add: on_chat_def)
next
  case (Some s)
  obtain r ch' where f: "f (chat_of s a) = (r, ch')" by fastforce
  have "chat_fine (ad_td d) ch'" using assms(3) [OF agent_ok_chat [OF assms(1,2) Some] f] .
  then show ?thesis using Some put_chat_ok [OF assms(2)] f by (simp add: on_chat_def)
qed

lemma agent_ok_manager:
  "agent_ok a \<Longrightarrow> sm_sessions m = sm_sessions (ag_manager a) \<Longrightarrow> agent_ok (a\<lparr>ag_manager := m\<rparr>)"
  by (simp add: agent_ok_def sessions_fine_def)

lemma put_undo_ok [simp]: "agent_ok (put_undo tid um a) = agent_ok a"
  by (simp add: put_undo_def agent_ok_def sessions_fine_def)

lemma get_undo_sessions: "sm_sessions (snd (get_undo_manager tid m)) = sm_sessions m"
  by (simp add: get_undo_manager_def split: option.split)

lemma with_undo_ok:
  assumes "others_well d" and "agent_ok a"
    and "\<And>um ch r um' ch'. chat_fine (ad_td d) ch \<Longrightarrow> f um ch = (r, um', ch') \<Longrightarrow> chat_fine (ad_td d) ch'"
  shows "agent_ok (snd (with_undo tid uid f a))"
proof -
  obtain um m where get: "get_undo_manager tid (ag_manager a) = (um, m)" by fastforce
  have "agent_ok (a\<lparr>ag_manager := m\<rparr>)"
    using agent_ok_manager [OF assms(2)] get_undo_sessions [of tid "ag_manager a"] get by simp
  then have "agent_ok (snd (on_chat uid (\<lambda>ch. case f um ch of (r, um, ch) \<Rightarrow> ((r, um), ch)) (Inl (missing_thread tid), um) (a\<lparr>ag_manager := m\<rparr>)))"
    by (rule on_chat_ok [OF assms(1)]) (use assms(3) in \<open>auto split: prod.splits\<close>)
  then show ?thesis
    by (auto simp: with_undo_def get split: prod.splits)
qed

lemma without_undo_ok:
  assumes "others_well d" and "agent_ok a"
    and "\<And>um ch r um' ch'. chat_fine (ad_td d) ch \<Longrightarrow> f um ch = (r, um', ch') \<Longrightarrow> chat_fine (ad_td d) ch'"
  shows "agent_ok (snd (without_undo tid uid f a))"
  unfolding without_undo_def by (rule on_chat_ok [OF assms(1,2)]) (use assms(3) in \<open>auto split: prod.splits\<close>)

lemma dispatch_ok:
  assumes "others_well d" and "agent_ok a"
  shows "agent_ok (snd (dispatch d msg tid sub a))"
proof -
  have ext: "agent_ok (a\<lparr>ag_ext := s\<rparr>)" for s using assms(2) by (simp add: agent_ok_def)
  note ops = fine_user_input fine_approval fine_undo fine_redo fine_resume fine_interrupt fine_clear fine_compact
    fine_new_thread fine_switch_thread fine_ask_about
  show ?thesis
    using ext
    by (cases sub) (auto simp: dispatch_def Let_def process_summarize_def process_suggest_def
        intro!: on_chat_ok [OF assms] with_undo_ok [OF assms] without_undo_ok [OF assms] split: prod.splits intro: ops)
qed

section \<open>Locating the thread\<close>

lemma get_or_create_fine: "sessions_fine m \<Longrightarrow> sessions_fine (snd (get_or_create_session sid now uid m)) \<and> session_fine (fst (get_or_create_session sid now uid m))"
  by (auto simp: get_or_create_session_def Let_def sessions_fine_def session_fine_def session_new_def session_settled_def pendings_ok_def
      hm_get_insert split: option.split if_splits)

lemma create_thread_fine: "session_fine s \<Longrightarrow> session_fine (snd (create_thread tid now s))"
  by (auto simp: session_fine_def create_thread_def session_settled_def pendings_ok_def thread_new_def thread_settled_def split: option.splits if_splits)

lemma create_in_session_fine: "sessions_fine m \<Longrightarrow> sessions_fine (create_in_session uid tid now m)"
  by (auto simp: create_in_session_def sessions_fine_def hm_get_update create_thread_fine split: if_splits)

lemma same_sessions_fine [simp]:
  "sessions_fine (map_thread key t m) = sessions_fine m" "sessions_fine (ensure_undo t m) = sessions_fine m"
  "sessions_fine (new_undo t m) = sessions_fine m"
  by (simp_all add: sessions_fine_def map_thread_def ensure_undo_def new_undo_def split: option.split)

lemma resolve_fine: "sessions_fine m \<Longrightarrow> sessions_fine (snd (resolve_thread parse_str sid t now uid channel ext m))"
  using get_or_create_fine [of m sid now uid]
  by (auto simp: resolve_thread_def Let_def create_in_session_fine split: option.split)

lemma hydrated_thread_fine:
  "thread_settled (if ms \<noteq> [] then restore_from_messages ms now (thread_with_id t i now) else thread_with_id t i now)
   \<and> pending_approval (if ms \<noteq> [] then restore_from_messages ms now (thread_with_id t i now) else thread_with_id t i now) = None"
  by (simp add: restore_from_messages_def thread_with_id_def thread_settled_def)

lemma insert_thread_fine:
  "session_fine s \<Longrightarrow> thread_settled th \<Longrightarrow> pending_approval th = None \<Longrightarrow>
   session_fine (s\<lparr>threads := (threads s)(t \<mapsto> th), active_thread := x, last_active_at := now\<rparr>)"
  by (auto simp: session_fine_def session_settled_def pendings_ok_def split: if_splits)

lemma register_fine:
  "sessions_fine m \<Longrightarrow> session_fine s \<Longrightarrow> sessions_fine (register_thread to_string uid channel t s m)"
  by (auto simp: register_thread_def Let_def sessions_fine_def hm_get_insert split: option.split if_splits)

lemma hydrate_fine:
  assumes "sessions_fine m"
  shows "sessions_fine (maybe_hydrate_thread parse_str to_string store sid now uid channel ext m)"
proof (cases "parse_str ext")
  case None
  then show ?thesis using assms by (simp add: maybe_hydrate_thread_def)
next
  case (Some t)
  obtain s m1 where get: "get_or_create_session sid now uid m = (s, m1)" by fastforce
  then have fine: "sessions_fine m1" "session_fine s" using get_or_create_fine [OF assms, of sid now uid] by simp_all
  define ms where "ms = (case store of Some list_messages \<Rightarrow> db_chat_messages (list_messages t) | None \<Rightarrow> [])"
  define th where "th = (if ms \<noteq> [] then restore_from_messages ms now (thread_with_id t (session_id s) now) else thread_with_id t (session_id s) now)"
  define s' where "s' = s\<lparr>threads := (threads s)(t \<mapsto> th), active_thread := Some t, last_active_at := now\<rparr>"
  have s': "session_fine s'"
    unfolding s'_def th_def using insert_thread_fine [OF fine(2)] hydrated_thread_fine by blast
  then have "sessions_fine (m1\<lparr>sm_sessions := hm_insert uid s' (sm_sessions m1)\<rparr>)"
    using fine by (auto simp: sessions_fine_def hm_get_insert)
  then show ?thesis
    using fine register_fine s'
    unfolding maybe_hydrate_thread_def Some get Let_def option.case prod.case ms_def [symmetric] th_def [symmetric] s'_def [symmetric]
    by simp
qed

lemma locate_ok: "agent_ok a \<Longrightarrow> agent_ok (snd (locate_thread d msg a))"
  by (auto simp: locate_thread_def Let_def agent_ok_def split: prod.split option.split)
    (metis resolve_fine hydrate_fine snd_conv)+

lemma prune_fine: "sessions_fine m \<Longrightarrow> sessions_fine (snd (prune_stale_sessions now idle c c' m))"
  by (auto simp: prune_stale_sessions_def prune_remove_def Let_def sessions_fine_def hm_get_foldl_remove split: if_splits)

section \<open>Handling a message, by cases\<close>

abbreviation parsed :: "'s agent_deps \<Rightarrow> incoming_message \<Rightarrow> submission" where
  "parsed d msg \<equiv> parse (ad_parse_uuid d) (ad_approval_json d) (im_content msg)"

text \<open>Hooks change the text of user input, nothing else.\<close>

definition same_kind :: "submission \<Rightarrow> submission \<Rightarrow> bool" where
  "same_kind sub sub' \<longleftrightarrow> sub' = sub \<or> (\<exists>t t'. sub = UserInput t \<and> sub' = UserInput t')"

lemma inbound_hooks_kind: "inbound_hooks d msg sub s = (Inr sub', s') \<Longrightarrow> same_kind sub sub'"
  by (auto simp: inbound_hooks_def same_kind_def Let_def
      split: submission.splits prod.splits sum.splits hook_error.splits hook_outcome.splits option.splits)

lemma handle_message_split:
  assumes "handle_message d msg a = (r, a')"
  obtains
    (rejected) answer s where "a' = a\<lparr>ag_ext := s\<rparr>" "r = Inr (Some answer)"
  | (auth) s tid a1 pending token where
      "same_kind (parsed d msg) (UserInput token)" "locate_thread d msg (a\<lparr>ag_ext := s\<rparr>) = (tid, a1)"
      "pending_auth_of tid (im_user_id msg) a1 = Some pending"
      "on_chat (im_user_id msg) (\<lambda>ch. case process_auth_token (ad_td d) pending token tid ch of (t, ch) \<Rightarrow> (Inr (Some t), ch))
         (Inl (missing_thread tid)) a1 = (r, a')"
  | (handled) s sub tid a1 a2 where
      "same_kind (parsed d msg) sub" "locate_thread d msg (a\<lparr>ag_ext := s\<rparr>) = (tid, a1)"
      "a2 = (if pending_auth_of tid (im_user_id msg) a1 \<noteq> None then cancel_auth tid (im_user_id msg) a1 else a1)"
      "sub = Quit \<and> r = Inr None \<and> a' = a2 \<or> (\<exists>r0 a3. dispatch d msg tid sub a2 = (r0, a3) \<and> answer_of d r0 a3 = (r, a'))"
proof -
  define a0 where "a0 = a\<lparr>ag_ext := ad_set_tool_context d (im_channel msg) (message_target msg) (ag_ext a)\<rparr>"
  obtain x s where hooks: "inbound_hooks d msg (parsed d msg) (ag_ext a0) = (x, s)" by fastforce
  have a0: "a0\<lparr>ag_ext := s\<rparr> = a\<lparr>ag_ext := s\<rparr>" by (simp add: a0_def)
  note run = assms [unfolded handle_message_def Let_def a0_def [symmetric] hooks prod.case a0]
  show ?thesis
  proof (cases x)
    case (Inl answer)
    then show ?thesis using run rejected [of s answer] by auto
  next
    case (Inr sub)
    obtain tid a1 where loc: "locate_thread d msg (a\<lparr>ag_ext := s\<rparr>) = (tid, a1)" by fastforce
    note kind = inbound_hooks_kind [OF hooks [unfolded Inr]]
    define a2 where "a2 = (if pending_auth_of tid (im_user_id msg) a1 \<noteq> None then cancel_auth tid (im_user_id msg) a1 else a1)"
    show ?thesis
    proof (cases "awaited_token (pending_auth_of tid (im_user_id msg) a1) sub")
      case None
      then show ?thesis
        using run Inr loc handled [OF kind loc a2_def] by (auto simp: a2_def Let_def split: if_splits prod.splits)
    next
      case (Some pt)
      then obtain pending token where "pt = (pending, token)" "pending_auth_of tid (im_user_id msg) a1 = Some pending" "sub = UserInput token"
        by (auto simp: awaited_token_def split: option.splits submission.splits)
      then show ?thesis using run auth [OF _ loc] kind loc Inr Some by (auto simp: Let_def)
    qed
  qed
qed

lemma answer_of_fields:
  "answer_of d r0 a = (r, a') \<Longrightarrow> ag_manager a' = ag_manager a \<and> ag_trace a' = ag_trace a \<and> ag_saved a' = ag_saved a"
  by (auto simp: answer_of_def split: sum.splits submission_result.splits)

lemma handle_message_ok:
  assumes "others_well d" and "agent_ok a" and run: "handle_message d msg a = (r, a')"
  shows "agent_ok a'"
  using run
proof (cases rule: handle_message_split)
  case (rejected answer s)
  then show ?thesis using assms(2) by (simp add: agent_ok_def)
next
  case (auth s tid a1 pending token)
  have "agent_ok a1" using locate_ok [of "a\<lparr>ag_ext := s\<rparr>" d msg] assms(2) auth(2) by (simp add: agent_ok_def)
  then have "agent_ok (snd (on_chat (im_user_id msg)
      (\<lambda>ch. case process_auth_token (ad_td d) pending token tid ch of (t, ch) \<Rightarrow> (Inr (Some t), ch)) (Inl (missing_thread tid)) a1))"
    by (rule on_chat_ok [OF assms(1)]) (auto split: prod.splits intro: fine_auth_token)
  then show ?thesis using auth(4) by (metis snd_conv)
next
  case (handled s sub tid a1 a2)
  have "agent_ok a1" using locate_ok [of "a\<lparr>ag_ext := s\<rparr>" d msg] assms(2) handled(2) by (simp add: agent_ok_def)
  then have a2: "agent_ok a2"
    unfolding handled(3) cancel_auth_def using fine_set_auth by (auto intro!: on_chat_ok [OF assms(1)])
  then show ?thesis
    using handled(4) dispatch_ok [OF assms(1) a2, of msg tid sub] by (auto dest: answer_of_fields simp: agent_ok_def)
qed

lemma deliver_fields [simp]:
  "ag_manager (deliver d msg resp a) = ag_manager a" "ag_trace (deliver d msg resp a) = ag_trace a"
  "ag_saved (deliver d msg resp a) = ag_saved a"
  by (auto simp: deliver_def Let_def send_response_def split: prod.splits sum.splits hook_outcome.splits option.splits)

lemma send_response_fields [simp]:
  "ag_manager (send_response d msg resp a) = ag_manager a" "ag_trace (send_response d msg resp a) = ag_trace a"
  "ag_saved (send_response d msg resp a) = ag_saved a"
  by (simp_all add: send_response_def)

lemma agent_round_split:
  assumes "agent_round d msg a = (go, a')"
  obtains r a1 where "handle_message d msg a = (r, a1)" "ag_manager a' = ag_manager a1" "ag_trace a' = ag_trace a1"
    "ag_saved a' = ag_saved a1" "go \<longleftrightarrow> r \<noteq> Inr None"
proof -
  obtain r a1 where h: "handle_message d msg a = (r, a1)" by fastforce
  show ?thesis
    by (rule that [OF h]) (use assms h in \<open>auto simp: agent_round_def Let_def split: sum.splits option.splits if_splits\<close>)
qed

section \<open>Runs\<close>

text \<open>Messages one after another; between them stale sessions are pruned and other tasks touch sessions.\<close>

inductive agent_step :: "'s agent_deps \<Rightarrow> 's agent \<Rightarrow> 's agent \<Rightarrow> bool" for d where
  step_message: "agent_round d msg a = (go, a') \<Longrightarrow> agent_step d a a'"
| step_prune: "agent_step d a (a\<lparr>ag_manager := snd (prune_stale_sessions now idle contended contended' (ag_manager a))\<rparr>)"
| step_others: "cd_others (td_chat (ad_td d)) sess (ag_ext a) = (sess', s) \<Longrightarrow> hm_get (sm_sessions (ag_manager a)) uid = Some sess \<Longrightarrow>
    agent_step d a (put_chat uid ((chat_of sess a)\<lparr>ch_session := sess', ch_ext := s\<rparr>) a)"

inductive_cases agent_stepE: "agent_step d a a'"

lemma agent_step_ok:
  assumes "others_well d" and "agent_ok a" and "agent_step d a a'"
  shows "agent_ok a'"
  using assms(3)
proof (rule agent_stepE)
  fix msg go
  assume "agent_round d msg a = (go, a')"
  then show ?thesis
    by (rule agent_round_split) (use handle_message_ok [OF assms(1,2)] in \<open>auto simp: agent_ok_def\<close>)
next
  fix now idle c c'
  assume "a' = a\<lparr>ag_manager := snd (prune_stale_sessions now idle c c' (ag_manager a))\<rparr>"
  then show ?thesis using assms(2) prune_fine by (auto simp: agent_ok_def)
next
  fix sess sess' s uid
  assume a': "a' = put_chat uid ((chat_of sess a)\<lparr>ch_session := sess', ch_ext := s\<rparr>) a"
    and oth: "cd_others (td_chat (ad_td d)) sess (ag_ext a) = (sess', s)" and get: "hm_get (sm_sessions (ag_manager a)) uid = Some sess"
  have "session_fine sess" using assms(2) get by (auto simp: agent_ok_def sessions_fine_def)
  then have "session_fine sess'"
    using assms(1) oth unfolding others_well_def keeps_pendings_def others_settle_def session_fine_def session_settled_def
    by (metis fst_conv)
  then show ?thesis
    using assms(2) unfolding a' by (auto simp: agent_ok_def sessions_fine_def put_chat_def chat_of_def hm_get_update split: if_splits)
qed

lemma agent_run_steps: "(agent_step d)\<^sup>*\<^sup>* a (agent_run d msgs a)"
proof (induction msgs arbitrary: a)
  case (Cons msg msgs)
  obtain go a1 where round: "agent_round d msg a = (go, a1)" by fastforce
  have "agent_step d a a1" using round by (rule step_message)
  then show ?case
    using Cons.IH [of a1] round by (cases go) (auto intro: converse_rtranclp_into_rtranclp)
qed simp

section \<open>Consent\<close>

text \<open>What a submission may make run, for the thread and the session it was resolved to.\<close>

definition submission_consents :: "'s agent_deps \<Rightarrow> uuid \<Rightarrow> submission \<Rightarrow> session \<Rightarrow> 's agent \<Rightarrow> chat_trace list \<Rightarrow> bool" where
  "submission_consents d tid sub sess a added =
     (case sub of
        ExecApproval rid approved always \<Rightarrow> consented (ad_td d) tid (Some rid) approved always (chat_of sess a) added
      | ApprovalResponse approved always \<Rightarrow> consented (ad_td d) tid None approved always (chat_of sess a) added
      | _ \<Rightarrow> list_all (run_ok (td_chat (ad_td d)) (auto_approved_tools sess)) added)"

lemma consents_nothing [simp]: "submission_consents d tid sub sess a []"
  by (simp add: submission_consents_def consented_def split: submission.split)

lemma consented_ask: "list_all (run_ok (td_chat (ad_td d)) (auto_approved_tools sess)) [CtAsk ctx ts]"
  by simp

lemma on_chat_added:
  assumes "hm_get (sm_sessions (ag_manager a)) uid = Some sess"
    and "\<And>r ch'. f (chat_of sess a) = (r, ch') \<Longrightarrow> \<exists>added. ch_trace ch' = ag_trace a @ added \<and> P added"
  shows "\<exists>added. ag_trace (snd (on_chat uid f miss a)) = ag_trace a @ added \<and> P added"
  using assms by (auto simp: on_chat_def put_chat_def split: prod.split)

lemma with_undo_added:
  assumes "hm_get (sm_sessions (ag_manager a)) uid = Some sess"
    and "\<And>um r um' ch'. f um (chat_of sess a) = (r, um', ch') \<Longrightarrow> \<exists>added. ch_trace ch' = ag_trace a @ added \<and> P added"
  shows "\<exists>added. ag_trace (snd (with_undo tid uid f a)) = ag_trace a @ added \<and> P added"
proof -
  obtain um m where get: "get_undo_manager tid (ag_manager a) = (um, m)" by fastforce
  let ?f = "\<lambda>ch. case f um ch of (r, um, ch) \<Rightarrow> ((r, um), ch)"
  have same: "hm_get (sm_sessions (ag_manager (a\<lparr>ag_manager := m\<rparr>))) uid = Some sess" "chat_of sess (a\<lparr>ag_manager := m\<rparr>) = chat_of sess a"
    using assms(1) get_undo_sessions [of tid "ag_manager a"] get by (simp_all add: chat_of_def)
  have "\<exists>added. ag_trace (snd (on_chat uid ?f (Inl (missing_thread tid), um) (a\<lparr>ag_manager := m\<rparr>)))
      = ag_trace (a\<lparr>ag_manager := m\<rparr>) @ added \<and> P added"
    by (rule on_chat_added [OF same(1)]) (use same(2) assms(2) in \<open>auto split: prod.splits\<close>)
  then show ?thesis
    by (auto simp: with_undo_def get put_undo_def split: prod.splits)
qed

lemma without_undo_added:
  assumes "hm_get (sm_sessions (ag_manager a)) uid = Some sess"
    and "\<And>um r um' ch'. f um (chat_of sess a) = (r, um', ch') \<Longrightarrow> \<exists>added. ch_trace ch' = ag_trace a @ added \<and> P added"
  shows "\<exists>added. ag_trace (snd (without_undo tid uid f a)) = ag_trace a @ added \<and> P added"
  unfolding without_undo_def by (rule on_chat_added [OF assms(1)]) (use assms(2) in \<open>auto split: prod.splits\<close>)

lemma simple_ops_trace:
  "process_undo t tid um ch = (r, um', ch') \<Longrightarrow> ch_trace ch' = ch_trace ch"
  "process_redo t tid um ch = (r, um', ch') \<Longrightarrow> ch_trace ch' = ch_trace ch"
  "process_resume t tid i um ch = (r, um', ch') \<Longrightarrow> ch_trace ch' = ch_trace ch"
  "process_interrupt t tid um ch = (r, um', ch') \<Longrightarrow> ch_trace ch' = ch_trace ch"
  "process_clear t tid um ch = (r, um', ch') \<Longrightarrow> ch_trace ch' = ch_trace ch"
  "process_compact t tid um ch = (r, um', ch') \<Longrightarrow> ch_trace ch' = ch_trace ch"
  by (auto simp: process_undo_def process_redo_def process_resume_def process_interrupt_def process_clear_def process_compact_def Let_def
      split: if_splits option.splits prod.splits)

lemma thread_ops_trace:
  "process_new_thread t ch = (r', ch') \<Longrightarrow> ch_trace ch' = ch_trace ch"
  "process_switch_thread t target ch = (r', ch') \<Longrightarrow> ch_trace ch' = ch_trace ch"
  by (auto simp: process_new_thread_def process_switch_thread_def split: prod.splits bool.splits)

lemma ask_about_trace:
  "ask_about d p q t e h f tid ch = (r, ch') \<Longrightarrow> \<exists>added. ch_trace ch' = ch_trace ch @ added \<and> list_all (run_ok c A) added"
  by (auto simp: ask_about_def Let_def chat_traced_def split: option.splits if_splits prod.splits)

lemma chat_of_fields [simp]: "ch_trace (chat_of sess a) = ag_trace a" "ch_session (chat_of sess a) = sess"
  "thread_of tid (chat_of sess a) = threads sess tid"
  by (simp_all add: chat_of_def thread_of_def)

lemma dispatch_added:
  assumes "keeps_approvals (td_chat (ad_td d))" and get: "hm_get (sm_sessions (ag_manager a)) (im_user_id msg) = Some sess"
  shows "\<exists>added. ag_trace (snd (dispatch d msg tid sub a)) = ag_trace a @ added \<and> submission_consents d tid sub sess a added"
proof (cases sub)
  case (UserInput content)
  show ?thesis
    using with_undo_added [OF get, of "process_user_input (ad_td d) msg tid content"
        "list_all (run_ok (td_chat (ad_td d)) (auto_approved_tools sess))" tid] process_user_input_adds_ok [OF assms(1), of msg tid content _ "chat_of sess a"]
    by (simp add: UserInput dispatch_def submission_consents_def adds_ok_def)
next
  case (ExecApproval rid approved always)
  show ?thesis
    using without_undo_added [OF get, of "process_approval (ad_td d) msg tid (Some rid) approved always"
        "consented (ad_td d) tid (Some rid) approved always (chat_of sess a)" tid]
      process_approval_consented [OF assms(1), of msg tid "Some rid" approved always _ "chat_of sess a"]
    by (simp add: ExecApproval dispatch_def submission_consents_def)
next
  case (ApprovalResponse approved always)
  show ?thesis
    using without_undo_added [OF get, of "process_approval (ad_td d) msg tid None approved always"
        "consented (ad_td d) tid None approved always (chat_of sess a)" tid]
      process_approval_consented [OF assms(1), of msg tid None approved always _ "chat_of sess a"]
    by (simp add: ApprovalResponse dispatch_def submission_consents_def)
qed (auto simp: dispatch_def Let_def submission_consents_def process_summarize_def process_suggest_def
    intro!: on_chat_added [OF get] with_undo_added [OF get] without_undo_added [OF get]
    split: prod.splits dest!: simple_ops_trace thread_ops_trace ask_about_trace)

lemma ag_manager_ext: "ag_manager (a\<lparr>ag_ext := s\<rparr>) = ag_manager a"
  by simp

text \<open>Cancelling the auth mode, and what hooks do to the text, make no difference for consent.\<close>

lemma consented_transfer:
  assumes "consented t tid rid approved always (chat_of sess' a') added"
    and "sess' \<in> {sess, upd_thread tid (set_auth None) sess}"
  shows "consented t tid rid approved always (chat_of sess a) added"
proof -
  have "auto_approved_tools sess' = auto_approved_tools sess" using assms(2) by auto
  moreover have "\<exists>th. threads sess tid = Some th \<and> thread_state th = thread_state th' \<and> pending_approval th = pending_approval th'"
    if "threads sess' tid = Some th'" for th'
    using that assms(2) by (auto simp: set_auth_def)
  ultimately show ?thesis
    using assms(1) unfolding consented_def chat_of_fields by metis
qed

lemma consents_transfer:
  assumes "submission_consents d tid sub (if b then upd_thread tid (set_auth None) sess else sess) a' added" and "same_kind sub0 sub"
  shows "submission_consents d tid sub0 sess a added"
proof -
  let ?sess = "if b then upd_thread tid (set_auth None) sess else sess"
  have "?sess \<in> {sess, upd_thread tid (set_auth None) sess}" "auto_approved_tools ?sess = auto_approved_tools sess" by simp_all
  then show ?thesis
    using assms consented_transfer [of "ad_td d" tid _ _ _ ?sess a' added sess a]
    by (auto simp: submission_consents_def same_kind_def split: submission.splits)
qed

section \<open>Users\<close>

lemma get_or_create_get:
  "hm_get (sm_sessions (snd (get_or_create_session sid now uid m))) u
   = (if u = uid then Some (fst (get_or_create_session sid now uid m)) else hm_get (sm_sessions m) u)"
  by (auto simp: get_or_create_session_def Let_def hm_get_insert split: option.split)

lemma same_sessions [simp]:
  "sm_sessions (map_thread key t m) = sm_sessions m" "sm_sessions (ensure_undo t m) = sm_sessions m"
  "sm_sessions (new_undo t m) = sm_sessions m"
  by (simp_all add: map_thread_def ensure_undo_def new_undo_def split: option.split)

lemma register_get: "u \<noteq> uid \<Longrightarrow> hm_get (sm_sessions (register_thread to_string uid channel t s m)) u = hm_get (sm_sessions m) u"
  by (auto simp: register_thread_def Let_def hm_get_insert split: option.split)

lemma hydrate_get:
  assumes "u \<noteq> uid"
  shows "hm_get (sm_sessions (maybe_hydrate_thread parse_str to_string store sid now uid channel ext m)) u = hm_get (sm_sessions m) u"
proof -
  obtain s m1 where get: "get_or_create_session sid now uid m = (s, m1)" by fastforce
  then have "hm_get (sm_sessions m1) u = hm_get (sm_sessions m) u"
    using get_or_create_get [of sid now uid m u] assms by simp
  then show ?thesis
    using assms by (simp add: maybe_hydrate_thread_def get Let_def register_get hm_get_insert split: option.split)
qed

lemma resolve_get:
  "hm_get (sm_sessions (snd (resolve_thread parse_str sid t now uid channel ext m))) u =
     (if u = uid then hm_get (sm_sessions (snd (resolve_thread parse_str sid t now uid channel ext m))) uid else hm_get (sm_sessions m) u)"
  "hm_get (sm_sessions (snd (resolve_thread parse_str sid t now uid channel ext m))) uid \<noteq> None"
  by (auto simp: resolve_thread_def Let_def get_or_create_get create_in_session_def hm_get_update split: option.split)

lemma locate_get:
  assumes "locate_thread d msg a = (tid, a1)"
  shows "u \<noteq> im_user_id msg \<Longrightarrow> hm_get (sm_sessions (ag_manager a1)) u = hm_get (sm_sessions (ag_manager a)) u"
    and "\<exists>sess. hm_get (sm_sessions (ag_manager a1)) (im_user_id msg) = Some sess"
    and "ag_trace a1 = ag_trace a" "ag_saved a1 = ag_saved a" "ag_ext a1 = ag_ext a"
proof -
  obtain m where m: "a1 = a\<lparr>ag_manager := snd (resolve_thread (ad_parse_uuid d) (ad_session_id d (ag_ext a)) (ad_thread_id d (ag_ext a))
      (cd_now (td_chat (ad_td d)) (ag_ext a)) (im_user_id msg) (im_channel msg) (im_thread_id msg) m)\<rparr>"
    and other: "u \<noteq> im_user_id msg \<Longrightarrow> hm_get (sm_sessions m) u = hm_get (sm_sessions (ag_manager a)) u" for u
    using assms by (auto simp: locate_thread_def Let_def hydrate_get split: option.splits prod.splits) (metis snd_conv hydrate_get)+
  show "u \<noteq> im_user_id msg \<Longrightarrow> hm_get (sm_sessions (ag_manager a1)) u = hm_get (sm_sessions (ag_manager a)) u"
    unfolding m using other resolve_get(1) [of "ad_parse_uuid d" _ _ _ "im_user_id msg" _ _ m u] by simp
  show "\<exists>sess. hm_get (sm_sessions (ag_manager a1)) (im_user_id msg) = Some sess"
    unfolding m using resolve_get(2) by auto
qed (use assms in \<open>auto simp: locate_thread_def Let_def split: prod.splits\<close>)

lemma on_chat_get: "u \<noteq> uid \<Longrightarrow> hm_get (sm_sessions (ag_manager (snd (on_chat uid f miss a)))) u = hm_get (sm_sessions (ag_manager a)) u"
  by (auto simp: on_chat_def put_chat_def hm_get_update split: option.split prod.split)

lemma with_undo_get:
  assumes "u \<noteq> uid"
  shows "hm_get (sm_sessions (ag_manager (snd (with_undo tid uid f a)))) u = hm_get (sm_sessions (ag_manager a)) u"
proof -
  obtain um m where get: "get_undo_manager tid (ag_manager a) = (um, m)" by fastforce
  then have "sm_sessions m = sm_sessions (ag_manager a)" using get_undo_sessions [of tid "ag_manager a"] by simp
  then show ?thesis
    using on_chat_get [OF assms, of "\<lambda>ch. case f um ch of (r, um, ch) \<Rightarrow> ((r, um), ch)" "(Inl (missing_thread tid), um)" "a\<lparr>ag_manager := m\<rparr>"]
    by (auto simp: with_undo_def get put_undo_def split: prod.splits)
qed

lemma dispatch_get:
  "u \<noteq> im_user_id msg \<Longrightarrow> hm_get (sm_sessions (ag_manager (snd (dispatch d msg tid sub a)))) u = hm_get (sm_sessions (ag_manager a)) u"
  by (cases sub) (simp_all add: dispatch_def Let_def without_undo_def on_chat_get with_undo_get split: prod.split)

section \<open>Theorems\<close>

text \<open>
  C2. However long the agent runs, whatever messages arrive, and whatever well-behaved tasks do to the
  sessions in between: every conversation it has sent to a model has the results of its tool calls
  in place, no thread is left in the middle of a turn, and a thread that waits for an approval has
  one that fits the conversation it belongs to.
\<close>

theorem agent_stays_ok:
  assumes "others_well d" and "ag_manager a = session_manager_new" and "ag_trace a = []" and "(agent_step d)\<^sup>*\<^sup>* a a'"
  shows "agent_ok a'"
  using assms(4)
proof (induction rule: rtranclp_induct)
  case base
  then show ?case using assms(2,3) by (simp add: agent_ok_def sessions_fine_def session_manager_new_def hm_get_def)
next
  case (step b c)
  then show ?case using agent_step_ok [OF assms(1)] by blast
qed


text \<open>
  C6. A message of one user leaves the sessions of all others as they are: their threads, turns,
  approvals and states.
\<close>

theorem users_isolated:
  assumes "handle_message d msg a = (r, a')" and "u \<noteq> im_user_id msg"
  shows "hm_get (sm_sessions (ag_manager a')) u = hm_get (sm_sessions (ag_manager a)) u"
  using assms(1)
proof (cases rule: handle_message_split)
  case (auth s tid a1 pending token)
  then show ?thesis using locate_get(1) [OF auth(2) assms(2)] on_chat_get [OF assms(2)] by (metis ag_manager_ext snd_conv)
next
  case (handled s sub tid a1 a2)
  have "hm_get (sm_sessions (ag_manager a2)) u = hm_get (sm_sessions (ag_manager a1)) u"
    unfolding handled(3) cancel_auth_def using on_chat_get [OF assms(2)] by auto
  then show ?thesis
    using handled(4) locate_get(1) [OF handled(2) assms(2)] dispatch_get [OF assms(2), of d tid sub a2]
    by (auto dest!: answer_of_fields)
qed simp

definition same_turns :: "session option \<Rightarrow> session option \<Rightarrow> bool" where
  "same_turns x y \<longleftrightarrow>
     rel_option (\<lambda>s s'. \<forall>t. map_option turns (threads s t) = map_option turns (threads s' t)) x y"

lemma process_auth_token_turns:
  assumes "process_auth_token d pending token tid ch = (t, ch')"
  shows "ch_trace ch' = ch_trace ch" "ch_saved ch' = ch_saved ch"
    "map_option turns (threads (ch_session ch') u) = map_option turns (threads (ch_session ch) u)"
  using assms
  by (auto simp: process_auth_token_def Let_def set_auth_def enter_auth_mode_def option.map_comp comp_def
      split: option.splits prod.splits sum.splits if_splits)

text \<open>
  C5. A token sent to a thread in auth mode goes to the extension and nowhere else: no turn of any
  thread changes, no message is saved, and nothing is added to the trace, so that it is not sent to
  a model. Here \<open>a1\<close> is the state in which the thread was found to wait for the token.
\<close>

theorem auth_token_unrecorded:
  assumes "inbound_hooks d msg (parsed d msg) (ad_set_tool_context d (im_channel msg) (message_target msg) (ag_ext a)) = (Inr (UserInput token), s)"
    and "locate_thread d msg (a\<lparr>ag_ext := s\<rparr>) = (tid, a1)" and "pending_auth_of tid (im_user_id msg) a1 = Some pending"
    and "handle_message d msg a = (r, a')"
  shows "ag_trace a' = ag_trace a \<and> ag_saved a' = ag_saved a
    \<and> (\<forall>u. same_turns (hm_get (sm_sessions (ag_manager a1)) u) (hm_get (sm_sessions (ag_manager a')) u))"
proof -
  obtain sess where get: "hm_get (sm_sessions (ag_manager a1)) (im_user_id msg) = Some sess"
    using locate_get(2) [OF assms(2)] by blast
  obtain t ch' where tok: "process_auth_token (ad_td d) pending token tid (chat_of sess a1) = (t, ch')" by fastforce
  have "a' = put_chat (im_user_id msg) ch' a1"
    using assms get tok by (simp add: handle_message_def awaited_token_def on_chat_def Let_def)
  then show ?thesis
    using process_auth_token_turns [OF tok] get locate_get(3,4) [OF assms(2)]
    by (auto simp: put_chat_def chat_of_def same_turns_def hm_get_update option.rel_refl)
qed

section \<open>Observations\<close>

text \<open>
  A reply that means "nothing to say" is answered with \<open>None\<close>, as \<open>/quit\<close> is: the loop stops.
\<close>

lemma silent_reply_stops:
  "is_silent_reply content \<Longrightarrow> answer_of d (Inr (Response content)) a = (Inr None, a)"
  "handle_message d msg a = (Inr None, a') \<Longrightarrow> agent_run d (msg # msgs) a = a'"
  by (simp_all add: answer_of_def agent_round_def)

text \<open>
  After \<open>/new\<close> and \<open>/thread\<close> the next message from the same place goes to the thread it went to
  before: the active thread of the session is not consulted.
\<close>

lemma active_thread_unused:
  assumes "resolve_lookup key m = Some tid"
    and "f s \<in> {snd (create_thread i now s), snd (switch_thread i now s)}" and "hm_get (sm_sessions m) (tk_user_id key) = Some s"
  shows "resolve_lookup key (m\<lparr>sm_sessions := hm_update (tk_user_id key) f (sm_sessions m)\<rparr>) = Some tid"
  using assms
  by (auto simp: resolve_lookup_def in_session_def hm_get_update create_thread_def switch_thread_def split: option.splits if_splits)

section \<open>A concrete agent\<close>

definition sample_agent_deps :: "unit agent_deps" where
  "sample_agent_deps =
     \<lparr>ad_td = sample_thread_deps ''hello'', ad_parse_uuid = (\<lambda>_. None), ad_approval_json = (\<lambda>_. None), ad_history = (\<lambda>_. None),
      ad_session_id = (\<lambda>_. 1), ad_thread_id = (\<lambda>_. 5), ad_set_tool_context = (\<lambda>_ _ s. s), ad_engine = sample_engine,
      ad_command = (\<lambda>_ _ s. (Inr (ok_with_message []), s)), ad_respond = (\<lambda>_ _ s. s), ad_event_triggers = (\<lambda>_ s. s)\<rparr>"

definition sample_agent :: "session_manager \<Rightarrow> unit agent" where
  "sample_agent m = \<lparr>ag_manager = m, ag_guard = ch_guard sample_chat, ag_ext = (), ag_status = [], ag_saved = [], ag_trace = [], ag_sent = []\<rparr>"

text \<open>A manager with one thread, in auth mode.\<close>

definition sample_manager :: session_manager where
  "sample_manager =
     \<lparr>sm_sessions = [(''u'', upd_thread 5 (enter_auth_mode ''mail'' 0) (snd (create_thread 5 0 (session_new 1 ''u'' 0))))],
      sm_thread_map = [(\<lparr>tk_user_id = ''u'', tk_channel = ''repl'', tk_external_thread_id = None\<rparr>, 5)],
      sm_undo_managers = [(5, undo_manager_new)]\<rparr>"

lemma sample_deps_td [simp]:
  "td_chat (ad_td sample_agent_deps) = talking_chat_deps ''hello''"
  by (simp add: sample_agent_deps_def sample_thread_deps_def)

lemma sample_well: "others_well sample_agent_deps" "keeps_approvals (td_chat (ad_td sample_agent_deps))"
  by (auto simp: others_well_def keeps_pendings_def others_settle_def keeps_approvals_def talking_chat_deps_def)

lemma agent_stays_ok_witness: "agent_ok (agent_run sample_agent_deps [sample_message, sample_message] (sample_agent session_manager_new))"
  by (rule agent_stays_ok [OF sample_well(1) _ _ agent_run_steps]) (simp_all add: sample_agent_def)


lemma users_isolated_witness:
  "hm_get (sm_sessions (ag_manager (snd (handle_message sample_agent_deps (sample_message\<lparr>im_user_id := ''v''\<rparr>) (sample_agent sample_manager))))) ''u''
   = hm_get (sm_sessions sample_manager) ''u''"
  using users_isolated [OF surjective_pairing, of "''u''" "sample_message\<lparr>im_user_id := ''v''\<rparr>" sample_agent_deps "sample_agent sample_manager"]
  by (simp add: sample_agent_def)

lemma auth_token_unrecorded_witness:
  "ag_trace (snd (handle_message sample_agent_deps sample_message (sample_agent sample_manager))) = []
   \<and> same_turns (hm_get (sm_sessions sample_manager) ''u'')
       (hm_get (sm_sessions (ag_manager (snd (handle_message sample_agent_deps sample_message (sample_agent sample_manager))))) ''u'')"
proof -
  have "parsed sample_agent_deps sample_message = UserInput ''what time is it''"
    unfolding sample_agent_deps_def sample_message_def by code_simp
  then have hooks: "inbound_hooks sample_agent_deps sample_message (parsed sample_agent_deps sample_message) ()
      = (Inr (UserInput ''what time is it''), ())"
    by (simp add: inbound_hooks_def run_hooks_def matching_hooks_def talking_chat_deps_def outcome_ok_def)
  have here: "hm_get (sm_sessions sample_manager) ''u'' = Some (upd_thread 5 (enter_auth_mode ''mail'' 0) (snd (create_thread 5 0 (session_new 1 ''u'' 0))))"
    by (simp add: sample_manager_def hm_get_def)
  have look: "resolve_lookup \<lparr>tk_user_id = ''u'', tk_channel = ''repl'', tk_external_thread_id = None\<rparr> sample_manager = Some 5"
    by (simp add: resolve_lookup_def in_session_def create_thread_def session_new_def sample_manager_def hm_get_def)
  have "resolve_thread p i t now ''u'' ''repl'' None sample_manager = (5, sample_manager)" for p i t now
    using here look by (simp add: resolve_thread_def get_or_create_session_def Let_def)
  then have loc: "locate_thread sample_agent_deps sample_message (sample_agent sample_manager) = (5, sample_agent sample_manager)"
    by (simp add: locate_thread_def sample_message_def sample_agent_def)
  have pend: "pending_auth_of 5 (im_user_id sample_message) (sample_agent sample_manager) = Some \<lparr>extension_name = ''mail''\<rparr>"
    by (simp add: pending_auth_of_def sample_message_def sample_agent_def here create_thread_def session_new_def enter_auth_mode_def)
  show ?thesis
    using auth_token_unrecorded [OF _ _ pend surjective_pairing, where d = sample_agent_deps and a = "sample_agent sample_manager"] hooks loc
    by (simp add: sample_agent_def)
qed

end
