(* ===== verification/Spec2Isabelle.thy ===== *)
theory Spec2Isabelle
  imports Session Undo Submission Job_State Job_Memory Context_Manager
    Provider Retry Circuit_Breaker Failover Response_Cache
    Network_Policy Rate_Limiter Wasm_Host Cost_Guard Token_Store Skills Hooks Preflight
    Leak_Detector Safety_Layer Session_Manager Path_Guard Tool_Types Tool_Schema Shell_Guard
    Credential_Injector Http_Guard Pairing Scheduler Agent_Loop
begin

text \<open>
A verification development for the agent in \<open>src/src\<close> (crate \<open>ironclaw\<close>): a personal assistant
  that receives messages, keeps conversations, calls LLMs and runs tools, jobs and WASM modules.
  File names below are relative to \<open>src/src\<close>.

  \<^bold>\<open>Parts and theories\<close>

  \<^item> \<^bold>\<open>Conversation state.\<close> A message is read by the submission parser
    (\<open>agent/submission.rs\<close>, theory \<open>Submission\<close>) as a command, an approval or plain input. The
    session manager (\<open>agent/session_manager.rs\<close> and the hydration of threads in
    \<open>agent/thread_ops.rs\<close>, theory \<open>Session_Manager\<close>) finds the session of the user and the thread
    of the channel; input starts a turn of that thread (\<open>agent/session.rs\<close>, theory \<open>Session\<close>);
    before each turn a checkpoint goes to the undo manager (\<open>agent/undo.rs\<close>, theory \<open>Undo\<close>).
    Senders of a channel are let in by the pairing store (\<open>pairing/store.rs\<close>, theory \<open>Pairing\<close>).
  \<^item> \<^bold>\<open>Jobs.\<close> The state machine \<open>context/state.rs\<close> (theory \<open>Job_State\<close>), \<open>context/memory.rs\<close> (theory
    \<open>Job_Memory\<close>) and \<open>context/manager.rs\<close> (theory \<open>Context_Manager\<close>), the latter with the
    interleavings of concurrent callers. The scheduler (\<open>agent/scheduler.rs\<close>, \<open>agent/task.rs\<close>, the
    help and cancel commands of \<open>agent/commands.rs\<close>, and \<open>agent/self_repair.rs\<close>, theory \<open>Scheduler\<close>)
    starts, stops and cleans up the workers of \<open>agent/worker.rs\<close> (theory \<open>Worker\<close>), which run a job
    by asking the reasoning engine (\<open>llm/reasoning.rs\<close>, theory \<open>Reasoning\<close>) for a plan, tool calls
    and answers; the processing of the model's text in the same file is theory \<open>Response_Text\<close>.
  \<^item> \<^bold>\<open>The LLM chain.\<close> Messages, requests, responses and errors of LLMs, and the sanitizer of tool
    messages (\<open>llm/provider.rs\<close>, \<open>error.rs\<close>), are in theory \<open>Llm_Types\<close>. Providers and decorators of
    providers: the interface in theory \<open>Provider\<close>, then \<open>llm/retry.rs\<close> (\<open>Retry\<close>),
    \<open>llm/circuit_breaker.rs\<close> (\<open>Circuit_Breaker\<close>), \<open>llm/failover.rs\<close> (\<open>Failover\<close>) and
    \<open>llm/response_cache.rs\<close> (\<open>Response_Cache\<close>); their composition in \<open>llm/mod.rs\<close> is at the end of
    this theory. The guard in front of the chain and the price table, \<open>agent/cost_guard.rs\<close> and
    \<open>llm/costs.rs\<close>, are in theory \<open>Cost_Guard\<close>.
  \<^item> \<^bold>\<open>Tools.\<close> Parameters, errors and approval requirements of tools (\<open>tools/tool.rs\<close>, \<open>util.rs\<close>) are
    in theory \<open>Tool_Types\<close>, the validators of parameter schemas (\<open>tools/tool.rs\<close>,
    \<open>tools/schema_validator.rs\<close>) in \<open>Tool_Schema\<close>. Before a tool call of a conversation runs it
    passes the preflight of \<open>agent/dispatcher.rs\<close> (theory \<open>Preflight\<close>), which asks the hooks
    (\<open>hooks/hook.rs\<close>, \<open>hooks/registry.rs\<close>, theory \<open>Hooks\<close>), the tool's approval requirement and the
    session; and the rate limiter (\<open>tools/rate_limiter.rs\<close>, theory \<open>Rate_Limiter\<close>). Which tools the
    LLM is told about depends on the active skills (\<open>skills/mod.rs\<close>, \<open>skills/attenuation.rs\<close>,
    \<open>skills/selector.rs\<close>, theory \<open>Skills\<close>). Built-in tools: the shell (\<open>tools/builtin/shell.rs\<close>,
    theory \<open>Shell_Guard\<close>), HTTP (\<open>tools/builtin/http.rs\<close>, theory \<open>Http_Guard\<close>) and the path check of
    the file tools (\<open>tools/builtin/path_utils.rs\<close>, theory \<open>Path_Guard\<close>).
  \<^item> \<^bold>\<open>Safety.\<close> Text that enters or leaves is checked by the leak detector
    (\<open>safety/leak_detector.rs\<close>, theory \<open>Leak_Detector\<close>) and by the sanitizer, the policy, the
    validator and the credential detection composed in \<open>safety/mod.rs\<close> (theory \<open>Safety_Layer\<close>).
  \<^item> \<^bold>\<open>Sandboxes.\<close> WASM tools reach the outside through \<open>tools/wasm/capabilities.rs\<close>,
    \<open>tools/wasm/allowlist.rs\<close> and \<open>tools/wasm/host.rs\<close> (theory \<open>Wasm_Host\<close>), with secrets added by
    \<open>tools/wasm/credential_injector.rs\<close> (theory \<open>Credential_Injector\<close>); containers through the
    proxy's policy (\<open>sandbox/proxy/allowlist.rs\<close>, \<open>sandbox/proxy/policy.rs\<close>, theory
    \<open>Network_Policy\<close>) and with the tokens of \<open>orchestrator/auth.rs\<close> (theory \<open>Token_Store\<close>).

  \<^bold>\<open>How the code is modelled.\<close> A struct is a record, an enum a datatype, a method a function
  from the record to a result and the new record; \<open>Result\<close> is a sum with the error on the left,
  a panic is \<open>None\<close> where one is possible. \<open>u32\<close> and \<open>u64\<close> are words where the code counts or
  compares at that width; \<open>Decimal\<close> is a rational number; strings are byte lists, with the
  Unicode-aware operations written out for ASCII (theory \<open>Prelude\<close>). Clock readings, random
  bytes and fresh identifiers are arguments, or read from an abstract world that the calls
  thread. What belongs to other crates (URL and UUID parsing, percent-decoding, SHA-256, JSON
  text, regular expressions, LLM backends, hook and tool implementations) is an argument as
  well, and the theorems hold for every such argument, or under the named hypotheses they state. A
  \<open>HashMap\<close> is an association list with distinct keys. A method that holds a lock throughout is one
  step; a method that releases it is split into its critical sections, and theories
  \<open>Context_Manager\<close>, \<open>Circuit_Breaker\<close>, \<open>Response_Cache\<close> and \<open>Scheduler\<close> treat every interleaving of
  those. While a worker waits for a model or a tool, other tasks may change the job table: theory
  \<open>Worker\<close> threads it through an argument that stands for them, constrained only by named
  hypotheses. In the other theories calls follow one another. Every definition terminates; the
  loops over attempts, providers, messages, characters and rounds recurse on a list, a counter or
  a size, so no fuel is needed.

  \<^bold>\<open>Interfaces\<close> are locales, each interpreted on the model's operations: \<open>invariant_machine\<close> (a
  step function that keeps an invariant; sessions, undo, jobs, the job manager, the cache, the
  hook registry), \<open>keyed_store\<close> (hash maps, used by the stores of tokens, jobs, rate limits and
  bound providers), \<open>allowlist\<close> (domains, endpoints, secret names, hosts with credentials),
  \<open>fixed_window\<close> (the minute and the hour window of the rate limiter), \<open>sound_decorator\<close> and
  \<open>decorator_stack\<close> (retry, circuit breaker, failover, cache, and a breaker around retries),
  \<open>worker_invariant\<close> (what every step of a worker keeps; interpreted for the job having been
  started and for its completion being justified).

  \<^bold>\<open>What is shown.\<close> Invariants of every reachable state: turns and threads, undo and redo stacks,
  job histories, job contexts and memories, the breaker, the cache, the hook registry, the
  scheduler's tables. Exact behaviour: parsing of submissions, retry and failover outcomes,
  allowlist decisions, rate limit results, the hook chain, tool attenuation, schema validation,
  removal of reasoning tags. Refinements and round trips: undo and redo as a cursor on a timeline,
  threads rebuilt from their messages, base64, text wrapped for the model. Bounds: active jobs
  under every interleaving, parallel workers, calls per hour and per window, the daily budget,
  cache size, pairing codes, HTTP requests of one execution. Liveness and termination: a worker
  returns after a bounded number of rounds and settles its job, the cleanup tasks release every
  finished job. Security: no tool call runs without the approval its final parameters require;
  sensitive parameters are neither shown to hooks nor changed by them; what a shell command or an
  HTTP request may do; files stay below their base directory; allowlisted paths contain no dot
  segments; senders are let in by an approval only; worker tokens are bound to their job; API keys
  only go to their hosts; leaked secrets are found wherever a pattern matches.

  \<^bold>\<open>Where the code departs from its intent\<close> the departure is proved: \<open>budget_block_is_permanent\<close>
  (theory \<open>Cost_Guard\<close>), \<open>host_log_panics\<close> and \<open>secret_exists_without_user\<close> (\<open>Wasm_Host\<close>),
  \<open>late_success_closes_open_circuit\<close> (\<open>Circuit_Breaker\<close>), \<open>backoff_delay_collapses\<close> (\<open>Retry\<close>),
  \<open>orphan_memory_reachable\<close> (\<open>Context_Manager\<close>), \<open>stop_sequences_collide\<close> (\<open>Response_Cache\<close>),
  \<open>disguised_key_evades\<close> and \<open>nested_redaction_leaks\<close> (\<open>Leak_Detector\<close>), \<open>truncated_output_unscanned\<close>
  and \<open>null_byte_defeats_escaping\<close> (\<open>Safety_Layer\<close>), \<open>empty_param_refused\<close> (\<open>Safety_Layer\<close>),
  \<open>concurrent_resolve_splits\<close>, \<open>active_session_pruned\<close> and \<open>hydrate_loads_any_conversation\<close>
  (\<open>Session_Manager\<close>), \<open>chmod_block_dead\<close> and \<open>host_run_reported_sandboxed\<close> (\<open>Shell_Guard\<close>),
  \<open>mapped_loopback_allowed\<close> and \<open>injected_key_refused\<close> (\<open>Http_Guard\<close>), \<open>strict_allows_untyped\<close> and
  \<open>strict_not_stronger\<close> (\<open>Tool_Schema\<close>), \<open>second_approval_drops_first\<close> (\<open>Pairing\<close>),
  \<open>second_bracket_call_lost\<close>, \<open>unfinished_tag_duplicates\<close> and \<open>nested_thinking_shown\<close>
  (\<open>Response_Text\<close>), \<open>stopped_job_completes\<close>, \<open>hook_replaces_secret\<close>, \<open>approval_before_hooks\<close> and
  \<open>tool_use_event_unredacted\<close> (\<open>Worker\<close>), \<open>help_leaves_job_without_worker\<close>,
  \<open>stopped_job_ends_completed\<close>, \<open>refused_dispatch_keeps_job\<close> and \<open>stale_cleanup_exceeds_limit\<close>
  (\<open>Scheduler\<close>).

  \<^bold>\<open>Not modelled:\<close> the asynchronous agent loop, the LLM backends, databases, channels, the web
  gateway, configuration and command line (I/O around the modelled state), the WASM and container
  runtimes, and, for now, routines, context compaction, smart routing and the workspace search.
  These last are the plan for extending the development: compaction and its monitor, chunking and
  rank fusion, routines and their guardrails, smart routing, then skill files and bundled hooks.
\<close>

section \<open>The provider chain\<close>

text \<open>
  \<open>build_provider_chain\<close> of \<open>llm/mod.rs\<close>, for a configuration without a cheap model (so without
  smart routing) and without trace recording. The backends that \<open>create_llm_provider\<close> makes are
  arguments. Every decorator is optional; the world of the chain always pairs the states of the
  cache, the breaker and the failover provider with the world of the backends, and a decorator
  that is off passes its component on untouched. The environment holds what the decorators read:
  the sleeping, the random numbers, the clock, the current task, the names of the models, the
  hash and the JSON text.
\<close>

record nearai_config =
  na_max_retries :: nat
  na_fallback_model :: "string option"
  na_failover_cooldown_secs :: nat
  na_failover_cooldown_threshold :: u32
  na_circuit_breaker_threshold :: "u32 option"
  na_circuit_breaker_recovery_secs :: nat
  na_response_cache_enabled :: bool
  na_response_cache_ttl_secs :: nat
  na_response_cache_max_entries :: nat

record 's chain_env =
  env_sleep :: "duration \<Rightarrow> 's \<Rightarrow> 's"
  env_rand :: "'s \<Rightarrow> u64"
  env_clock :: "'s \<Rightarrow> instant"
  env_task :: "nat option"
  env_active_model :: "nat \<Rightarrow> 's \<Rightarrow> string"
  env_model_name :: string
  env_show_secs :: "duration \<Rightarrow> string"
  env_sha256 :: "string \<Rightarrow> string"
  env_to_json :: "chat_message list \<Rightarrow> string option"

type_synonym 's llm = "(completion_request, completion_response, 's) provider"

definition pass_through :: "('q, 'p, 's) provider \<Rightarrow> ('q, 'p, 'x \<times> 's) provider" where
  "pass_through call r xs = (case xs of (x, s) \<Rightarrow> (case call r s of (res, s) \<Rightarrow> (res, (x, s))))"

definition with_retry :: "nearai_config \<Rightarrow> 's chain_env \<Rightarrow> 's llm \<Rightarrow> 's llm" where
  "with_retry nc env llm =
     (if na_max_retries nc > 0
      then retry_complete (env_sleep env) (env_rand env) \<lparr>max_retries = na_max_retries nc\<rparr> llm
      else llm)"

definition chain_cooldown_config :: "nearai_config \<Rightarrow> cooldown_config" where
  "chain_cooldown_config nc =
     \<lparr>cooldown_duration = secs (na_failover_cooldown_secs nc),
      failure_threshold = na_failover_cooldown_threshold nc\<rparr>"

definition with_failover :: "nearai_config \<Rightarrow> 's chain_env \<Rightarrow> 's llm \<Rightarrow> 's llm \<Rightarrow> (failover \<times> 's) llm" where
  "with_failover nc env llm fallback =
     (case na_fallback_model nc of
        Some _ \<Rightarrow> failover_complete (chain_cooldown_config nc) (\<lambda>s. of_nat (env_clock env s)) (env_task env)
                    [llm, with_retry nc env fallback]
      | None \<Rightarrow> pass_through llm)"

definition chain_breaker_config :: "nearai_config \<Rightarrow> u32 \<Rightarrow> circuit_breaker_config" where
  "chain_breaker_config nc threshold =
     \<lparr>circuit_breaker_config.failure_threshold = threshold,
      recovery_timeout = secs (na_circuit_breaker_recovery_secs nc),
      half_open_successes_needed = half_open_successes_needed circuit_breaker_config_default\<rparr>"

definition with_breaker ::
  "nearai_config \<Rightarrow> 's chain_env \<Rightarrow> (failover \<times> 's) llm \<Rightarrow> (breaker_state \<times> failover \<times> 's) llm" where
  "with_breaker nc env llm =
     (case na_circuit_breaker_threshold nc of
        Some threshold \<Rightarrow>
          breaker_complete (chain_breaker_config nc threshold) (env_model_name env) (env_show_secs env)
            (\<lambda>(f, s). env_clock env s) llm
      | None \<Rightarrow> pass_through llm)"

text \<open>
  The name of the effective model, which the cache asks of the chain below it: breaker and retry
  pass the question on, the failover provider consumes the binding of the current task, and a
  backend answers with the requested model or its active one.
\<close>

definition backend_model :: "'s chain_env \<Rightarrow> 's \<Rightarrow> nat \<Rightarrow> string option \<Rightarrow> string" where
  "backend_model env s i requested = (case requested of Some m \<Rightarrow> m | None \<Rightarrow> env_active_model env i s)"

definition chain_model_name ::
  "nearai_config \<Rightarrow> 's chain_env \<Rightarrow> string option \<Rightarrow> breaker_state \<times> failover \<times> 's
   \<Rightarrow> string \<times> breaker_state \<times> failover \<times> 's" where
  "chain_model_name nc env requested bfs =
     (case bfs of (b, f, s) \<Rightarrow>
       (case na_fallback_model nc of
          None \<Rightarrow> (backend_model env s 0 requested, b, f, s)
        | Some _ \<Rightarrow>
            (case effective_model_name (backend_model env s) (env_task env) [0, 1] requested f of
               (m, f) \<Rightarrow> ((case m of Some m \<Rightarrow> m | None \<Rightarrow> []), b, f, s))))"

definition chain_cache_config :: "nearai_config \<Rightarrow> response_cache_config" where
  "chain_cache_config nc =
     \<lparr>ttl = secs (na_response_cache_ttl_secs nc), max_entries = na_response_cache_max_entries nc\<rparr>"

definition with_cache ::
  "nearai_config \<Rightarrow> 's chain_env \<Rightarrow> (breaker_state \<times> failover \<times> 's) llm
   \<Rightarrow> (cached_provider \<times> breaker_state \<times> failover \<times> 's) llm" where
  "with_cache nc env llm =
     (if na_response_cache_enabled nc
      then cached_complete (env_sha256 env) (env_to_json env) (chain_cache_config nc) (chain_model_name nc env)
             (\<lambda>(b, f, s). env_clock env s) llm
      else pass_through llm)"

definition build_provider_chain ::
  "nearai_config \<Rightarrow> 's chain_env \<Rightarrow> 's llm \<Rightarrow> 's llm \<Rightarrow> (cached_provider \<times> breaker_state \<times> failover \<times> 's) llm" where
  "build_provider_chain nc env llm fallback =
     with_cache nc env (with_breaker nc env (with_failover nc env (with_retry nc env llm) fallback))"

definition chain_start :: "'s \<Rightarrow> cached_provider \<times> breaker_state \<times> failover \<times> 's" where
  "chain_start s =
     (cached_new, breaker_new,
      \<lparr>last_used = 0, cooldowns = [cooldown_new, cooldown_new], provider_for_task = []\<rparr>, s)"

section \<open>Every layer keeps the chain sound\<close>

lemma pass_through_ok:
  "provider_ok call ok acceptable \<Longrightarrow> provider_ok (pass_through call) (\<lambda>(x, s). holds x \<and> ok s) acceptable"
  by (auto simp: provider_ok_def pass_through_def split: prod.splits, (metis fst_conv snd_conv)+)

lemma with_retry_ok:
  assumes "\<forall>d s. ok s \<longrightarrow> ok (env_sleep env d s)" and "provider_ok llm ok acceptable"
  shows "provider_ok (with_retry nc env llm) ok acceptable"
  using retry.wrap_ok [OF assms] assms(2) by (simp add: with_retry_def)

lemma with_failover_ok:
  assumes "\<forall>d s. ok s \<longrightarrow> ok (env_sleep env d s)"
    and "provider_ok llm ok acceptable" and "provider_ok fallback ok acceptable"
  shows "provider_ok (with_failover nc env llm fallback) (\<lambda>(f, s). failover_wf 2 f \<and> ok s) acceptable"
proof -
  have "\<forall>p \<in> set [with_retry nc env fallback]. provider_ok p ok acceptable"
    using with_retry_ok [OF assms(1,3)] by simp
  from failover.wrap_ok [OF this assms(2)] show ?thesis
    using pass_through_ok [OF assms(2), of "failover_wf 2"]
    by (simp add: with_failover_def numeral_2_eq_2 split: option.splits)
qed

definition chain_breaker_inv :: "nearai_config \<Rightarrow> breaker_state \<Rightarrow> bool" where
  "chain_breaker_inv nc b =
     (case na_circuit_breaker_threshold nc of
        Some threshold \<Rightarrow> breaker_inv (chain_breaker_config nc threshold) b
      | None \<Rightarrow> True)"

lemma with_breaker_ok:
  assumes "provider_ok llm ok acceptable"
  shows "provider_ok (with_breaker nc env llm) (\<lambda>(b, t). chain_breaker_inv nc b \<and> ok t) acceptable"
proof (cases "na_circuit_breaker_threshold nc")
  case None
  then show ?thesis
    using pass_through_ok [OF assms, of "chain_breaker_inv nc"] by (simp add: with_breaker_def)
next
  case (Some threshold)
  then show ?thesis
    using breaker.wrap_ok [OF TrueI assms] by (simp add: with_breaker_def chain_breaker_inv_def)
qed

definition chain_cache_inv ::
  "nearai_config \<Rightarrow> 's chain_env \<Rightarrow> (completion_request \<Rightarrow> completion_response \<Rightarrow> bool) \<Rightarrow> cached_provider \<Rightarrow> bool" where
  "chain_cache_inv nc env acceptable c \<longleftrightarrow>
     cache_wf (chain_cache_config nc) c \<and> entries_acceptable (env_sha256 env) (env_to_json env) acceptable c"

lemma with_cache_ok:
  assumes "provider_ok llm ok acceptable" and "key_determines (env_sha256 env) (env_to_json env) acceptable"
    and "\<forall>m t. ok t \<longrightarrow> ok (snd (chain_model_name nc env m t))"
  shows "provider_ok (with_cache nc env llm) (\<lambda>(c, t). chain_cache_inv nc env acceptable c \<and> ok t) acceptable"
  using cached.wrap_ok [OF conjI [OF assms(2,3)] assms(1)] pass_through_ok [OF assms(1), of "chain_cache_inv nc env acceptable"]
  by (simp add: with_cache_def chain_cache_inv_def)

lemma chain_model_name_keeps:
  assumes "case t of (b, f, s) \<Rightarrow> chain_breaker_inv nc b \<and> failover_wf 2 f \<and> ok s"
  shows "case snd (chain_model_name nc env m t) of (b, f, s) \<Rightarrow> chain_breaker_inv nc b \<and> failover_wf 2 f \<and> ok s"
  using assms take_bound_provider_wf [of 2 "fst (snd t)" "env_task env"]
  by (auto simp: chain_model_name_def effective_model_name_def split: prod.splits option.splits)

section \<open>Theorems\<close>



end
